(* ===== verification/NC_Prelude.thy ===== *)
theory NC_Prelude
  imports Main "HOL-Library.Word"
begin

text \<open>
  Shared ground of the development: bytes, the exceptions of the program, and the state-and-error
  monad in which the Python code is rendered.

  A Python function that reads and writes an object and may raise is a function
  \<open>'s \<Rightarrow> (exc + 'a) \<times> 's\<close>: it takes the state of the object, returns either the exception
  raised (\<open>Inl\<close>) or the value returned (\<open>Inr\<close>), and the state at that moment. The state is
  kept also when an exception is raised, because Python does not roll back what was written before
  the \<open>raise\<close>.
\<close>

section \<open>Bytes\<close>

type_synonym byte = "8 word"
type_synonym bytes = "byte list"

text \<open>A Python \<open>str\<close> is a sequence of Unicode code points.\<close>
type_synonym ustring = "nat list"

section \<open>Exceptions\<close>

text \<open>
  One constructor per exception class raised by the modelled code. The classes from
  \<open>NCFail\<close> up to \<open>NCSerializationArgTooLong\<close> are those of \<^verbatim>\<open>hathor/nanocontracts/exception.py\<close>.
\<close>

datatype exc =
    ValueError | TypeError | KeyError | IndexError | AssertionError | RuntimeError
  | NotImplementedError | AttributeError | OverflowError
  | SerializationError | TooLongError | OutOfDataError | BadDataError | MaxBytesExceededError
  | StructError | InvalidFeeAmount | InvalidOutputValue | TransactionDataError | TransactionDoesNotExist
  | TokenNotFound | InputOutputMismatch | ForbiddenMint | ForbiddenMelt | InvalidToken
  | NCFail | NanoContractDoesNotExist | BlueprintDoesNotExist
  | NCSerializationError | NCViewMethodError | NCMethodNotFound | NCInsufficientFunds
  | NCAttributeError | NCInvalidContext | NCRecursionError | NCNumberOfCallsExceeded
  | NCInvalidContractId | NCInvalidMethodCall | NCInvalidFeePaymentToken
  | NCInvalidInitializeMethodCall | NCInvalidPublicMethodCallFromView
  | NCAlreadyInitializedContractError | NCUninitializedContractError | NCInvalidAction
  | NCInvalidFee | NCInvalidSyscall | NCTokenAlreadyExists | NCForbiddenAction
  | NCForbiddenReentrancy
  | NCTxValidationError | NCInvalidSeqnum | NCSerializationArgTooLong
  | OutOfFuel

text \<open>
  \<open>OutOfFuel\<close> is not an exception of the program: it is the result of a loop rendered with a bound
  on its number of rounds when the bound is reached. The lemmas on these loops show that it is not.
\<close>

text \<open>The subclasses of \<open>NCFail\<close>: \<^verbatim>\<open>except NCFail\<close> catches exactly these.\<close>

fun is_nc_fail :: "exc \<Rightarrow> bool" where
  "is_nc_fail NCFail = True"
| "is_nc_fail NanoContractDoesNotExist = True"
| "is_nc_fail BlueprintDoesNotExist = True"
| "is_nc_fail NCSerializationError = True"
| "is_nc_fail NCViewMethodError = True"
| "is_nc_fail NCMethodNotFound = True"
| "is_nc_fail NCInsufficientFunds = True"
| "is_nc_fail NCAttributeError = True"
| "is_nc_fail NCInvalidContext = True"
| "is_nc_fail NCRecursionError = True"
| "is_nc_fail NCNumberOfCallsExceeded = True"
| "is_nc_fail NCInvalidContractId = True"
| "is_nc_fail NCInvalidMethodCall = True"
| "is_nc_fail NCInvalidFeePaymentToken = True"
| "is_nc_fail NCInvalidInitializeMethodCall = True"
| "is_nc_fail NCInvalidPublicMethodCallFromView = True"
| "is_nc_fail NCAlreadyInitializedContractError = True"
| "is_nc_fail NCUninitializedContractError = True"
| "is_nc_fail NCInvalidAction = True"
| "is_nc_fail NCInvalidFee = True"
| "is_nc_fail NCInvalidSyscall = True"
| "is_nc_fail NCTokenAlreadyExists = True"
| "is_nc_fail NCForbiddenAction = True"
| "is_nc_fail NCForbiddenReentrancy = True"
| "is_nc_fail NCTxValidationError = True"
| "is_nc_fail NCInvalidSeqnum = True"
| "is_nc_fail NCSerializationArgTooLong = True"
| "is_nc_fail _ = False"

section \<open>The state-and-error monad\<close>

type_synonym ('s, 'a) sm = "'s \<Rightarrow> (exc + 'a) \<times> 's"

definition sret :: "'a \<Rightarrow> ('s, 'a) sm" where
  "sret x = (\<lambda>s. (Inr x, s))"

definition sraise :: "exc \<Rightarrow> ('s, 'a) sm" where
  "sraise e = (\<lambda>s. (Inl e, s))"

definition sbind :: "('s, 'a) sm \<Rightarrow> ('a \<Rightarrow> ('s, 'b) sm) \<Rightarrow> ('s, 'b) sm" where
  "sbind m f = (\<lambda>s. case m s of (Inl e, s') \<Rightarrow> (Inl e, s') | (Inr x, s') \<Rightarrow> f x s')"

definition sthen :: "('s, 'a) sm \<Rightarrow> ('s, 'b) sm \<Rightarrow> ('s, 'b) sm" where
  "sthen m n = sbind m (\<lambda>_. n)"

definition sget :: "('s \<Rightarrow> 'a) \<Rightarrow> ('s, 'a) sm" where
  "sget f = (\<lambda>s. (Inr (f s), s))"

definition smod :: "('s \<Rightarrow> 's) \<Rightarrow> ('s, unit) sm" where
  "smod f = (\<lambda>s. (Inr (), f s))"

text \<open>\<^verbatim>\<open>assert b\<close> and \<^verbatim>\<open>if not b: raise e\<close>.\<close>

definition sassert :: "bool \<Rightarrow> ('s, unit) sm" where
  "sassert b = (if b then sret () else sraise AssertionError)"

definition sguard :: "bool \<Rightarrow> exc \<Rightarrow> ('s, unit) sm" where
  "sguard b e = (if b then sret () else sraise e)"

text \<open>\<^verbatim>\<open>for x in xs: f(x)\<close>.\<close>

primrec sfor :: "'a list \<Rightarrow> ('a \<Rightarrow> ('s, unit) sm) \<Rightarrow> ('s, unit) sm" where
  "sfor [] f = sret ()"
| "sfor (x # xs) f = sthen (f x) (sfor xs f)"

text \<open>\<^verbatim>\<open>[f() for _ in range(n)]\<close> and \<^verbatim>\<open>[f(x) for x in xs]\<close>.\<close>

primrec srepeat :: "nat \<Rightarrow> ('s, 'a) sm \<Rightarrow> ('s, 'a list) sm" where
  "srepeat 0 f = sret []"
| "srepeat (Suc n) f = sbind f (\<lambda>x. sbind (srepeat n f) (\<lambda>xs. sret (x # xs)))"

named_theorems sm_simps \<open>the equations of the monad on a state\<close>

lemma sret_apply [sm_simps]: "sret x s = (Inr x, s)"
  by (simp add: sret_def)

lemma sraise_apply [sm_simps]: "sraise e s = (Inl e, s)"
  by (simp add: sraise_def)

lemma sget_apply [sm_simps]: "sget f s = (Inr (f s), s)"
  by (simp add: sget_def)

lemma smod_apply [sm_simps]: "smod f s = (Inr (), f s)"
  by (simp add: smod_def)

lemma sassert_apply [sm_simps]: "sassert b s = (if b then Inr () else Inl AssertionError, s)"
  by (simp add: sassert_def sm_simps)

lemma sguard_apply [sm_simps]: "sguard b e s = (if b then Inr () else Inl e, s)"
  by (simp add: sguard_def sm_simps)

lemma sbind_apply [sm_simps]:
  "sbind m f s = (case m s of (Inl e, s') \<Rightarrow> (Inl e, s') | (Inr x, s') \<Rightarrow> f x s')"
  by (simp add: sbind_def)

lemma sthen_apply [sm_simps]:
  "sthen m n s = (case m s of (Inl e, s') \<Rightarrow> (Inl e, s') | (Inr x, s') \<Rightarrow> n s')"
  by (simp add: sthen_def sm_simps)

text \<open>Inversion of a successful sequence: the first part succeeded and handed on its state.\<close>

lemma sbind_Inr: "sbind m f s = (Inr y, t) \<longleftrightarrow> (\<exists>x u. m s = (Inr x, u) \<and> f x u = (Inr y, t))"
  by (auto simp: sbind_def split: prod.splits sum.splits)

lemma sthen_Inr: "sthen m n s = (Inr y, t) \<longleftrightarrow> (\<exists>x u. m s = (Inr x, u) \<and> n u = (Inr y, t))"
  by (simp add: sthen_def sbind_Inr)

lemma sret_Inr [simp]: "sret x s = (Inr y, t) \<longleftrightarrow> y = x \<and> t = s"
  by (auto simp: sret_def)

lemma sraise_Inr [simp]: "sraise e s \<noteq> (Inr y, t)"
  by (simp add: sraise_def)

lemma sget_Inr [simp]: "sget f s = (Inr y, t) \<longleftrightarrow> y = f s \<and> t = s"
  by (auto simp: sget_def)

lemma smod_Inr [simp]: "smod f s = (Inr y, t) \<longleftrightarrow> t = f s"
  by (auto simp: smod_def)

lemma sassert_Inr [simp]: "sassert b s = (Inr y, t) \<longleftrightarrow> b \<and> t = s"
  by (auto simp: sassert_def sret_def sraise_def)

lemma sguard_Inr [simp]: "sguard b e s = (Inr y, t) \<longleftrightarrow> b \<and> t = s"
  by (auto simp: sguard_def sret_def sraise_def)

lemmas sm_invert = sbind_Inr sthen_Inr

text \<open>The monad laws.\<close>

lemma sbind_sret [simp]: "sbind (sret x) f = f x"
  by (simp add: fun_eq_iff sm_simps)

lemma sbind_sret_right [simp]: "sbind m sret = m"
  by (auto simp: fun_eq_iff sm_simps split: prod.splits sum.splits)

lemma sbind_assoc: "sbind (sbind m f) g = sbind m (\<lambda>x. sbind (f x) g)"
  by (auto simp: fun_eq_iff sm_simps split: prod.splits sum.splits)

section \<open>Dictionaries\<close>

text \<open>
  A Python dict is the list of its items in insertion order. Assigning to a key that is present keeps
  its place; deleting a missing key raises \<open>KeyError\<close>.
\<close>

type_synonym ('k, 'v) dict = "('k \<times> 'v) list"

abbreviation dict_get :: "('k, 'v) dict \<Rightarrow> 'k \<Rightarrow> 'v option" where
  "dict_get d k \<equiv> map_of d k"

primrec dict_put :: "'k \<Rightarrow> 'v \<Rightarrow> ('k, 'v) dict \<Rightarrow> ('k, 'v) dict" where
  "dict_put k v [] = [(k, v)]"
| "dict_put k v (kv # kvs) = (if fst kv = k then (k, v) # kvs else kv # dict_put k v kvs)"

definition dict_del :: "'k \<Rightarrow> ('k, 'v) dict \<Rightarrow> ('k, 'v) dict" where
  "dict_del k d = filter (\<lambda>kv. fst kv \<noteq> k) d"

definition dict_has :: "('k, 'v) dict \<Rightarrow> 'k \<Rightarrow> bool" where
  "dict_has d k \<longleftrightarrow> dict_get d k \<noteq> None"

lemma dict_get_put [simp]: "dict_get (dict_put k v d) k' = (if k' = k then Some v else dict_get d k')"
  by (induction d) auto

lemma dict_get_del [simp]: "dict_get (dict_del k d) k' = (if k' = k then None else dict_get d k')"
  by (induction d) (auto simp: dict_del_def)

lemma dict_has_put [simp]: "dict_has (dict_put k v d) k' \<longleftrightarrow> k' = k \<or> dict_has d k'"
  by (simp add: dict_has_def)

lemma dict_put_new: "k \<notin> fst ` set d \<Longrightarrow> dict_put k v d = d @ [(k, v)]"
  by (induction d) auto

lemma dict_keys_put: "fst ` set (dict_put k v d) = insert k (fst ` set d)"
  by (induction d) auto

lemma distinct_dict_put [simp]: "distinct (map fst (dict_put k v d)) \<longleftrightarrow> distinct (map fst d)"
proof (induction d)
  case (Cons kv d)
  then show ?case using dict_keys_put [of k v d] by auto
qed simp

end
