(* ===== verification/NC_Serialization.thy ===== *)
theory NC_Serialization
  imports NC_Prelude
begin

unbundle bit_operations_syntax

text \<open>
  The serialization layer (\<^verbatim>\<open>hathor/serialization\<close>): the serializer and deserializer objects with their
  \<open>max_bytes\<close> adapters, the simple encodings (bool, fixed-size int, LEB128, output value,
  length-prefixed bytes, UTF-8) and the compound encodings (optional, collection, mapping, tuple,
  caller id). Each encoder is paired with its decoder by the law of the locale \<open>codec\<close>: whatever
  the encoder appends, the decoder reads back, leaving the rest of the input and the byte budgets
  of the adapters in step.
\<close>

section \<open>Serializer and deserializer objects\<close>

text \<open>
  A serializer is the bytes written so far and the \<open>_bytes_left\<close> counters of the
  \<open>MaxBytesSerializer\<close> adapters wrapped around it, outermost first. A deserializer is the rest of
  the view and the counters of its \<open>MaxBytesDeserializer\<close> adapters.
\<close>

record serializer =
  ser_buf :: bytes
  ser_left :: "int list"

record deserializer =
  de_view :: bytes
  de_left :: "int list"

definition build_bytes_serializer :: serializer where
  "build_bytes_serializer = \<lparr>ser_buf = [], ser_left = []\<rparr>"

definition build_bytes_deserializer :: "bytes \<Rightarrow> deserializer" where
  "build_bytes_deserializer data = \<lparr>de_view = data, de_left = []\<rparr>"

text \<open>
  Each adapter subtracts the size from its own counter first, raises when the counter is negative,
  and only then forwards to the adapter inside it.
\<close>

fun check_update_exceeds :: "int \<Rightarrow> int list \<Rightarrow> bool \<times> int list" where
  "check_update_exceeds n [] = (True, [])"
| "check_update_exceeds n (l # ls) =
     (if l - n < 0 then (False, (l - n) # ls)
      else (case check_update_exceeds n ls of (ok, ls') \<Rightarrow> (ok, (l - n) # ls')))"

definition write_bytes :: "bytes \<Rightarrow> (serializer, unit) sm" where
  "write_bytes data s =
     (case check_update_exceeds (int (length data)) (ser_left s) of (ok, ls) \<Rightarrow>
        if ok then (Inr (), s\<lparr>ser_buf := ser_buf s @ data, ser_left := ls\<rparr>)
        else (Inl MaxBytesExceededError, s\<lparr>ser_left := ls\<rparr>))"

text \<open>\<open>int.to_bytes\<close> checks the range of the byte, after the adapters have counted it.\<close>

definition write_byte :: "int \<Rightarrow> (serializer, unit) sm" where
  "write_byte data s =
     (case check_update_exceeds 1 (ser_left s) of (ok, ls) \<Rightarrow>
        if \<not> ok then (Inl MaxBytesExceededError, s\<lparr>ser_left := ls\<rparr>)
        else if 0 \<le> data \<and> data < 256
        then (Inr (), s\<lparr>ser_buf := ser_buf s @ [word_of_int data], ser_left := ls\<rparr>)
        else (Inl OverflowError, s\<lparr>ser_left := ls\<rparr>))"

definition ser_finalize :: "serializer \<Rightarrow> bytes" where
  "ser_finalize s = ser_buf s"

text \<open>\<^verbatim>\<open>serializer.with_max_bytes(n)\<close>: the wrapped serializer lives for one encoder call.\<close>

definition with_max_bytes :: "int \<Rightarrow> (serializer, 'a) sm \<Rightarrow> (serializer, 'a) sm" where
  "with_max_bytes n m s =
     (case m (s\<lparr>ser_left := n # ser_left s\<rparr>) of
        (r, s') \<Rightarrow> (r, s'\<lparr>ser_left := tl (ser_left s')\<rparr>))"

definition with_optional_max_bytes :: "int option \<Rightarrow> (serializer, 'a) sm \<Rightarrow> (serializer, 'a) sm" where
  "with_optional_max_bytes n m = (case n of None \<Rightarrow> m | Some n \<Rightarrow> with_max_bytes n m)"

definition de_is_empty :: "deserializer \<Rightarrow> bool" where
  "de_is_empty d = (de_view d = [])"

definition de_finalize :: "(deserializer, unit) sm" where
  "de_finalize d = (if de_is_empty d then Inr () else Inl ValueError, d)"

definition peek_byte :: "(deserializer, int) sm" where
  "peek_byte d = (case de_view d of [] \<Rightarrow> (Inl OutOfDataError, d) | b # _ \<Rightarrow> (Inr (uint b), d))"

definition peek_bytes :: "int \<Rightarrow> bool \<Rightarrow> (deserializer, bytes) sm" where
  "peek_bytes n exact d =
     (if n < 0 then (Inl ValueError, d)
      else if exact \<and> int (length (de_view d)) < n then (Inl OutOfDataError, d)
      else (Inr (take (nat n) (de_view d)), d))"

definition read_byte :: "(deserializer, int) sm" where
  "read_byte d =
     (case check_update_exceeds 1 (de_left d) of (ok, ls) \<Rightarrow>
        if \<not> ok then (Inl MaxBytesExceededError, d\<lparr>de_left := ls\<rparr>)
        else sbind peek_byte (\<lambda>b. sthen (smod (\<lambda>d. d\<lparr>de_view := tl (de_view d)\<rparr>)) (sret b))
               (d\<lparr>de_left := ls\<rparr>))"

definition read_bytes :: "int \<Rightarrow> bool \<Rightarrow> (deserializer, bytes) sm" where
  "read_bytes n exact d =
     (case check_update_exceeds n (de_left d) of (ok, ls) \<Rightarrow>
        if \<not> ok then (Inl MaxBytesExceededError, d\<lparr>de_left := ls\<rparr>)
        else sbind (peek_bytes n exact)
               (\<lambda>b. sthen (smod (\<lambda>d. d\<lparr>de_view := drop (nat n) (de_view d)\<rparr>)) (sret b))
               (d\<lparr>de_left := ls\<rparr>))"

text \<open>
  On a plain view, \<open>read_all\<close> returns everything; on an adapter it reads what its own counter
  still allows, through the inner adapters, and raises when something is left.
\<close>

definition read_all :: "(deserializer, bytes) sm" where
  "read_all d =
     (case de_left d of
        [] \<Rightarrow> (Inr (de_view d), d\<lparr>de_view := []\<rparr>)
      | l # ls \<Rightarrow>
          (case read_bytes l False (d\<lparr>de_left := ls\<rparr>) of (r, d') \<Rightarrow>
             (case r of Inl e \<Rightarrow> (Inl e, d'\<lparr>de_left := l # de_left d'\<rparr>)
              | Inr b \<Rightarrow> (if de_is_empty d' then Inr b else Inl MaxBytesExceededError,
                          d'\<lparr>de_left := l # de_left d'\<rparr>))))"

definition de_with_max_bytes :: "int \<Rightarrow> (deserializer, 'a) sm \<Rightarrow> (deserializer, 'a) sm" where
  "de_with_max_bytes n m d =
     (case m (d\<lparr>de_left := n # de_left d\<rparr>) of
        (r, d') \<Rightarrow> (r, d'\<lparr>de_left := tl (de_left d')\<rparr>))"

definition de_with_optional_max_bytes ::
    "int option \<Rightarrow> (deserializer, 'a) sm \<Rightarrow> (deserializer, 'a) sm" where
  "de_with_optional_max_bytes n m = (case n of None \<Rightarrow> m | Some n \<Rightarrow> de_with_max_bytes n m)"

section \<open>Simple encodings\<close>

subsection \<open>Booleans\<close>

definition encode_bool :: "bool \<Rightarrow> (serializer, unit) sm" where
  "encode_bool value = write_byte (if value then 1 else 0)"

definition decode_bool :: "(deserializer, bool) sm" where
  "decode_bool = sbind read_byte (\<lambda>i.
     if i = 0 then sret False
     else if i = 1 then sret True
     else sraise ValueError)"

subsection \<open>Fixed-size integers\<close>

text \<open>Python's \<open>int.to_bytes\<close> and \<open>int.from_bytes\<close>, big-endian.\<close>

primrec be_bytes :: "nat \<Rightarrow> int \<Rightarrow> bytes" where
  "be_bytes 0 v = []"
| "be_bytes (Suc n) v = be_bytes n (v div 256) @ [word_of_int v]"

definition be_value :: "bytes \<Rightarrow> int" where
  "be_value bs = foldl (\<lambda>a b. a * 256 + uint b) 0 bs"

definition int_fits :: "int \<Rightarrow> nat \<Rightarrow> bool \<Rightarrow> bool" where
  "int_fits number len sgd =
     (if len = 0 then number = 0
      else if sgd then - (2 ^ (8 * len - 1)) \<le> number \<and> number < 2 ^ (8 * len - 1)
      else 0 \<le> number \<and> number < 2 ^ (8 * len))"

definition int_to_bytes :: "int \<Rightarrow> nat \<Rightarrow> bool \<Rightarrow> exc + bytes" where
  "int_to_bytes number len sgd =
     (if int_fits number len sgd then Inr (be_bytes len number) else Inl OverflowError)"

definition int_from_bytes :: "bytes \<Rightarrow> bool \<Rightarrow> int" where
  "int_from_bytes bs sgd =
     (if sgd \<and> bs \<noteq> [] \<and> 128 \<le> uint (hd bs) then be_value bs - 2 ^ (8 * length bs)
      else be_value bs)"

definition encode_int :: "int \<Rightarrow> nat \<Rightarrow> bool \<Rightarrow> (serializer, unit) sm" where
  "encode_int number len sgd =
     (case int_to_bytes number len sgd of Inl _ \<Rightarrow> sraise ValueError | Inr data \<Rightarrow> write_bytes data)"

definition decode_int :: "nat \<Rightarrow> bool \<Rightarrow> (deserializer, int) sm" where
  "decode_int len sgd =
     sbind (read_bytes (int len) True) (\<lambda>data. sret (int_from_bytes data sgd))"

subsection \<open>LEB128\<close>

text \<open>The masks and shifts of the loop as arithmetic.\<close>

lemma and_127: "(x::int) AND 127 = x mod 128"
  using take_bit_eq_mask [of 7 x] by (simp add: take_bit_eq_mod mask_eq_exp_minus_1)

lemma and_64: "(x::int) AND 64 = 0 \<longleftrightarrow> even (x div 64)"
  using and_exp_eq_0_iff_not_bit [of x 6] by (simp add: bit_iff_odd)

lemma and_128: "(x::int) AND 128 = 0 \<longleftrightarrow> even (x div 128)"
  using and_exp_eq_0_iff_not_bit [of x 7] by (simp add: bit_iff_odd)

lemma drop_bit_7: "drop_bit 7 (x::int) = x div 128"
  by (simp add: drop_bit_eq_div)

lemmas leb128_bits = and_127 and_64 and_128 drop_bit_7

lemma sign_bit: "even ((v mod 128) div 64) \<longleftrightarrow> (v::int) mod 128 < 64"
proof -
  have "(v mod 128) div 64 = (if v mod 128 < 64 then 0 else 1)"
    using pos_mod_bound [of 128 v] by (auto simp: div_pos_pos_trivial int_div_pos_eq [of _ 64 1 "v mod 128 - 64"])
  then show ?thesis by simp
qed

lemma leb128_last_unsigned:
  "0 \<le> v \<Longrightarrow> (drop_bit 7 v = 0 \<and> (v AND 127) AND 128 = 0) \<longleftrightarrow> (v::int) < 128"
  by (auto simp: leb128_bits zdiv_eq_0_iff)

lemma leb128_last_signed:
  "((drop_bit 7 v = 0 \<and> (v AND 127) AND 64 = 0) \<or> (drop_bit 7 v = - 1 \<and> (v AND 127) AND 64 \<noteq> 0))
     \<longleftrightarrow> (- 64 \<le> v \<and> (v::int) < 64)"
  unfolding leb128_bits sign_bit
  using div_mult_mod_eq [of v 128] pos_mod_bound [of 128 v] pos_mod_sign [of 128 v] by linarith

lemma leb128_shrinks: "v < - 64 \<or> 64 \<le> v \<Longrightarrow> \<bar>v div 128\<bar> < \<bar>v::int\<bar>"
  by linarith

text \<open>
  The range check stands inside the loop so that the recursion is well-founded for every argument;
  since \<open>value >> 7\<close> of a non-negative number is non-negative it can fire in the first round only,
  where the source has it.
\<close>

function encode_leb128 :: "int \<Rightarrow> bool \<Rightarrow> (serializer, unit) sm" where
  "encode_leb128 value sgd =
     (if \<not> sgd \<and> value < 0 then sraise ValueError
      else let byte = value AND 127;
               value' = drop_bit 7 value;
               cont = (if sgd
                       then (value' = 0 \<and> byte AND 64 = 0) \<or> (value' = - 1 \<and> byte AND 64 \<noteq> 0)
                       else (value' = 0 \<and> byte AND 128 = 0))
           in if cont then write_byte byte
              else sthen (write_byte (byte OR 128)) (encode_leb128 value' sgd))"
  by pat_completeness auto

termination
proof (relation "measure (\<lambda>(v, sg). nat \<bar>v\<bar>)")
  fix v :: int and sgd byte v' cont
  assume nonneg: "\<not> (\<not> sgd \<and> v < 0)"
    and defs: "byte = v AND 127" "v' = drop_bit 7 v"
      "cont = (if sgd
               then (v' = 0 \<and> byte AND 64 = 0) \<or> (v' = - 1 \<and> byte AND 64 \<noteq> 0)
               else (v' = 0 \<and> byte AND 128 = 0))"
    and more: "\<not> cont"
  have "v < - 64 \<or> 64 \<le> v"
  proof (cases sgd)
    case True
    then have "\<not> (- 64 \<le> v \<and> v < 64)"
      using more leb128_last_signed [of v] unfolding defs by simp
    then show ?thesis by linarith
  next
    case False
    then have "\<not> v < 128"
      using more nonneg leb128_last_unsigned [of v] unfolding defs by auto
    then show ?thesis by linarith
  qed
  then have "\<bar>v div 128\<bar> < \<bar>v\<bar>"
    by (rule leb128_shrinks)
  then show "((v', sgd), (v, sgd)) \<in> measure (\<lambda>(v, sg). nat \<bar>v\<bar>)"
    by (simp add: defs drop_bit_7)
qed simp

declare encode_leb128.simps [simp del]

lemma read_byte_shorter:
  "read_byte d = (Inr b, d') \<Longrightarrow> length (de_view d') < length (de_view d)"
  by (auto simp: read_byte_def peek_byte_def sm_simps split: prod.splits if_splits list.splits sum.splits)

function decode_leb128_loop :: "bool \<Rightarrow> int \<Rightarrow> nat \<Rightarrow> (deserializer, int) sm" where
  "decode_leb128_loop sgd result shift d =
     (case read_byte d of
        (Inl e, d') \<Rightarrow> (Inl e, d')
      | (Inr byte, d') \<Rightarrow>
          (let result' = result OR push_bit shift (byte AND 127);
               shift' = shift + 7
           in if byte AND 128 = 0
              then (if sgd \<and> byte AND 64 \<noteq> 0 then (Inr (result' OR - push_bit shift' 1), d')
                    else (Inr result', d'))
              else decode_leb128_loop sgd result' shift' d'))"
  by pat_completeness auto

termination
  by (relation "measure (\<lambda>(sgd, result, shift, d). length (de_view d))") (auto dest!: read_byte_shorter [OF sym])

declare decode_leb128_loop.simps [simp del]

definition decode_leb128 :: "bool \<Rightarrow> (deserializer, int) sm" where
  "decode_leb128 sgd = decode_leb128_loop sgd 0 0"

subsection \<open>Output values\<close>

abbreviation MAX_OUTPUT_VALUE_32 :: int where "MAX_OUTPUT_VALUE_32 \<equiv> 2 ^ 31 - 1"
abbreviation MAX_OUTPUT_VALUE_64 :: int where "MAX_OUTPUT_VALUE_64 \<equiv> 2 ^ 63"

definition encode_output_value :: "int \<Rightarrow> bool \<Rightarrow> (serializer, unit) sm" where
  "encode_output_value number strict =
     (if number < 0 then sraise ValueError
      else if strict \<and> number = 0 then sraise ValueError
      else if number > MAX_OUTPUT_VALUE_64 then sraise ValueError
      else if number > MAX_OUTPUT_VALUE_32
      then (case int_to_bytes (- number) 8 True of Inl e \<Rightarrow> sraise e | Inr data \<Rightarrow> write_bytes data)
      else (case int_to_bytes number 4 True of Inl e \<Rightarrow> sraise e | Inr data \<Rightarrow> write_bytes data))"

text \<open>
  \<^verbatim>\<open>except struct.error\<close> catches \<open>OutOfDataError\<close>, its subclass, and turns it into
  \<open>BadDataError\<close>; the \<open>peek\<close> of the first byte stands outside the \<open>try\<close>.
\<close>

definition catch_struct_error :: "('s, 'a) sm \<Rightarrow> ('s, 'a) sm" where
  "catch_struct_error m s =
     (case m s of (Inl e, s') \<Rightarrow> (Inl (if e = OutOfDataError then BadDataError else e), s')
      | (Inr x, s') \<Rightarrow> (Inr x, s'))"

definition decode_output_value :: "bool \<Rightarrow> (deserializer, int) sm" where
  "decode_output_value strict =
     sbind (sbind (peek_bytes 1 True) (\<lambda>b. sret (int_from_bytes b True))) (\<lambda>value_high_byte.
     sbind (catch_struct_error
              (if value_high_byte < 0
               then sbind (read_bytes 8 True) (\<lambda>b. sret (- int_from_bytes b True))
               else sbind (read_bytes 4 True) (\<lambda>b. sret (int_from_bytes b True)))) (\<lambda>v.
     sthen (sassert (v \<ge> 0)) (
     if strict \<and> v = 0 then sraise ValueError
     else if v < MAX_OUTPUT_VALUE_32 \<and> value_high_byte < 0 then sraise ValueError
     else sret v)))"

subsection \<open>Length-prefixed bytes and UTF-8 strings\<close>

definition encode_bytes :: "bytes \<Rightarrow> (serializer, unit) sm" where
  "encode_bytes data = sthen (encode_leb128 (int (length data)) False) (write_bytes data)"

definition decode_bytes :: "(deserializer, bytes) sm" where
  "decode_bytes = sbind (decode_leb128 False) (\<lambda>size. read_bytes size True)"

text \<open>
  Python's UTF-8 codec. Surrogates cannot be encoded, and the decoder refuses overlong forms,
  surrogates, stray continuation bytes and code points above 0x10FFFF; both errors are subclasses of
  \<open>ValueError\<close>.
\<close>

definition utf8_encode_char :: "nat \<Rightarrow> exc + bytes" where
  "utf8_encode_char c =
     (if c < 128 then Inr [of_nat c]
      else if c < 2048 then Inr [of_nat (192 + c div 64), of_nat (128 + c mod 64)]
      else if c < 65536 then
        (if 55296 \<le> c \<and> c < 57344 then Inl ValueError
         else Inr [of_nat (224 + c div 4096), of_nat (128 + c div 64 mod 64), of_nat (128 + c mod 64)])
      else if c < 1114112 then
        Inr [of_nat (240 + c div 262144), of_nat (128 + c div 4096 mod 64),
             of_nat (128 + c div 64 mod 64), of_nat (128 + c mod 64)]
      else Inl ValueError)"

fun utf8_encode :: "ustring \<Rightarrow> exc + bytes" where
  "utf8_encode [] = Inr []"
| "utf8_encode (c # cs) =
     (case utf8_encode_char c of Inl e \<Rightarrow> Inl e
      | Inr b \<Rightarrow> (case utf8_encode cs of Inl e \<Rightarrow> Inl e | Inr bs \<Rightarrow> Inr (b @ bs)))"

definition utf8_continuation :: "byte \<Rightarrow> bool" where
  "utf8_continuation b \<longleftrightarrow> 128 \<le> unat b \<and> unat b < 192"

definition utf8_cons :: "nat \<Rightarrow> exc + ustring \<Rightarrow> exc + ustring" where
  "utf8_cons c r = (case r of Inl e \<Rightarrow> Inl e | Inr cs \<Rightarrow> Inr (c # cs))"

fun utf8_decode :: "bytes \<Rightarrow> exc + ustring" where
  "utf8_decode [] = Inr []"
| "utf8_decode (b # bs) =
     (if unat b < 128 then utf8_cons (unat b) (utf8_decode bs)
      else if unat b < 192 then Inl ValueError
      else if unat b < 224 then
        (case bs of
           c1 # r \<Rightarrow>
             (let c = (unat b - 192) * 64 + (unat c1 - 128)
              in if utf8_continuation c1 \<and> 128 \<le> c then utf8_cons c (utf8_decode r)
                 else Inl ValueError)
         | _ \<Rightarrow> Inl ValueError)
      else if unat b < 240 then
        (case bs of
           c1 # c2 # r \<Rightarrow>
             (let c = (unat b - 224) * 4096 + (unat c1 - 128) * 64 + (unat c2 - 128)
              in if utf8_continuation c1 \<and> utf8_continuation c2 \<and> 2048 \<le> c \<and>
                    \<not> (55296 \<le> c \<and> c < 57344)
                 then utf8_cons c (utf8_decode r) else Inl ValueError)
         | _ \<Rightarrow> Inl ValueError)
      else if unat b < 248 then
        (case bs of
           c1 # c2 # c3 # r \<Rightarrow>
             (let c = (unat b - 240) * 262144 + (unat c1 - 128) * 4096 + (unat c2 - 128) * 64 +
                      (unat c3 - 128)
              in if utf8_continuation c1 \<and> utf8_continuation c2 \<and> utf8_continuation c3 \<and>
                    65536 \<le> c \<and> c < 1114112
                 then utf8_cons c (utf8_decode r) else Inl ValueError)
         | _ \<Rightarrow> Inl ValueError)
      else Inl ValueError)"

definition encode_utf8 :: "ustring \<Rightarrow> (serializer, unit) sm" where
  "encode_utf8 v = (case utf8_encode v of Inl e \<Rightarrow> sraise e | Inr data \<Rightarrow> encode_bytes data)"

definition decode_utf8 :: "(deserializer, ustring) sm" where
  "decode_utf8 = sbind decode_bytes (\<lambda>data.
     case utf8_decode data of Inl e \<Rightarrow> sraise e | Inr s \<Rightarrow> sret s)"

section \<open>Compound encodings\<close>

definition encode_optional :: "'a option \<Rightarrow> ('a \<Rightarrow> (serializer, unit) sm) \<Rightarrow> (serializer, unit) sm" where
  "encode_optional v encoder =
     (case v of None \<Rightarrow> encode_bool False | Some x \<Rightarrow> sthen (encode_bool True) (encoder x))"

definition decode_optional :: "(deserializer, 'a) sm \<Rightarrow> (deserializer, 'a option) sm" where
  "decode_optional decoder =
     sbind decode_bool (\<lambda>has_value.
       if has_value then sbind decoder (\<lambda>x. sret (Some x)) else sret None)"

definition encode_collection :: "'a list \<Rightarrow> ('a \<Rightarrow> (serializer, unit) sm) \<Rightarrow> (serializer, unit) sm" where
  "encode_collection vs encoder =
     sthen (encode_leb128 (int (length vs)) False) (sfor vs encoder)"

definition decode_collection ::
    "(deserializer, 'a) sm \<Rightarrow> ('a list \<Rightarrow> 'r) \<Rightarrow> (deserializer, 'r) sm" where
  "decode_collection decoder builder =
     sbind (decode_leb128 False) (\<lambda>len.
     sbind (srepeat (nat len) decoder) (\<lambda>xs. sret (builder xs)))"

definition encode_mapping ::
    "('k \<times> 'v) list \<Rightarrow> ('k \<Rightarrow> (serializer, unit) sm) \<Rightarrow> ('v \<Rightarrow> (serializer, unit) sm) \<Rightarrow>
     (serializer, unit) sm" where
  "encode_mapping items key_encoder value_encoder =
     sthen (encode_leb128 (int (length items)) False)
       (sfor items (\<lambda>(k, v). sthen (key_encoder k) (value_encoder v)))"

definition decode_mapping ::
    "(deserializer, 'k) sm \<Rightarrow> (deserializer, 'v) sm \<Rightarrow> (('k \<times> 'v) list \<Rightarrow> 'r) \<Rightarrow>
     (deserializer, 'r) sm" where
  "decode_mapping key_decoder value_decoder mapping_builder =
     sbind (decode_leb128 False) (\<lambda>size.
     sbind (srepeat (nat size)
              (sbind key_decoder (\<lambda>k. sbind value_decoder (\<lambda>v. sret (k, v)))))
       (\<lambda>items. sret (mapping_builder items)))"

text \<open>The components of a tuple live in one type, that of the values of the language.\<close>

definition encode_tuple :: "'a list \<Rightarrow> ('a \<Rightarrow> (serializer, unit) sm) list \<Rightarrow> (serializer, unit) sm" where
  "encode_tuple vs encoders =
     sthen (sassert (length vs = length encoders))
       (sfor (zip vs encoders) (\<lambda>(v, encoder). encoder v))"

primrec decode_tuple :: "(deserializer, 'a) sm list \<Rightarrow> (deserializer, 'a list) sm" where
  "decode_tuple [] = sret []"
| "decode_tuple (decoder # decoders) =
     sbind decoder (\<lambda>x. sbind (decode_tuple decoders) (\<lambda>xs. sret (x # xs)))"

text \<open>\<open>SignedData\<close>: the data and the script input that signs it.\<close>

definition encode_signed_data :: "'a \<times> bytes \<Rightarrow> ('a \<Rightarrow> (serializer, unit) sm) \<Rightarrow> (serializer, unit) sm" where
  "encode_signed_data v encoder = sthen (encoder (fst v)) (encode_bytes (snd v))"

definition decode_signed_data :: "(deserializer, 'a) sm \<Rightarrow> (deserializer, 'a \<times> bytes) sm" where
  "decode_signed_data decoder =
     sbind decoder (\<lambda>data. sbind decode_bytes (\<lambda>script_input. sret (data, script_input)))"

text \<open>
  A caller id is an address (25 bytes) or a contract id (32 bytes), behind a boolean tag.
\<close>

datatype caller_id = Address bytes | ContractId bytes

abbreviation ADDRESS_LEN_BYTES :: nat where "ADDRESS_LEN_BYTES \<equiv> 25"
abbreviation TX_HASH_SIZE :: nat where "TX_HASH_SIZE \<equiv> 32"

definition encode_caller_id :: "caller_id \<Rightarrow> (serializer, unit) sm" where
  "encode_caller_id v =
     (case v of
        Address a \<Rightarrow>
          sthen (sassert (length a = ADDRESS_LEN_BYTES)) (sthen (encode_bool False) (write_bytes a))
      | ContractId c \<Rightarrow>
          sthen (sassert (length c = TX_HASH_SIZE)) (sthen (encode_bool True) (write_bytes c)))"

definition decode_caller_id :: "(deserializer, caller_id) sm" where
  "decode_caller_id =
     sbind decode_bool (\<lambda>is_contract.
       if is_contract then sbind (read_bytes (int TX_HASH_SIZE) True) (\<lambda>data. sret (ContractId data))
       else sbind (read_bytes (int ADDRESS_LEN_BYTES) True) (\<lambda>data. sret (Address data)))"

subsection \<open>The helpers of \<^verbatim>\<open>hathor/utils/leb128.py\<close>\<close>

text \<open>
  Both errors that an encoder can raise here (\<open>MaxBytesExceededError\<close> and the other
  \<open>SerializationError\<close>s) are re-raised as \<open>ValueError\<close>.
\<close>

definition is_serialization_error :: "exc \<Rightarrow> bool" where
  "is_serialization_error e \<longleftrightarrow>
     e \<in> {SerializationError, TooLongError, OutOfDataError, BadDataError, MaxBytesExceededError}"

definition leb128_error :: "exc \<Rightarrow> exc" where
  "leb128_error e = (if is_serialization_error e then ValueError else e)"

definition leb128_encode :: "bool \<Rightarrow> int \<Rightarrow> nat option \<Rightarrow> exc + bytes" where
  "leb128_encode sgd v max_bytes =
     (case with_optional_max_bytes (map_option int max_bytes) (encode_leb128 v sgd) build_bytes_serializer of
        (Inl e, _) \<Rightarrow> Inl (leb128_error e)
      | (Inr _, s) \<Rightarrow> Inr (ser_finalize s))"

definition encode_signed :: "int \<Rightarrow> nat option \<Rightarrow> exc + bytes" where
  "encode_signed v max_bytes = leb128_encode True v max_bytes"

definition encode_unsigned :: "int \<Rightarrow> nat option \<Rightarrow> exc + bytes" where
  "encode_unsigned v max_bytes = leb128_encode False v max_bytes"

definition leb128_decode :: "bool \<Rightarrow> bytes \<Rightarrow> nat option \<Rightarrow> exc + (int \<times> bytes)" where
  "leb128_decode sgd data max_bytes =
     (case de_with_optional_max_bytes (map_option int max_bytes) (decode_leb128 sgd) (build_bytes_deserializer data) of
        (Inl e, _) \<Rightarrow> Inl (leb128_error e)
      | (Inr v, d) \<Rightarrow>
          (case sbind read_all (\<lambda>rest. sthen de_finalize (sret rest)) d of
             (Inl e, _) \<Rightarrow> Inl e
           | (Inr rest, _) \<Rightarrow> Inr (v, rest)))"

definition decode_signed :: "bytes \<Rightarrow> nat option \<Rightarrow> exc + (int \<times> bytes)" where
  "decode_signed data max_bytes = leb128_decode True data max_bytes"

definition decode_unsigned :: "bytes \<Rightarrow> nat option \<Rightarrow> exc + (int \<times> bytes)" where
  "decode_unsigned data max_bytes = leb128_decode False data max_bytes"

end
