(* ===== verification/NC_Codec.thy ===== *)
theory NC_Codec
  imports NC_Serialization
begin

unbundle bit_operations_syntax

text \<open>
  The law every encoder/decoder pair obeys, as the locale \<open>codec\<close>, its interpretations on the
  encodings of \<open>NC_Serialization\<close>, and the size of LEB128 encodings.
\<close>

section \<open>What the adapters count\<close>

lemma check_update_exceeds_ok [simp]:
  "\<forall>l \<in> set ls. n \<le> l \<Longrightarrow> check_update_exceeds n ls = (True, map (\<lambda>l. l - n) ls)"
  by (induction ls) auto

lemma check_update_exceeds_not_ok:
  "\<not> (\<forall>l \<in> set ls. n \<le> l) \<Longrightarrow> \<exists>ls'. check_update_exceeds n ls = (False, ls')"
proof (induction ls)
  case (Cons l ls)
  then show ?case by (cases "n \<le> l") auto
qed simp

text \<open>The serializer after \<open>bs\<close> has been written to it, and the budget that allows it.\<close>

definition wrote :: "serializer \<Rightarrow> bytes \<Rightarrow> serializer" where
  "wrote s bs = s\<lparr>ser_buf := ser_buf s @ bs, ser_left := map (\<lambda>l. l - int (length bs)) (ser_left s)\<rparr>"

definition room :: "int list \<Rightarrow> nat \<Rightarrow> bool" where
  "room ls n \<longleftrightarrow> (\<forall>l \<in> set ls. int n \<le> l)"

lemma room_mono: "room ls n \<Longrightarrow> m \<le> n \<Longrightarrow> room ls m"
  by (force simp: room_def)

lemma room_after: "room (map (\<lambda>l. l - int m) ls) n \<longleftrightarrow> room ls (m + n)"
  by (auto simp: room_def)

lemma room_wrote [simp]: "room (ser_left (wrote s bs)) n \<longleftrightarrow> room (ser_left s) (length bs + n)"
  by (simp add: wrote_def room_after)

lemma wrote_append: "wrote (wrote s as) bs = wrote s (as @ bs)"
  by (simp add: wrote_def comp_def algebra_simps)

lemma wrote_inject [simp]: "wrote s as = wrote s bs \<longleftrightarrow> as = bs"
proof
  assume "wrote s as = wrote s bs"
  then have "ser_buf (wrote s as) = ser_buf (wrote s bs)" by simp
  then show "as = bs" by (simp add: wrote_def)
qed simp

lemma ser_left_wrote: "ser_left (wrote s bs) = map (\<lambda>l. l - int (length bs)) (ser_left s)"
  by (simp add: wrote_def)

lemma write_bytes_room:
  "write_bytes bs s =
     (if room (ser_left s) (length bs) then (Inr (), wrote s bs)
      else (Inl MaxBytesExceededError, snd (write_bytes bs s)))"
proof (cases "room (ser_left s) (length bs)")
  case True
  then show ?thesis by (simp add: write_bytes_def room_def wrote_def)
next
  case False
  then obtain ls' where "check_update_exceeds (int (length bs)) (ser_left s) = (False, ls')"
    using check_update_exceeds_not_ok [of "ser_left s" "int (length bs)"] by (auto simp: room_def)
  with False show ?thesis by (simp add: write_bytes_def)
qed

lemma write_bytes_Inr [simp]:
  "write_bytes bs s = (Inr u, s') \<longleftrightarrow> room (ser_left s) (length bs) \<and> s' = wrote s bs"
  by (subst write_bytes_room) auto

lemma write_bytes_ok: "room (ser_left s) (length bs) \<Longrightarrow> write_bytes bs s = (Inr (), wrote s bs)"
  by simp

lemma write_byte_eq: "0 \<le> b \<Longrightarrow> b < 256 \<Longrightarrow> write_byte b = write_bytes [word_of_int b]"
  by (auto simp: fun_eq_iff write_byte_def write_bytes_def split: prod.splits)

lemma read_bytes_room:
  assumes "room ls (length bs)"
  shows "read_bytes (int (length bs)) True \<lparr>de_view = bs @ rest, de_left = ls\<rparr>
         = (Inr bs, \<lparr>de_view = rest, de_left = map (\<lambda>l. l - int (length bs)) ls\<rparr>)"
  using assms by (simp add: read_bytes_def peek_bytes_def room_def sm_simps)

lemma read_byte_room:
  assumes "room ls 1"
  shows "read_byte \<lparr>de_view = b # rest, de_left = ls\<rparr>
         = (Inr (uint b), \<lparr>de_view = rest, de_left = map (\<lambda>l. l - 1) ls\<rparr>)"
  using assms by (simp add: read_byte_def peek_byte_def room_def sm_simps)

section \<open>The codec law\<close>

text \<open>
  \<open>reads_back dec v s s'\<close>: the bytes by which \<open>s'\<close> extends \<open>s\<close>, followed by anything, are read by
  \<open>dec\<close> as \<open>v\<close>, under the same adapters, and the adapters end with the same budgets.
\<close>

definition reads_back :: "(deserializer, 'a) sm \<Rightarrow> 'a \<Rightarrow> serializer \<Rightarrow> serializer \<Rightarrow> bool" where
  "reads_back dec v s s' \<longleftrightarrow>
     (\<exists>bs. s' = wrote s bs \<and>
       (\<forall>rest. dec \<lparr>de_view = bs @ rest, de_left = ser_left s\<rparr>
               = (Inr v, \<lparr>de_view = rest, de_left = ser_left s'\<rparr>)))"

locale codec =
  fixes enc :: "'a \<Rightarrow> (serializer, unit) sm"
    and dec :: "(deserializer, 'a) sm"
    and ok :: "'a \<Rightarrow> bool"
  assumes round_trip: "ok v \<Longrightarrow> enc v s = (Inr u, s') \<Longrightarrow> reads_back dec v s s'"

text \<open>Reading back composes along \<open>sbind\<close>.\<close>

lemma reads_back_sret [intro]: "reads_back (sret v) v s s"
  by (auto simp: reads_back_def wrote_def room_def sm_simps intro!: exI [of _ "[]"])

lemma reads_back_sbind:
  assumes "reads_back dec1 x s t" and "reads_back (f x) y t u"
  shows "reads_back (sbind dec1 f) y s u"
proof -
  obtain as where as: "t = wrote s as"
      "\<And>rest. dec1 \<lparr>de_view = as @ rest, de_left = ser_left s\<rparr>
              = (Inr x, \<lparr>de_view = rest, de_left = ser_left t\<rparr>)"
    using assms(1) unfolding reads_back_def by blast
  obtain bs where bs: "u = wrote t bs"
      "\<And>rest. f x \<lparr>de_view = bs @ rest, de_left = ser_left t\<rparr>
              = (Inr y, \<lparr>de_view = rest, de_left = ser_left u\<rparr>)"
    using assms(2) unfolding reads_back_def by blast
  have "u = wrote s (as @ bs)"
    by (simp add: as(1) bs(1) wrote_append)
  moreover have "sbind dec1 f \<lparr>de_view = (as @ bs) @ rest, de_left = ser_left s\<rparr>
                 = (Inr y, \<lparr>de_view = rest, de_left = ser_left u\<rparr>)" for rest
    using as(2) [of "bs @ rest"] bs(2) [of rest] by (simp add: sm_simps)
  ultimately show ?thesis unfolding reads_back_def by blast
qed

lemma reads_back_map:
  assumes "reads_back dec x s t"
  shows "reads_back (sbind dec (\<lambda>x. sret (f x))) (f x) s t"
  using assms reads_back_sret by (rule reads_back_sbind)

lemma reads_back_max_bytes:
  assumes "reads_back dec v (s\<lparr>ser_left := n # ser_left s\<rparr>) t"
  shows "reads_back (de_with_max_bytes n dec) v s (t\<lparr>ser_left := tl (ser_left t)\<rparr>)"
proof -
  obtain bs where t: "t = wrote (s\<lparr>ser_left := n # ser_left s\<rparr>) bs"
      and dec: "\<And>rest. dec \<lparr>de_view = bs @ rest, de_left = n # ser_left s\<rparr>
                = (Inr v, \<lparr>de_view = rest, de_left = ser_left t\<rparr>)"
    using assms unfolding reads_back_def by auto
  have "t\<lparr>ser_left := tl (ser_left t)\<rparr> = wrote s bs"
    by (simp add: t wrote_def)
  moreover have "de_with_max_bytes n dec \<lparr>de_view = bs @ rest, de_left = ser_left s\<rparr>
                 = (Inr v, \<lparr>de_view = rest, de_left = ser_left (wrote s bs)\<rparr>)" for rest
    by (simp add: de_with_max_bytes_def dec t wrote_def)
  ultimately show ?thesis unfolding reads_back_def by (intro exI [of _ bs]) simp
qed

lemma reads_back_read_bytes:
  assumes "room (ser_left s) (length bs)"
  shows "reads_back (read_bytes (int (length bs)) True) bs s (wrote s bs)"
  unfolding reads_back_def using assms
  by (auto simp: read_bytes_room ser_left_wrote)

text \<open>The buffer as seen from its front.\<close>

lemma reads_back_front:
  assumes "reads_back dec v build_bytes_serializer s'"
  shows "dec (build_bytes_deserializer (ser_finalize s' @ rest)) = (Inr v, build_bytes_deserializer rest)"
proof -
  obtain bs where s': "s' = wrote build_bytes_serializer bs"
      and dec: "dec \<lparr>de_view = bs @ rest, de_left = ser_left build_bytes_serializer\<rparr>
                = (Inr v, \<lparr>de_view = rest, de_left = ser_left s'\<rparr>)"
    using assms unfolding reads_back_def by blast
  have "ser_finalize s' = bs" "ser_left s' = []"
    by (simp_all add: s' wrote_def ser_finalize_def build_bytes_serializer_def)
  with dec show ?thesis
    by (simp add: build_bytes_deserializer_def build_bytes_serializer_def)
qed

lemma reads_back_extends:
  "reads_back dec v s s' \<Longrightarrow> \<exists>bs. ser_finalize s' = ser_finalize s @ bs"
  by (auto simp: reads_back_def wrote_def ser_finalize_def)

context codec
begin

text \<open>Any codec may be run under a byte limit, on both sides.\<close>

lemma max_bytes_round_trip:
  assumes "ok v" and "with_max_bytes n (enc v) s = (Inr u, s')"
  shows "reads_back (de_with_max_bytes n dec) v s s'"
proof -
  obtain t where t: "enc v (s\<lparr>ser_left := n # ser_left s\<rparr>) = (Inr u, t)"
      and s': "s' = t\<lparr>ser_left := tl (ser_left t)\<rparr>"
    using assms(2) by (auto simp: with_max_bytes_def split: prod.splits)
  show ?thesis
    unfolding s' by (rule reads_back_max_bytes) (rule round_trip [OF assms(1) t])
qed

lemma optional_round_trip_Some:
  assumes "ok v" and "sthen (enc v) m s = (Inr u, s')"
  obtains t where "reads_back dec v s t" and "m t = (Inr u, s')"
  using assms round_trip by (auto simp: sthen_Inr)

lemma sfor_round_trip:
  assumes "\<forall>v \<in> set vs. ok v" and "sfor vs enc s = (Inr u, s')"
  shows "reads_back (srepeat (length vs) dec) vs s s'"
  using assms
proof (induction vs arbitrary: s)
  case Nil
  then show ?case by auto
next
  case (Cons v vs)
  then obtain u' t where "enc v s = (Inr u', t)" and rest: "sfor vs enc t = (Inr u, s')"
    by (auto simp: sthen_Inr)
  then have "reads_back dec v s t"
    using Cons.prems(1) round_trip by simp
  moreover have "reads_back (srepeat (length vs) dec) vs t s'"
    using Cons.IH Cons.prems(1) rest by simp
  ultimately show ?case
    by (auto intro!: reads_back_sbind)
qed

text \<open>A whole buffer: what \<open>to_bytes\<close> produces, \<open>from_bytes\<close> reads, consuming all of it.\<close>

lemma to_bytes_from_bytes:
  assumes "ok v" and "enc v build_bytes_serializer = (Inr u, s')"
  shows "sbind dec (\<lambda>x. sthen de_finalize (sret x)) (build_bytes_deserializer (ser_finalize s'))
         = (Inr v, build_bytes_deserializer [])"
  using reads_back_front [OF round_trip [OF assms], of "[]"]
  by (simp add: sm_simps de_finalize_def de_is_empty_def build_bytes_deserializer_def)

end


section \<open>LEB128\<close>

text \<open>
  The reference encoding: the base-128 digits of the number, least significant first, every digit but
  the last with the continuation bit. An unsigned number ends with the digit that leaves 0, a signed
  one with the first digit whose bit 6 repeats the sign.
\<close>

definition leb128_last :: "bool \<Rightarrow> int \<Rightarrow> bool" where
  "leb128_last sgd v \<longleftrightarrow> (if sgd then - 64 \<le> v \<and> v < 64 else v < 128)"

function leb128_ref :: "bool \<Rightarrow> int \<Rightarrow> bytes" where
  "leb128_ref sgd v =
     (if leb128_last sgd v then [word_of_int (v mod 128)]
      else word_of_int (v mod 128 + 128) # leb128_ref sgd (v div 128))"
  by pat_completeness auto
termination
  by (relation "measure (\<lambda>(sgd, v). nat \<bar>v\<bar>)")
     (auto simp: leb128_last_def split: if_splits intro!: leb128_shrinks)

declare leb128_ref.simps [simp del]

lemma or_128: "0 \<le> b \<Longrightarrow> b < 128 \<Longrightarrow> b OR 128 = b + (128::int)"
proof -
  assume "0 \<le> b" "b < 128"
  then have "take_bit 7 b = b"
    by (simp add: take_bit_int_eq_self)
  then have "b AND 128 = 0"
    using \<open>0 \<le> b\<close> \<open>b < 128\<close> by (simp add: and_128)
  then show ?thesis
    using plus_and_or [of b 128] by simp
qed

lemma encode_leb128_unfold:
  assumes "sgd \<or> 0 \<le> v"
  shows "encode_leb128 v sgd =
     (if leb128_last sgd v then write_bytes [word_of_int (v mod 128)]
      else sthen (write_bytes [word_of_int (v mod 128 + 128)]) (encode_leb128 (v div 128) sgd))"
proof -
  have digit: "0 \<le> v mod 128" "v mod 128 < 128" by simp_all
  have last: "(if sgd then (drop_bit 7 v = 0 \<and> (v AND 127) AND 64 = 0) \<or>
                          (drop_bit 7 v = - 1 \<and> (v AND 127) AND 64 \<noteq> 0)
               else (drop_bit 7 v = 0 \<and> (v AND 127) AND 128 = 0)) = leb128_last sgd v"
    using assms leb128_last_signed [of v] leb128_last_unsigned [of v]
    by (cases sgd) (simp_all add: leb128_last_def)
  have wr: "write_byte (v AND 127) = write_bytes [word_of_int (v mod 128)]"
      "write_byte ((v AND 127) OR 128) = write_bytes [word_of_int (v mod 128 + 128)]"
    using digit by (simp_all add: and_127 or_128 write_byte_eq)
  have range: "\<not> (\<not> sgd \<and> v < 0)"
    using assms by auto
  show ?thesis
    unfolding encode_leb128.simps [of v sgd] Let_def if_not_P [OF range] last wr
    by (simp only: drop_bit_7)
qed


lemma leb128_next_range: "sgd \<or> 0 \<le> v \<Longrightarrow> sgd \<or> 0 \<le> v div (128::int)"
  by (auto simp: pos_imp_zdiv_nonneg_iff)

text \<open>
  The loop writes the reference encoding when the adapters have room for it, and raises
  \<open>MaxBytesExceededError\<close> otherwise.
\<close>

lemma encode_leb128_ref:
  assumes "sgd \<or> 0 \<le> v"
  shows "if room (ser_left s) (length (leb128_ref sgd v))
         then encode_leb128 v sgd s = (Inr (), wrote s (leb128_ref sgd v))
         else \<exists>s'. encode_leb128 v sgd s = (Inl MaxBytesExceededError, s')"
  using assms
proof (induction sgd v arbitrary: s rule: leb128_ref.induct)
  case (1 sgd v)
  note enc = encode_leb128_unfold [OF "1.prems"]
  show ?case
  proof (cases "leb128_last sgd v")
    case True
    then show ?thesis
      using write_bytes_room [of "[word_of_int (v mod 128)]" s]
      by (auto simp: enc leb128_ref.simps [of sgd v])
  next
    case False
    define b :: bytes where "b = [word_of_int (v mod 128 + 128)]"
    have ref: "leb128_ref sgd v = b @ leb128_ref sgd (v div 128)"
      using False by (simp add: leb128_ref.simps [of sgd v] b_def)
    have enc': "encode_leb128 v sgd = sthen (write_bytes b) (encode_leb128 (v div 128) sgd)"
      using False by (simp add: enc b_def)
    have IH: "if room (ser_left (wrote s b)) (length (leb128_ref sgd (v div 128)))
         then encode_leb128 (v div 128) sgd (wrote s b) = (Inr (), wrote (wrote s b) (leb128_ref sgd (v div 128)))
         else \<exists>s'. encode_leb128 (v div 128) sgd (wrote s b) = (Inl MaxBytesExceededError, s')"
      using "1.IH" [OF False leb128_next_range [OF "1.prems"]] .
    show ?thesis
    proof (cases "room (ser_left s) (length b)")
      case True
      then have "encode_leb128 v sgd s = encode_leb128 (v div 128) sgd (wrote s b)"
        by (simp add: enc' sm_simps write_bytes_ok)
      then show ?thesis
        using IH unfolding ref wrote_append by (simp add: room_wrote)
    next
      case no: False
      then have "\<not> room (ser_left s) (length (leb128_ref sgd v))"
        using room_mono unfolding ref by fastforce
      moreover have "\<exists>s'. encode_leb128 v sgd s = (Inl MaxBytesExceededError, s')"
        using no write_bytes_room [of b s] by (cases "write_bytes b s") (auto simp: enc' sm_simps)
      ultimately show ?thesis by simp
    qed
  qed
qed

text \<open>How long it is: \<open>n\<close> bytes hold \<open>7 * n\<close> bits, one of them the sign when signed.\<close>

definition leb128_fits :: "bool \<Rightarrow> int \<Rightarrow> nat \<Rightarrow> bool" where
  "leb128_fits sgd v n \<longleftrightarrow>
     n \<noteq> 0 \<and> (if sgd then - (64 * 128 ^ (n - 1)) \<le> v \<and> v < 64 * 128 ^ (n - 1) else v < 128 ^ n)"

lemma length_leb128_ref:
  assumes "sgd \<or> 0 \<le> v"
  shows "length (leb128_ref sgd v) \<le> n \<longleftrightarrow> leb128_fits sgd v n"
  using assms
proof (induction sgd v arbitrary: n rule: leb128_ref.induct)
  case (1 sgd v)
  show ?case
  proof (cases "leb128_last sgd v")
    case True
    show ?thesis
    proof (cases n)
      case (Suc m)
      obtain p :: int where p: "128 ^ m = p" "1 \<le> p" by fastforce
      with True Suc show ?thesis
        by (auto simp: leb128_ref.simps [of sgd v] leb128_fits_def leb128_last_def split: if_splits)
    qed (use True in \<open>simp add: leb128_ref.simps [of sgd v] leb128_fits_def\<close>)
  next
    case False
    then have len: "length (leb128_ref sgd v) = Suc (length (leb128_ref sgd (v div 128)))"
      by (simp add: leb128_ref.simps [of sgd v])
    have IH: "length (leb128_ref sgd (v div 128)) \<le> n - 1 \<longleftrightarrow> leb128_fits sgd (v div 128) (n - 1)"
      using "1.IH" [OF False leb128_next_range [OF "1.prems"]] .
    have step: "leb128_fits sgd v n \<longleftrightarrow> n \<noteq> 0 \<and> leb128_fits sgd (v div 128) (n - 1)"
    proof (cases "n - 1")
      case 0
      then show ?thesis
        using False by (cases n) (auto simp: leb128_fits_def leb128_last_def split: if_splits)
    next
      case (Suc m)
      then have n: "n = Suc (Suc m)" by simp
      have "v div 128 < c \<longleftrightarrow> v < 128 * c" and "- c \<le> v div 128 \<longleftrightarrow> - (128 * c) \<le> v" for c
        by linarith+
      then show ?thesis
        by (auto simp: leb128_fits_def n)
    qed
    show ?thesis
      unfolding len step using IH by (cases n) auto
  qed
qed


subsection \<open>Reading LEB128\<close>

lemma or_push_bit: "0 \<le> a \<Longrightarrow> a < 2 ^ n \<Longrightarrow> a OR push_bit n b = a + b * 2 ^ n" for a b :: int
proof -
  assume "0 \<le> a" "a < 2 ^ n"
  then have a: "take_bit n a = a" by (simp add: take_bit_int_eq_self)
  have "take_bit n a AND push_bit n b = 0"
    by (rule bit_eqI) (auto simp: bit_simps)
  then show ?thesis
    using plus_and_or [of a "push_bit n b"] by (simp add: a push_bit_eq_mult)
qed

lemma or_minus_push_bit: "0 \<le> a \<Longrightarrow> a < 2 ^ n \<Longrightarrow> a OR - push_bit n 1 = a - 2 ^ n" for a :: int
  using or_push_bit [of a n "- 1"] by (simp add: push_bit_minus)

lemma digit_range:
  assumes "0 \<le> r" and "r < 2 ^ n" and "0 \<le> b" and "b < (128::int)"
  shows "0 \<le> r + b * 2 ^ n" and "r + b * 2 ^ n < 2 ^ (n + 7)"
proof -
  obtain p :: int where p: "p = 2 ^ n" by simp
  have "b * p \<le> 127 * p" using assms p by (intro mult_right_mono) auto
  then show "r + b * 2 ^ n < 2 ^ (n + 7)" using assms(2) unfolding power_add p [symmetric] by simp
  show "0 \<le> r + b * 2 ^ n" using assms by simp
qed

lemma uint_byte: "0 \<le> x \<Longrightarrow> x < 256 \<Longrightarrow> uint (word_of_int x :: byte) = x"
  by (simp add: uint_word_of_int)

lemma decode_leb128_loop_ref:
  assumes "sgd \<or> 0 \<le> v" and "0 \<le> r" and "r < 2 ^ n"
    and "room ls (length (leb128_ref sgd v))"
  shows "decode_leb128_loop sgd r n \<lparr>de_view = leb128_ref sgd v @ rest, de_left = ls\<rparr>
         = (Inr (r + v * 2 ^ n),
            \<lparr>de_view = rest, de_left = map (\<lambda>l. l - int (length (leb128_ref sgd v))) ls\<rparr>)"
  using assms
proof (induction sgd v arbitrary: r n ls rule: leb128_ref.induct)
  case (1 sgd v)
  let ?d = "v mod 128"
  have d: "0 \<le> ?d" "?d < 128" by simp_all
  note r' = digit_range [OF "1.prems"(2,3) d]
  show ?case
  proof (cases "leb128_last sgd v")
    case True
    have u: "uint (word_of_int ?d :: byte) = ?d"
      using d by (intro uint_byte) auto
    have bits: "?d AND 127 = ?d" "?d AND 128 = 0" "(?d AND 64 \<noteq> 0) = (64 \<le> ?d)"
      using d by (simp_all add: leb128_bits sign_bit not_less)
    have sg: "v = (if sgd \<and> 64 \<le> ?d then ?d - 128 else ?d)"
      using True "1.prems"(1) by (cases sgd) (simp_all add: leb128_last_def, presburger)
    have ext: "(r + ?d * 2 ^ n) OR - (2 ^ (n + 7)) = r + ?d * 2 ^ n - 2 ^ (n + 7)"
      using or_minus_push_bit [OF r'] by simp
    have val: "r + v * 2 ^ n
               = (if sgd \<and> 64 \<le> ?d then r + ?d * 2 ^ n - 2 ^ (n + 7) else r + ?d * 2 ^ n)"
      by (subst sg) (simp add: power_add left_diff_distrib)
    show ?thesis
      using True "1.prems"(2-4) unfolding val
      by (subst decode_leb128_loop.simps)
         (auto simp: leb128_ref.simps [of sgd v] read_byte_room u bits Let_def or_push_bit ext)
  next
    case False
    define b :: byte where "b = word_of_int (?d + 128)"
    have u: "uint b = ?d + 128"
      unfolding b_def using d by (intro uint_byte) auto
    have bits: "(?d + 128) AND 127 = ?d" "(?d + 128) AND 128 \<noteq> 0"
      by (simp_all add: leb128_bits div_add_self2)
    have ref: "leb128_ref sgd v = b # leb128_ref sgd (v div 128)"
      using False by (simp add: leb128_ref.simps [of sgd v] b_def)
    have roomy: "room ls 1" "room (map (\<lambda>l. l - 1) ls) (length (leb128_ref sgd (v div 128)))"
      using "1.prems"(4) by (force simp: ref room_def)+
    have "v div 128 * 128 * 2 ^ n + ?d * 2 ^ n = v * 2 ^ n"
      unfolding distrib_right [symmetric] by simp
    then have "r + ?d * 2 ^ n + (v div 128) * 2 ^ (n + 7) = r + v * 2 ^ n"
      by (simp add: power_add)
    then show ?thesis
      using "1.IH" [OF False leb128_next_range [OF "1.prems"(1)] r' roomy(2)]
      by (subst decode_leb128_loop.simps)
         (simp add: ref read_byte_room [OF roomy(1)] u bits Let_def or_push_bit "1.prems"(2,3) comp_def
           diff_diff_eq add.assoc)
  qed
qed

lemma leb128_round_trip:
  assumes "encode_leb128 v sgd s = (Inr u, s')"
  shows "reads_back (decode_leb128 sgd) v s s'"
proof -
  have range: "sgd \<or> 0 \<le> v"
    using assms by (subst (asm) encode_leb128.simps) (auto split: if_splits)
  then have *: "room (ser_left s) (length (leb128_ref sgd v))" "s' = wrote s (leb128_ref sgd v)"
    using encode_leb128_ref [OF range, of s] assms by (auto split: if_splits)
  show ?thesis
    unfolding reads_back_def decode_leb128_def
    using decode_leb128_loop_ref [OF range, of 0 0] * by (auto simp: ser_left_wrote)
qed

interpretation leb128: codec "\<lambda>v. encode_leb128 v sgd" "decode_leb128 sgd" "\<lambda>_. True" for sgd
  by unfold_locales (rule leb128_round_trip)


section \<open>The other simple encodings\<close>

lemma reads_back_read_byte:
  assumes "room (ser_left s) 1"
  shows "reads_back read_byte (uint b) s (wrote s [b])"
  unfolding reads_back_def using assms
  by (auto simp: read_byte_room ser_left_wrote intro!: exI [of _ "[b]"])

interpretation boolean: codec encode_bool decode_bool "\<lambda>_. True"
proof
  fix v :: bool and s u s'
  assume "encode_bool v s = (Inr u, s')"
  then have s': "room (ser_left s) 1" "s' = wrote s [if v then 1 else 0]"
    by (auto simp: encode_bool_def write_byte_eq split: if_splits)
  show "reads_back decode_bool v s s'"
    unfolding decode_bool_def s'(2)
    by (rule reads_back_sbind [OF reads_back_read_byte [OF s'(1), of "if v then 1 else 0"]])
       (auto split: if_splits)
qed

subsection \<open>Fixed-size integers\<close>

lemma length_be_bytes [simp]: "length (be_bytes n v) = n"
  by (induction n arbitrary: v) auto

lemma be_value_snoc [simp]: "be_value (bs @ [b]) = be_value bs * 256 + uint b"
  by (simp add: be_value_def)

lemma be_value_be_bytes: "be_value (be_bytes n v) = v mod 256 ^ n"
proof (induction n arbitrary: v)
  case (Suc n)
  have "v mod (256 * 256 ^ n) = 256 * (v div 256 mod 256 ^ n) + v mod 256"
    by (rule zmod_zmult2_eq) simp
  then show ?case by (simp add: Suc.IH uint_word_of_int)
qed (simp add: be_value_def)

lemma be_value_range: "0 \<le> be_value bs" "be_value bs < 256 ^ length bs"
proof (induction bs rule: rev_induct)
  case (snoc b bs)
  have "0 \<le> uint b" "uint b < 256" using uint_lt2p [of b] by simp_all
  with snoc show "0 \<le> be_value (bs @ [b])" "be_value (bs @ [b]) < 256 ^ length (bs @ [b])" by simp_all
qed (simp_all add: be_value_def)

lemma be_value_Cons: "be_value (b # bs) = uint b * 256 ^ length bs + be_value bs"
proof (induction bs rule: rev_induct)
  case (snoc c bs)
  then show ?case
    unfolding append_Cons [symmetric] be_value_snoc by (simp add: algebra_simps)
qed (simp add: be_value_def)

text \<open>The leading bit of the bytes is the sign of the value they hold.\<close>

lemma be_value_sign:
  assumes "bs \<noteq> []"
  shows "128 \<le> uint (hd bs) \<longleftrightarrow> 2 ^ (8 * length bs - 1) \<le> be_value bs"
proof -
  obtain b cs where bs: "bs = b # cs" using assms by (cases bs) auto
  obtain p :: int where p: "256 ^ length cs = p" by simp
  have "0 \<le> be_value cs" "be_value cs < p" "0 < p"
    using be_value_range [of cs] p by auto
  moreover have "(2::int) ^ (8 * length bs - 1) = 128 * p"
    unfolding bs p [symmetric] by (simp add: power_add power_mult flip: power_Suc)
  moreover have "128 * p \<le> uint b * p + be_value cs \<longleftrightarrow> 128 \<le> uint b"
  proof
    assume *: "128 * p \<le> uint b * p + be_value cs"
    show "128 \<le> uint b"
    proof (rule ccontr)
      assume "\<not> 128 \<le> uint b"
      then have "uint b * p \<le> 127 * p" using \<open>0 < p\<close> by (intro mult_right_mono) auto
      then show False using * \<open>be_value cs < p\<close> by linarith
    qed
  qed (use mult_right_mono [of 128 "uint b" p] \<open>0 \<le> be_value cs\<close> \<open>0 < p\<close> in linarith)
  ultimately show ?thesis by (simp add: bs be_value_Cons p)
qed

lemma int_from_bytes_be_bytes:
  assumes "int_fits v n sgd"
  shows "int_from_bytes (be_bytes n v) sgd = v"
proof (cases n)
  case 0
  then show ?thesis using assms by (simp add: int_fits_def int_from_bytes_def be_value_def)
next
  case (Suc m)
  then have ne: "be_bytes n v \<noteq> []" by (metis length_be_bytes list.size(3) nat.simps(3))
  obtain p :: int where p: "2 ^ (8 * n - 1) = p" "0 < p" by simp
  have pp: "(256::int) ^ n = 2 * p" "(2::int) ^ (8 * n) = 2 * p"
    unfolding p(1) [symmetric] using Suc by (simp_all add: power_add power_mult flip: power_Suc)
  have val: "be_value (be_bytes n v) = v mod (2 * p)"
    by (simp add: be_value_be_bytes pp)
  have sign: "128 \<le> uint (hd (be_bytes n v)) \<longleftrightarrow> p \<le> v mod (2 * p)"
    using be_value_sign [OF ne] unfolding length_be_bytes val p(1) .
  show ?thesis
  proof (cases "v < 0")
    case True
    then have "sgd" "- p \<le> v" using assms Suc p pp by (auto simp: int_fits_def split: if_splits)
    moreover from this True have "v mod (2 * p) = v + 2 * p"
      using mod_pos_pos_trivial [of "v + 2 * p" "2 * p"] by simp
    ultimately show ?thesis using ne sign by (simp add: int_from_bytes_def val pp)
  next
    case False
    then have "v < 2 * p" "sgd \<longrightarrow> v < p" using assms Suc p pp by (auto simp: int_fits_def split: if_splits)
    moreover from this False have "v mod (2 * p) = v" by (simp add: mod_pos_pos_trivial)
    ultimately show ?thesis using ne sign by (auto simp: int_from_bytes_def val)
  qed
qed

lemma reads_back_be_bytes:
  assumes "write_bytes (be_bytes n v) s = (Inr u, s')" and "int_fits v n sgd"
  shows "reads_back (sbind (read_bytes (int n) True) (\<lambda>b. sret (int_from_bytes b sgd))) v s s'"
proof -
  have "reads_back (read_bytes (int n) True) (be_bytes n v) s s'"
    using assms(1) reads_back_read_bytes [of s "be_bytes n v"] by simp
  then show ?thesis
    using int_from_bytes_be_bytes [OF assms(2)] reads_back_map [where f = "\<lambda>b. int_from_bytes b sgd"]
    by metis
qed

interpretation fixed_int: codec "\<lambda>v. encode_int v n sgd" "decode_int n sgd" "\<lambda>_. True" for n sgd
  by unfold_locales
     (auto simp: encode_int_def decode_int_def int_to_bytes_def intro: reads_back_be_bytes
       split: if_splits)

end
