(* ===== verification/NC_Encodings.thy ===== *)
theory NC_Encodings
  imports NC_Codec
begin

text \<open>
  The codec law for output values, length-prefixed bytes, UTF-8 strings and the compound encodings,
  and the properties of the serialization layer.
\<close>

section \<open>Output values\<close>

lemma int_from_bytes_negative:
  "bs \<noteq> [] \<Longrightarrow> int_from_bytes bs True < 0 \<longleftrightarrow> 128 \<le> uint (hd bs)"
  using be_value_range [of bs] by (auto simp: int_from_bytes_def power_mult)

text \<open>The byte peeked at has the sign of the number that starts with it.\<close>

lemma peek_sign:
  assumes "int_fits v n True" and "n \<noteq> 0"
  shows "\<exists>h. sbind (peek_bytes 1 True) (\<lambda>b. sret (int_from_bytes b True))
              \<lparr>de_view = be_bytes n v @ rest, de_left = ls\<rparr>
            = (Inr h, \<lparr>de_view = be_bytes n v @ rest, de_left = ls\<rparr>) \<and> (h < 0 \<longleftrightarrow> v < 0)"
proof -
  obtain b bs where b: "be_bytes n v = b # bs"
    using assms(2) length_be_bytes [of n v] by (cases "be_bytes n v") auto
  have "int_from_bytes [b] True < 0 \<longleftrightarrow> v < 0"
    using int_from_bytes_negative [of "[b]"] int_from_bytes_negative [of "b # bs"]
      int_from_bytes_be_bytes [OF assms(1)] b by simp
  then show ?thesis by (simp add: b peek_bytes_def sm_simps)
qed

lemma read_be_bytes:
  assumes "room ls n"
  shows "read_bytes (int n) True \<lparr>de_view = be_bytes n w @ rest, de_left = ls\<rparr>
         = (Inr (be_bytes n w), \<lparr>de_view = rest, de_left = map (\<lambda>l. l - int n) ls\<rparr>)"
  using assms read_bytes_room [of ls "be_bytes n w" rest] by simp

lemma decode_output_value_be_bytes:
  assumes fits: "int_fits w n True" and "room ls n" and n: "n = (if w < 0 then 8 else 4)"
    and ok: "\<not> (strict \<and> w = 0)" "w < 0 \<longrightarrow> MAX_OUTPUT_VALUE_32 \<le> - w"
  shows "decode_output_value strict \<lparr>de_view = be_bytes n w @ rest, de_left = ls\<rparr>
         = (Inr \<bar>w\<bar>, \<lparr>de_view = rest, de_left = map (\<lambda>l. l - int n) ls\<rparr>)"
proof -
  have "n \<noteq> 0" using n by simp
  then obtain h where h: "sbind (peek_bytes 1 True) (\<lambda>b. sret (int_from_bytes b True))
        \<lparr>de_view = be_bytes n w @ rest, de_left = ls\<rparr>
      = (Inr h, \<lparr>de_view = be_bytes n w @ rest, de_left = ls\<rparr>)" "h < 0 \<longleftrightarrow> w < 0"
    using peek_sign [OF fits] by blast
  have rd: "read_bytes (if w < 0 then 8 else 4) True \<lparr>de_view = be_bytes n w @ rest, de_left = ls\<rparr>
      = (Inr (be_bytes n w), \<lparr>de_view = rest, de_left = map (\<lambda>l. l - int n) ls\<rparr>)"
    using read_be_bytes [OF assms(2), of w rest] n by (simp split: if_splits)
  note val = int_from_bytes_be_bytes [OF fits]
  show ?thesis
    unfolding decode_output_value_def sbind_apply [of "sbind _ _"] h(1)
    using rd ok h(2) by (cases "w < 0") (simp_all add: sm_simps catch_struct_error_def val)
qed

lemma output_value_round_trip:
  assumes "encode_output_value v strict s = (Inr u, s')"
  shows "reads_back (decode_output_value strict) v s s'"
proof -
  obtain n w where wr: "write_bytes (be_bytes n w) s = (Inr u, s')" and fits: "int_fits w n True"
    and n: "n = (if w < 0 then 8 else 4)" and w: "\<bar>w\<bar> = v" "w < 0 \<longrightarrow> MAX_OUTPUT_VALUE_32 \<le> - w"
  proof (cases "v > MAX_OUTPUT_VALUE_32")
    case True
    then show ?thesis
      using assms that [of 8 "- v"]
      by (auto simp: encode_output_value_def int_to_bytes_def split: if_splits)
  next
    case False
    then show ?thesis
      using assms that [of 4 v]
      by (auto simp: encode_output_value_def int_to_bytes_def split: if_splits)
  qed
  have "\<not> (strict \<and> w = 0)"
    using assms w(1) by (auto simp: encode_output_value_def split: if_splits)
  from decode_output_value_be_bytes [OF fits _ n this w(2)] wr w(1)
  show ?thesis by (auto simp: reads_back_def ser_left_wrote)
qed

interpretation output_value: codec "\<lambda>v. encode_output_value v strict" "decode_output_value strict" "\<lambda>_. True"
  for strict
  by unfold_locales (rule output_value_round_trip)

text \<open>Conversely, the bytes read are the encoding of the number they give.\<close>

lemma be_bytes_add_mult: "be_bytes n (v + k * 256 ^ n) = be_bytes n v"
proof (induction n arbitrary: v)
  case (Suc n)
  have "(v + k * 256 ^ Suc n) div 256 = v div 256 + k * 256 ^ n"
    by (simp add: algebra_simps)
  moreover have "(word_of_int (v + k * 256 ^ Suc n) :: byte) = word_of_int v"
    by (rule word_of_int_eq_iff [THEN iffD2]) (simp add: take_bit_eq_mod mult.left_commute [of k])
  ultimately show ?case using Suc.IH by simp
qed simp

lemma be_bytes_be_value: "be_bytes (length bs) (be_value bs) = bs"
proof (induction bs rule: rev_induct)
  case (snoc b bs)
  have "(be_value bs * 256 + uint b) div 256 = be_value bs"
    using uint_lt2p [of b] by simp
  moreover have "(word_of_int (be_value bs * 256 + uint b) :: byte) = b"
    by (rule trans [OF word_of_int_eq_iff [THEN iffD2, of _ "uint b"]])
       (simp_all add: take_bit_eq_mod)
  ultimately show ?case using snoc by simp
qed simp

lemma be_bytes_int_from_bytes: "be_bytes (length bs) (int_from_bytes bs sgd) = bs"
  using be_bytes_add_mult [of "length bs" "be_value bs" "- 1"]
  by (simp add: int_from_bytes_def be_bytes_be_value power_mult)

lemma int_from_bytes_fits:
  assumes "bs \<noteq> []"
  shows "int_fits (int_from_bytes bs True) (length bs) True"
proof -
  obtain p :: int where p: "2 ^ (8 * length bs - 1) = p" by simp
  have "(2::int) ^ (8 * length bs) = 2 * p" "(256::int) ^ length bs = 2 * p"
    unfolding p [symmetric] using assms by (cases bs; simp add: power_mult power_add flip: power_Suc)+
  then show ?thesis
    using be_value_sign [OF assms] be_value_range [of bs] assms
    unfolding int_fits_def int_from_bytes_def p by (auto simp: not_le)
qed

section \<open>Length-prefixed bytes and UTF-8\<close>

interpretation raw_bytes: codec encode_bytes decode_bytes "\<lambda>_. True"
proof
  fix v s u s'
  assume "encode_bytes v s = (Inr u, s')"
  then obtain u' t where t: "encode_leb128 (int (length v)) False s = (Inr u', t)"
      and w: "write_bytes v t = (Inr u, s')"
    by (auto simp: encode_bytes_def sthen_Inr)
  show "reads_back decode_bytes v s s'"
    unfolding decode_bytes_def
    by (rule reads_back_sbind [OF leb128_round_trip [OF t]])
       (use w reads_back_read_bytes [of t v] in simp)
qed

lemma unat_byte [simp]: "n < 256 \<Longrightarrow> unat (of_nat n :: byte) = n"
  by (simp add: unat_of_nat)

lemma digits_64: "c div 64 * 64 + c mod 64 = c"
    "c div 4096 * 4096 + c div 64 mod 64 * 64 + c mod 64 = c"
    "c div 262144 * 262144 + c div 4096 mod 64 * 4096 + c div 64 mod 64 * 64 + c mod 64 = (c::nat)"
proof -
  have q: "c div 4096 = c div 64 div 64" "c div 262144 = c div 4096 div 64"
    by (simp_all add: div_mult2_eq [symmetric])
  show "c div 64 * 64 + c mod 64 = c" by simp
  show 2: "c div 4096 * 4096 + c div 64 mod 64 * 64 + c mod 64 = c"
    using div_mult_mod_eq [of "c div 64" 64] div_mult_mod_eq [of c 64] unfolding q by linarith
  show "c div 262144 * 262144 + c div 4096 mod 64 * 4096 + c div 64 mod 64 * 64 + c mod 64 = c"
    using 2 div_mult_mod_eq [of "c div 4096" 64] unfolding q(2) by linarith
qed

lemma utf8_continuation_byte: "n < 64 \<Longrightarrow> utf8_continuation (of_nat (128 + n))"
  unfolding utf8_continuation_def by (subst unat_byte, simp)+ simp

lemma utf8_decode_char_1:
  assumes "utf8_encode_char c = Inr bs" and "c < 128"
  shows "utf8_decode (bs @ rest) = utf8_cons c (utf8_decode rest)"
proof -
  have "bs = [of_nat c]" using assms by (simp add: utf8_encode_char_def)
  moreover have "unat (of_nat c :: byte) = c" using assms(2) by (intro unat_byte) simp
  ultimately show ?thesis using assms(2) by simp
qed

lemma utf8_decode_char_2:
  assumes "utf8_encode_char c = Inr bs" and "128 \<le> c" and "c < 2048"
  shows "utf8_decode (bs @ rest) = utf8_cons c (utf8_decode rest)"
proof -
  define a b where ab: "a = c div 64" "b = c mod 64"
  have r: "a < 32" "b < 64" "a * 64 + b = c" using assms(3) unfolding ab by simp_all
  have "bs = [of_nat (192 + a), of_nat (128 + b)]"
    using assms by (simp add: utf8_encode_char_def ab)
  moreover have "unat (of_nat (192 + a) :: byte) = 192 + a" "unat (of_nat (128 + b) :: byte) = 128 + b"
    using r(1,2) by (intro unat_byte, simp)+
  ultimately show ?thesis using assms(2) r utf8_continuation_byte [of b]
    by (simp add: Let_def del: of_nat_add)
qed

lemma utf8_decode_char_3:
  assumes "utf8_encode_char c = Inr bs" and "2048 \<le> c" and "c < 65536"
  shows "utf8_decode (bs @ rest) = utf8_cons c (utf8_decode rest)"
proof -
  define a b d where ab: "a = c div 4096" "b = c div 64 mod 64" "d = c mod 64"
  have r: "a < 16" "b < 64" "d < 64" "a * 4096 + b * 64 + d = c"
    using assms(3) digits_64(2) [of c] unfolding ab by simp_all
  have "bs = [of_nat (224 + a), of_nat (128 + b), of_nat (128 + d)]" "\<not> (55296 \<le> c \<and> c < 57344)"
    using assms by (auto simp: utf8_encode_char_def ab split: if_splits)
  moreover have "unat (of_nat (224 + a) :: byte) = 224 + a" "unat (of_nat (128 + b) :: byte) = 128 + b"
      "unat (of_nat (128 + d) :: byte) = 128 + d"
    using r(1-3) by (intro unat_byte, simp)+
  ultimately show ?thesis
    using assms(2) r utf8_continuation_byte [of b] utf8_continuation_byte [of d]
    by (simp add: Let_def del: of_nat_add)
qed

lemma utf8_decode_char_4:
  assumes "utf8_encode_char c = Inr bs" and "65536 \<le> c" and "c < 1114112"
  shows "utf8_decode (bs @ rest) = utf8_cons c (utf8_decode rest)"
proof -
  define a b d e where ab: "a = c div 262144" "b = c div 4096 mod 64" "d = c div 64 mod 64" "e = c mod 64"
  have r: "a < 5" "b < 64" "d < 64" "e < 64" "a * 262144 + b * 4096 + d * 64 + e = c"
    using assms(3) digits_64(3) [of c] unfolding ab by simp_all
  have "bs = [of_nat (240 + a), of_nat (128 + b), of_nat (128 + d), of_nat (128 + e)]"
    using assms by (simp add: utf8_encode_char_def ab)
  moreover have "unat (of_nat (240 + a) :: byte) = 240 + a" "unat (of_nat (128 + b) :: byte) = 128 + b"
      "unat (of_nat (128 + d) :: byte) = 128 + d" "unat (of_nat (128 + e) :: byte) = 128 + e"
    using r(1-4) by (intro unat_byte, simp)+
  ultimately show ?thesis
    using assms(2,3) r utf8_continuation_byte [of b] utf8_continuation_byte [of d]
      utf8_continuation_byte [of e]
    by (simp add: Let_def del: of_nat_add)
qed

lemma utf8_decode_char:
  assumes "utf8_encode_char c = Inr bs"
  shows "utf8_decode (bs @ rest) = utf8_cons c (utf8_decode rest)"
proof -
  consider "c < 128" | "128 \<le> c" "c < 2048" | "2048 \<le> c" "c < 65536" | "65536 \<le> c" "c < 1114112"
    using assms unfolding utf8_encode_char_def by (metis Inl_Inr_False not_less)
  then show ?thesis
    by cases (use assms utf8_decode_char_1 utf8_decode_char_2 utf8_decode_char_3 utf8_decode_char_4 in blast)+
qed

lemma utf8_decode_encode: "utf8_encode cs = Inr bs \<Longrightarrow> utf8_decode bs = Inr cs"
proof (induction cs arbitrary: bs)
  case (Cons c cs)
  then obtain b bs' where "utf8_encode_char c = Inr b" "utf8_encode cs = Inr bs'" "bs = b @ bs'"
    by (auto split: sum.splits)
  then show ?case using Cons.IH utf8_decode_char by (simp add: utf8_cons_def)
qed simp

interpretation utf8: codec encode_utf8 decode_utf8 "\<lambda>_. True"
proof
  fix v s u s'
  assume "encode_utf8 v s = (Inr u, s')"
  then obtain bs where bs: "utf8_encode v = Inr bs" "encode_bytes bs s = (Inr u, s')"
    by (auto simp: encode_utf8_def split: sum.splits)
  show "reads_back decode_utf8 v s s'"
    unfolding decode_utf8_def
    by (rule reads_back_sbind [OF raw_bytes.round_trip [OF TrueI bs(2)]])
       (simp add: utf8_decode_encode [OF bs(1)] reads_back_sret)
qed

section \<open>Compound encodings\<close>

context codec
begin

lemma optional_codec:
  "codec (\<lambda>v. encode_optional v enc) (decode_optional dec) (\<lambda>v. \<forall>x. v = Some x \<longrightarrow> ok x)"
proof
  fix v s u s'
  assume ok: "\<forall>x. v = Some x \<longrightarrow> ok x" and enc: "encode_optional v enc s = (Inr u, s')"
  show "reads_back (decode_optional dec) v s s'"
  proof (cases v)
    case None
    then have "reads_back decode_bool False s s'"
      using enc boolean.round_trip by (simp add: encode_optional_def)
    then show ?thesis
      unfolding decode_optional_def None by (rule reads_back_sbind) (simp add: reads_back_sret)
  next
    case (Some x)
    then obtain u' t where t: "encode_bool True s = (Inr u', t)" "enc x t = (Inr u, s')"
      using enc by (auto simp: encode_optional_def sthen_Inr)
    show ?thesis
      unfolding decode_optional_def Some
      by (rule reads_back_sbind [OF boolean.round_trip [OF TrueI t(1)]])
         (use ok Some t(2) in \<open>simp add: reads_back_map round_trip\<close>)
  qed
qed

lemma collection_codec:
  "codec (\<lambda>vs. encode_collection vs enc) (decode_collection dec (\<lambda>xs. xs)) (\<lambda>vs. \<forall>v \<in> set vs. ok v)"
proof
  fix vs s u s'
  assume ok: "\<forall>v \<in> set vs. ok v" and enc: "encode_collection vs enc s = (Inr u, s')"
  then obtain u' t where t: "encode_leb128 (int (length vs)) False s = (Inr u', t)"
      "sfor vs enc t = (Inr u, s')"
    by (auto simp: encode_collection_def sthen_Inr)
  show "reads_back (decode_collection dec (\<lambda>xs. xs)) vs s s'"
    unfolding decode_collection_def
    by (rule reads_back_sbind [OF leb128_round_trip [OF t(1)]])
       (use sfor_round_trip [OF ok t(2)] in simp)
qed

lemma signed_data_codec:
  "codec (\<lambda>v. encode_signed_data v enc) (decode_signed_data dec) (\<lambda>v. ok (fst v))"
proof
  fix v :: "'a \<times> bytes" and s u s'
  assume ok: "ok (fst v)" and "encode_signed_data v enc s = (Inr u, s')"
  then obtain u' t where t: "enc (fst v) s = (Inr u', t)" "encode_bytes (snd v) t = (Inr u, s')"
    by (auto simp: encode_signed_data_def sthen_Inr)
  show "reads_back (decode_signed_data dec) v s s'"
    unfolding decode_signed_data_def
    by (rule reads_back_sbind [OF round_trip [OF ok t(1)]])
       (use reads_back_map [OF raw_bytes.round_trip [OF TrueI t(2)], of "Pair (fst v)"] in simp)
qed

end

locale codec_pair = key: codec enc_key dec_key ok_key + val: codec enc_val dec_val ok_val
  for enc_key :: "'k \<Rightarrow> (serializer, unit) sm" and dec_key ok_key
    and enc_val :: "'v \<Rightarrow> (serializer, unit) sm" and dec_val ok_val
begin

lemma pair_codec:
  "codec (\<lambda>(k, v). sthen (enc_key k) (enc_val v))
     (sbind dec_key (\<lambda>k. sbind dec_val (\<lambda>v. sret (k, v)))) (\<lambda>(k, v). ok_key k \<and> ok_val v)"
proof
  fix kv :: "'k \<times> 'v" and s u s'
  assume ok: "case kv of (k, v) \<Rightarrow> ok_key k \<and> ok_val v"
    and enc: "(case kv of (k, v) \<Rightarrow> sthen (enc_key k) (enc_val v)) s = (Inr u, s')"
  obtain k v where kv: "kv = (k, v)" by (cases kv)
  then obtain u' t where t: "enc_key k s = (Inr u', t)" "enc_val v t = (Inr u, s')"
    using enc by (auto simp: sthen_Inr)
  show "reads_back (sbind dec_key (\<lambda>k. sbind dec_val (\<lambda>v. sret (k, v)))) kv s s'"
    by (rule reads_back_sbind [OF key.round_trip [OF _ t(1)]])
       (use ok kv reads_back_map [OF val.round_trip [OF _ t(2)], of "Pair k"] in auto)
qed

lemma mapping_codec:
  "codec (\<lambda>items. encode_mapping items enc_key enc_val) (decode_mapping dec_key dec_val (\<lambda>xs. xs))
     (\<lambda>items. \<forall>(k, v) \<in> set items. ok_key k \<and> ok_val v)"
proof
  fix items s u s'
  assume ok: "\<forall>(k, v) \<in> set items. ok_key k \<and> ok_val v"
    and "encode_mapping items enc_key enc_val s = (Inr u, s')"
  then obtain u' t where t: "encode_leb128 (int (length items)) False s = (Inr u', t)"
      "sfor items (\<lambda>(k, v). sthen (enc_key k) (enc_val v)) t = (Inr u, s')"
    by (auto simp: encode_mapping_def sthen_Inr)
  show "reads_back (decode_mapping dec_key dec_val (\<lambda>xs. xs)) items s s'"
    unfolding decode_mapping_def
    by (rule reads_back_sbind [OF leb128_round_trip [OF t(1)]])
       (use codec.sfor_round_trip [OF pair_codec ok t(2)] in simp)
qed

end

lemma reads_back_exact:
  assumes "length bs = n" and "write_bytes bs s = (Inr u, s')"
  shows "reads_back (sbind (read_bytes (int n) True) (\<lambda>b. sret (f b))) (f bs) s s'"
  using assms reads_back_map [OF reads_back_read_bytes [of s bs], of f] by auto

interpretation caller_id: codec encode_caller_id decode_caller_id "\<lambda>_. True"
proof
  fix v s u s'
  assume "encode_caller_id v s = (Inr u, s')"
  then obtain t where t: "encode_bool (case v of Address _ \<Rightarrow> False | ContractId _ \<Rightarrow> True) s = (Inr (), t)"
      and w: "case v of Address a \<Rightarrow> length a = 25 \<and> write_bytes a t = (Inr u, s')
              | ContractId c \<Rightarrow> length c = 32 \<and> write_bytes c t = (Inr u, s')"
    by (cases v) (auto simp: encode_caller_id_def sm_invert)
  show "reads_back decode_caller_id v s s'"
    unfolding decode_caller_id_def
  proof (rule reads_back_sbind [OF boolean.round_trip [OF TrueI t]])
    show "reads_back (if case v of Address _ \<Rightarrow> False | ContractId _ \<Rightarrow> True
         then sbind (read_bytes (int TX_HASH_SIZE) True) (\<lambda>data. sret (ContractId data))
         else sbind (read_bytes (int ADDRESS_LEN_BYTES) True) (\<lambda>data. sret (Address data))) v t s'"
      using w reads_back_exact [of _ 25 t u s' Address] reads_back_exact [of _ 32 t u s' ContractId]
      by (cases v) auto
  qed
qed

section \<open>Properties\<close>

lemma leb128_encode_range:
  "leb128_encode sgd v max_bytes =
     (if (sgd \<or> 0 \<le> v) \<and> (case max_bytes of None \<Rightarrow> True | Some n \<Rightarrow> leb128_fits sgd v n)
      then Inr (leb128_ref sgd v) else Inl ValueError)"
proof (cases "sgd \<or> 0 \<le> v")
  case False
  then show ?thesis
    by (auto simp: leb128_encode_def with_optional_max_bytes_def with_max_bytes_def sm_simps
        leb128_error_def encode_leb128.simps [of v False] is_serialization_error_def split: option.splits)
next
  case True
  show ?thesis
  proof (cases max_bytes)
    case None
    have "encode_leb128 v sgd build_bytes_serializer
          = (Inr (), wrote build_bytes_serializer (leb128_ref sgd v))"
      using encode_leb128_ref [OF True, of build_bytes_serializer]
      by (simp add: room_def build_bytes_serializer_def)
    then show ?thesis
      using None True
      by (simp add: leb128_encode_def with_optional_max_bytes_def ser_finalize_def wrote_def
          build_bytes_serializer_def)
  next
    case (Some n)
    have "if leb128_fits sgd v n
          then encode_leb128 v sgd \<lparr>ser_buf = [], ser_left = [int n]\<rparr>
               = (Inr (), wrote \<lparr>ser_buf = [], ser_left = [int n]\<rparr> (leb128_ref sgd v))
          else \<exists>s'. encode_leb128 v sgd \<lparr>ser_buf = [], ser_left = [int n]\<rparr>
                    = (Inl MaxBytesExceededError, s')"
      using encode_leb128_ref [OF True, of "\<lparr>ser_buf = [], ser_left = [int n]\<rparr>"]
      by (simp add: room_def length_leb128_ref [OF True])
    then show ?thesis
      using Some True
      by (auto simp: leb128_encode_def with_optional_max_bytes_def with_max_bytes_def ser_finalize_def
          wrote_def build_bytes_serializer_def leb128_error_def is_serialization_error_def
          split: if_splits)
  qed
qed

text \<open>
  C12. The LEB128 helpers compute exactly the reference encoding, with a byte limit or without: the
  result is the base-128 digits of the number when the number is in the range of the given size (an
  \<open>n\<close>-byte unsigned value is below \<open>128 ^ n\<close>, a signed one is in
  \<open>- 64 * 128 ^ (n - 1) \<dots> 64 * 128 ^ (n - 1) - 1\<close>) and \<open>ValueError\<close> in every other case.
\<close>

theorem leb128_encode_eq:
  "leb128_encode sgd v max_bytes =
     (if (sgd \<or> 0 \<le> v) \<and> (case max_bytes of None \<Rightarrow> True | Some n \<Rightarrow> leb128_fits sgd v n)
      then Inr (leb128_ref sgd v) else Inl ValueError)"
  by (rule leb128_encode_range)

lemma leb128_decode_data:
  assumes "leb128_encode sgd v max_bytes = Inr data"
  shows "leb128_decode sgd (data @ rest) max_bytes = Inr (v, rest)"
proof -
  obtain s u where s: "with_optional_max_bytes (map_option int max_bytes) (encode_leb128 v sgd) build_bytes_serializer
                     = (Inr u, s)" and data: "data = ser_buf s"
    using assms by (auto simp: leb128_encode_def ser_finalize_def split: prod.splits sum.splits)
  have "reads_back (de_with_optional_max_bytes (map_option int max_bytes) (decode_leb128 sgd)) v build_bytes_serializer s"
    using s leb128.max_bytes_round_trip leb128.round_trip
    by (auto simp: with_optional_max_bytes_def de_with_optional_max_bytes_def split: option.splits)
  then have "de_with_optional_max_bytes (map_option int max_bytes) (decode_leb128 sgd) (build_bytes_deserializer (data @ rest))
             = (Inr v, build_bytes_deserializer rest)"
    by (auto simp: reads_back_def build_bytes_serializer_def build_bytes_deserializer_def data wrote_def)
  then show ?thesis
    by (simp add: leb128_decode_def sm_simps read_all_def build_bytes_deserializer_def
        de_finalize_def de_is_empty_def)
qed

text \<open>
  What the LEB128 helpers encode they decode: the number is read back from the front of the
  data under the same byte limit, and everything behind it is returned untouched.
\<close>

theorem leb128_decode_encode:
  assumes "leb128_encode sgd v max_bytes = Inr data"
  shows "leb128_decode sgd (data @ rest) max_bytes = Inr (v, rest)"
  using assms by (rule leb128_decode_data)

theorem leb128_decode_encode_witness:
  "leb128_decode True ([192, 187, 120] @ [7]) (Some 4) = Inr (- 123456, [7])"
  by (rule leb128_decode_encode) code_simp

text \<open>
  C13. Output values: a value is encoded exactly when it is in \<open>0 \<dots> 2 ^ 63\<close> (and not 0 when
  \<open>strict\<close>), in 4 bytes up to \<open>2 ^ 31 - 1\<close> and in 8 bytes above, and the bytes decode to the value
  again, whatever follows them.
\<close>

theorem output_value_decode_encode:
  "if 0 \<le> v \<and> v \<le> 2 ^ 63 \<and> \<not> (strict \<and> v = 0)
   then \<exists>data. encode_output_value v strict build_bytes_serializer
                 = (Inr (), \<lparr>ser_buf = data, ser_left = []\<rparr>) \<and>
               length data = (if v \<le> 2 ^ 31 - 1 then 4 else 8) \<and>
               (\<forall>rest. decode_output_value strict (build_bytes_deserializer (data @ rest))
                        = (Inr v, build_bytes_deserializer rest))
   else encode_output_value v strict build_bytes_serializer = (Inl ValueError, build_bytes_serializer)"
proof (cases "0 \<le> v \<and> v \<le> 2 ^ 63 \<and> \<not> (strict \<and> v = 0)")
  case False
  then show ?thesis by (auto simp: encode_output_value_def sm_simps)
next
  case True
  define data where "data = (if v > MAX_OUTPUT_VALUE_32 then be_bytes 8 (- v) else be_bytes 4 v)"
  have enc: "encode_output_value v strict build_bytes_serializer
             = (Inr (), wrote build_bytes_serializer data)"
    using True
    by (auto simp: encode_output_value_def int_to_bytes_def int_fits_def data_def room_def
        build_bytes_serializer_def)
  have "length data = (if v \<le> 2 ^ 31 - 1 then 4 else 8)" by (simp add: data_def)
  then show ?thesis
    using True enc output_value_round_trip [OF enc]
    by (auto simp: reads_back_def wrote_def build_bytes_serializer_def build_bytes_deserializer_def)
qed

text \<open>
  C14. The decoder of output values accepts only what the encoder writes, with one exception: unless
  the value is \<open>2 ^ 31 - 1\<close>, the bytes consumed are the encoding of the value returned.
\<close>

theorem output_value_canonical:
  assumes "decode_output_value strict (build_bytes_deserializer data) = (Inr v, d)"
    and "v \<noteq> 2 ^ 31 - 1"
  shows "\<exists>s. encode_output_value v strict build_bytes_serializer = (Inr (), s) \<and>
             data = ser_finalize s @ de_view d"
proof -
  obtain h where h: "data \<noteq> []" "h = int_from_bytes (take 1 data) True"
    using assms(1)
    by (cases data) (auto simp: decode_output_value_def build_bytes_deserializer_def sbind_Inr peek_bytes_def)
  define n where "n = (if h < 0 then 8 else 4 :: nat)"
  define w where "w = int_from_bytes (take n data) True"
  have n: "n \<le> length data" and v: "v = (if h < 0 then - w else w)" "0 \<le> v" "\<not> (strict \<and> v = 0)"
      "\<not> (v < MAX_OUTPUT_VALUE_32 \<and> h < 0)" "de_view d = drop n data"
    using assms(1) h(1)
    by (auto simp: decode_output_value_def sm_simps peek_bytes_def read_bytes_def n_def w_def h(2)
        catch_struct_error_def build_bytes_deserializer_def split: if_splits)
  have "take n data \<noteq> []" "length (take n data) = n" "hd (take n data) = hd data" "hd (take 1 data) = hd data"
    using n h(1) by (auto simp: n_def hd_take)
  then have w: "int_fits w n True" "be_bytes n w = take n data" "w < 0 \<longleftrightarrow> h < 0"
    using int_from_bytes_fits [of "take n data"] be_bytes_int_from_bytes [of "take n data" True]
      int_from_bytes_negative [of "take n data"] int_from_bytes_negative [of "take 1 data"] h
    by (auto simp: w_def)
  have "encode_output_value v strict build_bytes_serializer
        = (Inr (), wrote build_bytes_serializer (take n data))"
    using w v(1-4) assms(2)
    by (auto simp: encode_output_value_def int_to_bytes_def n_def int_fits_def room_def
        build_bytes_serializer_def split: if_splits)
  then show ?thesis
    using v(5) by (simp add: ser_finalize_def wrote_def build_bytes_serializer_def)
qed

theorem output_value_canonical_witness:
  "\<exists>s. encode_output_value 1234 True build_bytes_serializer = (Inr (), s) \<and>
       [0, 0, 4, 210, 9] = ser_finalize s @ de_view \<lparr>de_view = [9], de_left = []\<rparr>"
  by (rule output_value_canonical) code_simp+

text \<open>
  The exception is real: the 8 bytes \<open>ff ff ff ff 80 00 00 01\<close> are accepted for
  \<open>2 ^ 31 - 1\<close>, whose encoding is the 4 bytes \<open>7f ff ff ff\<close>, so this value has two serializations.
\<close>

theorem output_value_two_encodings:
  "fst (decode_output_value strict (build_bytes_deserializer [255, 255, 255, 255, 128, 0, 0, 1]))
     = Inr (2 ^ 31 - 1) \<and>
   fst (decode_output_value strict (build_bytes_deserializer [127, 255, 255, 255])) = Inr (2 ^ 31 - 1)"
proof (cases strict)
  case True
  then show ?thesis by simp code_simp
next
  case False
  then show ?thesis by simp code_simp
qed

end
