(* ===== verification/NC_Types.thy ===== *)
theory NC_Types
  imports NC_Encodings "HOL-Library.FSet"
begin

text \<open>
  The value types of nano contracts (\<^verbatim>\<open>hathor/nanocontracts/nc_types\<close>): for every \<open>NCType\<close>
  class its \<open>_check_value\<close>, \<open>_serialize\<close> and \<open>_deserialize\<close>, the final methods of the base class
  (\<open>check_value\<close>, \<open>serialize\<close>, \<open>deserialize\<close>, \<open>to_bytes\<close>, \<open>from_bytes\<close>) over all of them, and
  \<open>MaybeDeletedNCType\<close>, the wrapper with which the contract storage writes attributes.

  The order in which Python iterates over a set is not part of the set: it is the parameter
  \<open>it\<close> of the definitions that serialize.
\<close>

section \<open>Values and types\<close>

text \<open>The classes derived from \<open>bytes\<close> in \<^verbatim>\<open>nanocontracts/types.py\<close>.\<close>

datatype bytes_class =
  PlainBytes | AddressClass | VertexIdClass | BlueprintIdClass | ContractIdClass | TokenUidClass
  | TxOutputScriptClass

text \<open>
  The Python values a blueprint can store, pass or return. \<open>Amount\<close> and \<open>Timestamp\<close> are integers;
  a dict keeps its items in insertion order.
\<close>

datatype nc_value =
    NoneV
  | BoolV bool
  | IntV int
  | BytesV bytes_class bytes
  | StrV ustring
  | TupleV "nc_value list"
  | NamedTupleV ustring "nc_value list"
  | ListV "nc_value list"
  | DequeV "nc_value list"
  | SetV "nc_value fset"
  | FrozenSetV "nc_value fset"
  | DictV "(nc_value \<times> nc_value) list"
  | SignedDataV nc_value bytes
  | DataclassV ustring "(ustring \<times> nc_value) list"

text \<open>One constructor per \<open>NCType\<close> class, with the attributes of its instances.\<close>

datatype nc_type =
    NullNC
  | BoolNC
  | VarIntNC bool nat
  | SizedIntNC bool nat
  | TokenVersionNC
  | BytesLikeNC bytes_class
  | StrNC
  | FixedSizeBytesNC bytes_class nat
  | AddressNC
  | TokenUidNC
  | CallerIdNC
  | OptionalNC nc_type
  | TupleNC "nc_type list"
  | VarTupleNC nc_type
  | NamedTupleNC ustring "nc_type list"
  | ListNC nc_type
  | DequeNC nc_type
  | SetNC nc_type
  | FrozenSetNC nc_type
  | DictNC nc_type nc_type
  | SignedDataNC nc_type
  | DataclassNC ustring "(ustring \<times> nc_type) list"

abbreviation VarInt32NC :: nc_type where "VarInt32NC \<equiv> VarIntNC True 32"
abbreviation VarUint32NC :: nc_type where "VarUint32NC \<equiv> VarIntNC False 32"
abbreviation Int32NC :: nc_type where "Int32NC \<equiv> SizedIntNC True 4"
abbreviation Uint32NC :: nc_type where "Uint32NC \<equiv> SizedIntNC False 4"
abbreviation Uint8NC :: nc_type where "Uint8NC \<equiv> SizedIntNC False 1"
abbreviation Bytes32NC :: nc_type where "Bytes32NC \<equiv> FixedSizeBytesNC PlainBytes 32"

type_synonym set_iter = "nc_value fset \<Rightarrow> nc_value list"
type_synonym checker = "bool \<Rightarrow> nc_value \<Rightarrow> exc + unit"
type_synonym encoder = "nc_value \<Rightarrow> (serializer, unit) sm"
type_synonym decoder = "(deserializer, nc_value) sm"

abbreviation check_ok :: "exc + unit" where "check_ok \<equiv> Inr ()"

definition check_if :: "bool \<Rightarrow> exc \<Rightarrow> exc + unit" where
  "check_if b e = (if b then check_ok else Inl e)"

definition check_seq :: "exc + unit \<Rightarrow> exc + unit \<Rightarrow> exc + unit" where
  "check_seq a b = (case a of Inl e \<Rightarrow> Inl e | Inr _ \<Rightarrow> b)"

primrec check_all :: "(exc + unit) list \<Rightarrow> exc + unit" where
  "check_all [] = check_ok"
| "check_all (c # cs) = check_seq c (check_all cs)"

definition raise_check :: "exc + unit \<Rightarrow> ('s, unit) sm" where
  "raise_check c = (case c of Inl e \<Rightarrow> sraise e | Inr _ \<Rightarrow> sret ())"

text \<open>
  \<^verbatim>\<open>isinstance(v, int)\<close> with the number it stands for (\<open>bool\<close> is a subclass of \<open>int\<close>),
  \<^verbatim>\<open>isinstance(v, bytes)\<close>, and iteration over a \<open>Collection\<close>: a mapping iterates over its keys, a
  string over its characters, bytes over integers.
\<close>

fun as_int :: "nc_value \<Rightarrow> int option" where
  "as_int (IntV i) = Some i"
| "as_int (BoolV b) = Some (if b then 1 else 0)"
| "as_int _ = None"

fun as_bytes :: "nc_value \<Rightarrow> bytes option" where
  "as_bytes (BytesV c b) = Some b"
| "as_bytes _ = None"

fun as_tuple :: "nc_value \<Rightarrow> nc_value list option" where
  "as_tuple (TupleV vs) = Some vs"
| "as_tuple (NamedTupleV n vs) = Some vs"
| "as_tuple _ = None"

fun as_tuple_like :: "nc_value \<Rightarrow> nc_value list option" where
  "as_tuple_like (ListV vs) = Some vs"
| "as_tuple_like v = as_tuple v"

fun py_iter :: "set_iter \<Rightarrow> nc_value \<Rightarrow> nc_value list option" where
  "py_iter it (TupleV vs) = Some vs"
| "py_iter it (NamedTupleV n vs) = Some vs"
| "py_iter it (ListV vs) = Some vs"
| "py_iter it (DequeV vs) = Some vs"
| "py_iter it (SetV S) = Some (it S)"
| "py_iter it (FrozenSetV S) = Some (it S)"
| "py_iter it (DictV kvs) = Some (map fst kvs)"
| "py_iter it (StrV s) = Some (map (\<lambda>c. StrV [c]) s)"
| "py_iter it (BytesV c b) = Some (map (\<lambda>x. IntV (uint x)) b)"
| "py_iter it _ = None"

text \<open>
  \<^verbatim>\<open>isinstance(v, Hashable)\<close>: by class, so a tuple always is. \<open>SignedData\<close> and plain dataclasses define
  \<open>__eq__\<close> and no \<open>__hash__\<close>. Hashing a tuple raises when a component is not hashable.
\<close>

fun is_hashable_instance :: "nc_value \<Rightarrow> bool" where
  "is_hashable_instance (ListV _) = False"
| "is_hashable_instance (DequeV _) = False"
| "is_hashable_instance (SetV _) = False"
| "is_hashable_instance (DictV _) = False"
| "is_hashable_instance (SignedDataV _ _) = False"
| "is_hashable_instance (DataclassV _ _) = False"
| "is_hashable_instance _ = True"

fun py_hashable :: "nc_value \<Rightarrow> bool" where
  "py_hashable (TupleV vs) = list_all py_hashable vs"
| "py_hashable (NamedTupleV n vs) = list_all py_hashable vs"
| "py_hashable v = is_hashable_instance v"

section \<open>The classes\<close>

subsection \<open>Integers\<close>

definition varint_upper_bound_value :: "bool \<Rightarrow> nat \<Rightarrow> int" where
  "varint_upper_bound_value sgd max_byte_size =
     (if sgd then 2 ^ (max_byte_size * 7 - 1) - 1 else 2 ^ (max_byte_size * 7) - 1)"

definition varint_lower_bound_value :: "bool \<Rightarrow> nat \<Rightarrow> int" where
  "varint_lower_bound_value sgd max_byte_size =
     (if \<not> sgd then 0 else - (2 ^ (max_byte_size * 7)))"

definition sized_int_upper_bound_value :: "bool \<Rightarrow> nat \<Rightarrow> int" where
  "sized_int_upper_bound_value sgd byte_size =
     (if sgd then 2 ^ (byte_size * 8 - 1) - 1 else 2 ^ (byte_size * 8) - 1)"

definition sized_int_lower_bound_value :: "bool \<Rightarrow> nat \<Rightarrow> int" where
  "sized_int_lower_bound_value sgd byte_size = (if sgd then - (2 ^ (byte_size * 8 - 1)) else 0)"

definition check_range :: "int \<Rightarrow> int \<Rightarrow> int \<Rightarrow> exc + unit" where
  "check_range upper_bound lower_bound v =
     (if v > upper_bound then Inl ValueError
      else if v < lower_bound then Inl ValueError
      else check_ok)"

definition varint_check_value :: "bool \<Rightarrow> nat \<Rightarrow> nc_value \<Rightarrow> exc + unit" where
  "varint_check_value sgd n v =
     (case as_int v of
        None \<Rightarrow> Inl TypeError
      | Some i \<Rightarrow> check_range (varint_upper_bound_value sgd n) (varint_lower_bound_value sgd n) i)"

text \<open>\<^verbatim>\<open>except MaxBytesExceededError as e: raise ValueError('value too long')\<close>\<close>

definition catch_too_long :: "('s, 'a) sm \<Rightarrow> ('s, 'a) sm" where
  "catch_too_long m s =
     (case m s of (Inl e, s') \<Rightarrow> (Inl (if e = MaxBytesExceededError then ValueError else e), s')
      | (Inr x, s') \<Rightarrow> (Inr x, s'))"

definition varint_serialize :: "bool \<Rightarrow> nat \<Rightarrow> encoder" where
  "varint_serialize sgd n v =
     (case as_int v of
        None \<Rightarrow> sraise TypeError
      | Some i \<Rightarrow> catch_too_long (with_max_bytes (int n) (encode_leb128 i sgd)))"

definition varint_deserialize :: "bool \<Rightarrow> nat \<Rightarrow> decoder" where
  "varint_deserialize sgd n =
     sbind (catch_too_long (de_with_max_bytes (int n) (decode_leb128 sgd))) (\<lambda>i. sret (IntV i))"

definition sized_int_check_value :: "bool \<Rightarrow> nat \<Rightarrow> nc_value \<Rightarrow> exc + unit" where
  "sized_int_check_value sgd n v =
     (case as_int v of
        None \<Rightarrow> Inl TypeError
      | Some i \<Rightarrow> check_range (sized_int_upper_bound_value sgd n) (sized_int_lower_bound_value sgd n) i)"

definition sized_int_serialize :: "bool \<Rightarrow> nat \<Rightarrow> encoder" where
  "sized_int_serialize sgd n v =
     (case as_int v of None \<Rightarrow> sraise TypeError | Some i \<Rightarrow> encode_int i n sgd)"

definition sized_int_deserialize :: "bool \<Rightarrow> nat \<Rightarrow> decoder" where
  "sized_int_deserialize sgd n = sbind (decode_int n sgd) (\<lambda>i. sret (IntV i))"

text \<open>\<open>TokenVersion(value)\<close> raises for a number that is not a member: NATIVE 0, DEPOSIT 1, FEE 2.\<close>

definition token_version_deserialize :: decoder where
  "token_version_deserialize =
     sbind (sized_int_deserialize False 1) (\<lambda>v.
       if v \<in> {IntV 0, IntV 1, IntV 2} then sret v else sraise ValueError)"

subsection \<open>Booleans, null, strings and bytes\<close>

definition null_check_value :: "nc_value \<Rightarrow> exc + unit" where
  "null_check_value v = check_if (v = NoneV) TypeError"

definition bool_check_value :: "nc_value \<Rightarrow> exc + unit" where
  "bool_check_value v = (case v of BoolV _ \<Rightarrow> check_ok | _ \<Rightarrow> Inl TypeError)"

definition bool_serialize :: encoder where
  "bool_serialize v = (case v of BoolV b \<Rightarrow> encode_bool b | _ \<Rightarrow> sraise TypeError)"

definition bool_deserialize :: decoder where
  "bool_deserialize = sbind decode_bool (\<lambda>b. sret (BoolV b))"

abbreviation DEFAULT_BYTES_MAX_LENGTH :: int where "DEFAULT_BYTES_MAX_LENGTH \<equiv> 65536"

definition str_check_value :: "nc_value \<Rightarrow> exc + unit" where
  "str_check_value v = (case v of StrV _ \<Rightarrow> check_ok | _ \<Rightarrow> Inl TypeError)"

definition str_serialize :: encoder where
  "str_serialize v =
     (case v of StrV s \<Rightarrow> with_max_bytes DEFAULT_BYTES_MAX_LENGTH (encode_utf8 s) | _ \<Rightarrow> sraise TypeError)"

definition str_deserialize :: decoder where
  "str_deserialize = sbind (de_with_max_bytes DEFAULT_BYTES_MAX_LENGTH decode_utf8) (\<lambda>s. sret (StrV s))"

definition bytes_check_value :: "nc_value \<Rightarrow> exc + unit" where
  "bytes_check_value v = check_if (as_bytes v \<noteq> None) TypeError"

definition bytes_serialize :: encoder where
  "bytes_serialize v =
     (case as_bytes v of
        None \<Rightarrow> sraise TypeError
      | Some data \<Rightarrow> with_max_bytes DEFAULT_BYTES_MAX_LENGTH (encode_bytes data))"

definition bytes_deserialize :: "bytes_class \<Rightarrow> decoder" where
  "bytes_deserialize actual_type =
     sbind (de_with_max_bytes DEFAULT_BYTES_MAX_LENGTH decode_bytes) (\<lambda>data. sret (BytesV actual_type data))"

definition fixed_size_bytes_check_value :: "nat \<Rightarrow> nc_value \<Rightarrow> exc + unit" where
  "fixed_size_bytes_check_value sz v =
     (case as_bytes v of None \<Rightarrow> Inl TypeError | Some data \<Rightarrow> check_if (length data = sz) TypeError)"

definition fixed_size_bytes_serialize :: "nat \<Rightarrow> encoder" where
  "fixed_size_bytes_serialize sz v =
     (case as_bytes v of
        None \<Rightarrow> sraise TypeError
      | Some data \<Rightarrow> sthen (sassert (length data = sz)) (write_bytes data))"

definition fixed_size_bytes_deserialize :: "bytes_class \<Rightarrow> nat \<Rightarrow> decoder" where
  "fixed_size_bytes_deserialize actual_type sz =
     sbind (read_bytes (int sz) True) (\<lambda>data. sret (BytesV actual_type data))"

definition address_check_value :: "nc_value \<Rightarrow> exc + unit" where
  "address_check_value v =
     (case as_bytes v of
        None \<Rightarrow> Inl TypeError
      | Some data \<Rightarrow> check_if (length data = ADDRESS_LEN_BYTES) ValueError)"

definition address_deserialize :: decoder where
  "address_deserialize =
     sbind (read_bytes (int ADDRESS_LEN_BYTES) True) (\<lambda>data. sret (BytesV AddressClass data))"

abbreviation HATHOR_TOKEN_UID :: bytes where "HATHOR_TOKEN_UID \<equiv> [0]"
abbreviation TOKEN_SIZE :: nat where "TOKEN_SIZE \<equiv> 32"

definition token_uid_check_value :: "nc_value \<Rightarrow> exc + unit" where
  "token_uid_check_value v =
     (case as_bytes v of
        None \<Rightarrow> Inl TypeError
      | Some data \<Rightarrow>
          if data = HATHOR_TOKEN_UID then check_ok
          else check_if (length data = TOKEN_SIZE) TypeError)"

text \<open>The inner \<open>Bytes32NCType(bytes).serialize\<close> checks its value again.\<close>

definition token_uid_serialize :: encoder where
  "token_uid_serialize v =
     (case as_bytes v of
        None \<Rightarrow> sraise TypeError
      | Some data \<Rightarrow>
          encode_optional (if data = HATHOR_TOKEN_UID then None else Some (BytesV PlainBytes data))
            (\<lambda>v. sthen (raise_check (fixed_size_bytes_check_value 32 v)) (fixed_size_bytes_serialize 32 v)))"

definition token_uid_deserialize :: decoder where
  "token_uid_deserialize =
     sbind (decode_optional
              (sbind (fixed_size_bytes_deserialize PlainBytes 32) (\<lambda>v.
                 sthen (raise_check (fixed_size_bytes_check_value 32 v)) (sret v)))) (\<lambda>raw_value.
     sret (BytesV TokenUidClass
       (case raw_value of None \<Rightarrow> HATHOR_TOKEN_UID | Some v \<Rightarrow> the (as_bytes v))))"

text \<open>A value that is neither an \<open>Address\<close> nor a \<open>ContractId\<close> reaches \<open>assert_never\<close>.\<close>

fun as_caller_id :: "nc_value \<Rightarrow> caller_id option" where
  "as_caller_id (BytesV AddressClass b) = Some (Address b)"
| "as_caller_id (BytesV ContractIdClass b) = Some (ContractId b)"
| "as_caller_id _ = None"

fun of_caller_id :: "caller_id \<Rightarrow> nc_value" where
  "of_caller_id (Address b) = BytesV AddressClass b"
| "of_caller_id (ContractId b) = BytesV ContractIdClass b"

definition caller_id_check_value :: "nc_value \<Rightarrow> exc + unit" where
  "caller_id_check_value v =
     (case as_caller_id v of
        Some (Address b) \<Rightarrow> check_if (length b = ADDRESS_LEN_BYTES) ValueError
      | Some (ContractId b) \<Rightarrow> check_if (length b = TX_HASH_SIZE) ValueError
      | None \<Rightarrow> Inl AssertionError)"

definition caller_id_serialize :: encoder where
  "caller_id_serialize v =
     (case as_caller_id v of None \<Rightarrow> sraise AssertionError | Some c \<Rightarrow> encode_caller_id c)"

definition caller_id_deserialize :: decoder where
  "caller_id_deserialize = sbind decode_caller_id (\<lambda>c. sret (of_caller_id c))"

subsection \<open>Compound types\<close>

definition optional_check_value :: "checker \<Rightarrow> checker" where
  "optional_check_value inner deep v =
     (if v = NoneV then check_ok else if deep then inner True v else check_ok)"

definition optional_serialize :: "encoder \<Rightarrow> encoder" where
  "optional_serialize inner v = encode_optional (if v = NoneV then None else Some v) inner"

definition optional_deserialize :: "decoder \<Rightarrow> decoder" where
  "optional_deserialize inner =
     sbind (decode_optional inner) (\<lambda>r. sret (case r of None \<Rightarrow> NoneV | Some v \<Rightarrow> v))"

text \<open>Tuples of fixed size; \<open>zip\<close> stops at the shorter sequence.\<close>

definition check_zip :: "nc_value list \<Rightarrow> checker list \<Rightarrow> exc + unit" where
  "check_zip vs checks = check_all (map (\<lambda>(v, check). check True v) (zip vs checks))"

definition tuple_check_value :: "checker list \<Rightarrow> checker" where
  "tuple_check_value args deep v =
     (case as_tuple_like v of
        None \<Rightarrow> Inl TypeError
      | Some vs \<Rightarrow>
          if deep
          then check_seq (check_if (length vs = length args) TypeError) (check_zip vs args)
          else check_ok)"

definition tuple_serialize :: "encoder list \<Rightarrow> encoder" where
  "tuple_serialize args v =
     (case as_tuple_like v of None \<Rightarrow> sraise TypeError | Some vs \<Rightarrow> encode_tuple vs args)"

definition tuple_deserialize :: "decoder list \<Rightarrow> decoder" where
  "tuple_deserialize args = sbind (decode_tuple args) (\<lambda>vs. sret (TupleV vs))"

definition vartuple_check_value :: "checker \<Rightarrow> checker" where
  "vartuple_check_value arg deep v =
     (case as_tuple_like v of
        None \<Rightarrow> Inl TypeError
      | Some vs \<Rightarrow> if deep then check_all (map (arg True) vs) else check_ok)"

definition vartuple_serialize :: "encoder \<Rightarrow> encoder" where
  "vartuple_serialize arg v =
     (case as_tuple_like v of None \<Rightarrow> sraise TypeError | Some vs \<Rightarrow> encode_collection vs arg)"

definition namedtuple_check_value :: "checker list \<Rightarrow> checker" where
  "namedtuple_check_value args deep v =
     (case as_tuple v of
        None \<Rightarrow> Inl TypeError
      | Some vs \<Rightarrow>
          check_seq (check_if (length vs = length args) TypeError)
            (if deep then check_zip vs args else check_ok))"

definition namedtuple_serialize :: "encoder list \<Rightarrow> encoder" where
  "namedtuple_serialize args v =
     (case as_tuple v of None \<Rightarrow> sraise TypeError | Some vs \<Rightarrow> encode_tuple vs args)"

definition namedtuple_deserialize :: "ustring \<Rightarrow> decoder list \<Rightarrow> decoder" where
  "namedtuple_deserialize actual_type args =
     sbind (decode_tuple args) (\<lambda>vs. sret (NamedTupleV actual_type vs))"

text \<open>
  Collections: \<open>list\<close>, \<open>deque\<close>, \<open>set\<close> and \<open>frozenset\<close> share the base class and differ in \<open>_build\<close>
  and in \<open>_check_item\<close>. Building a set hashes the items.
\<close>

definition collection_check_value :: "set_iter \<Rightarrow> (nc_value \<Rightarrow> exc + unit) \<Rightarrow> checker" where
  "collection_check_value it check_item deep v =
     (case py_iter it v of
        None \<Rightarrow> Inl TypeError
      | Some vs \<Rightarrow> if deep then check_all (map check_item vs) else check_ok)"

definition collection_serialize :: "set_iter \<Rightarrow> encoder \<Rightarrow> encoder" where
  "collection_serialize it item v =
     (case py_iter it v of None \<Rightarrow> sraise TypeError | Some vs \<Rightarrow> encode_collection vs item)"

definition set_check_item :: "checker \<Rightarrow> nc_value \<Rightarrow> exc + unit" where
  "set_check_item item v = check_seq (check_if (is_hashable_instance v) TypeError) (item True v)"

definition build_set :: "(nc_value fset \<Rightarrow> nc_value) \<Rightarrow> nc_value list \<Rightarrow> exc + nc_value" where
  "build_set cls items =
     (if list_all py_hashable items then Inr (cls (fset_of_list items)) else Inl TypeError)"

definition collection_deserialize :: "(nc_value list \<Rightarrow> exc + nc_value) \<Rightarrow> decoder \<Rightarrow> decoder" where
  "collection_deserialize build item =
     sbind (decode_collection item build) (\<lambda>r. case r of Inl e \<Rightarrow> sraise e | Inr v \<Rightarrow> sret v)"

text \<open>\<open>dict(items)\<close>: a repeated key keeps its first place and takes the last value.\<close>

definition dict_build :: "(nc_value \<times> nc_value) list \<Rightarrow> exc + nc_value" where
  "dict_build items =
     (if list_all (\<lambda>(k, v). py_hashable k) items
      then Inr (DictV (foldl (\<lambda>d (k, v). dict_put k v d) [] items)) else Inl TypeError)"

definition map_check_value :: "checker \<Rightarrow> checker \<Rightarrow> checker" where
  "map_check_value key val deep v =
     (case v of
        DictV kvs \<Rightarrow>
          if deep
          then check_all (map (\<lambda>(k, x). check_seq (key True k) (val True x)) kvs)
          else check_ok
      | _ \<Rightarrow> Inl TypeError)"

definition map_serialize :: "encoder \<Rightarrow> encoder \<Rightarrow> encoder" where
  "map_serialize key val v =
     (case v of DictV kvs \<Rightarrow> encode_mapping kvs key val | _ \<Rightarrow> sraise TypeError)"

definition map_deserialize :: "decoder \<Rightarrow> decoder \<Rightarrow> decoder" where
  "map_deserialize key val =
     sbind (decode_mapping key val dict_build) (\<lambda>r. case r of Inl e \<Rightarrow> sraise e | Inr v \<Rightarrow> sret v)"

definition signed_data_check_value :: "checker \<Rightarrow> checker" where
  "signed_data_check_value inner deep v =
     (case v of
        SignedDataV data script_input \<Rightarrow> if deep then inner True data else check_ok
      | _ \<Rightarrow> Inl TypeError)"

definition signed_data_serialize :: "encoder \<Rightarrow> encoder" where
  "signed_data_serialize inner v =
     (case v of
        SignedDataV data script_input \<Rightarrow> encode_signed_data (data, script_input) inner
      | _ \<Rightarrow> sraise AssertionError)"

definition signed_data_deserialize :: "decoder \<Rightarrow> decoder" where
  "signed_data_deserialize inner =
     sbind (decode_signed_data inner) (\<lambda>(data, script_input). sret (SignedDataV data script_input))"

text \<open>Dataclasses: the check does not look at the fields.\<close>

definition dataclass_check_value :: "ustring \<Rightarrow> nc_value \<Rightarrow> exc + unit" where
  "dataclass_check_value cls v =
     (case v of DataclassV c kvs \<Rightarrow> check_if (c = cls) TypeError | _ \<Rightarrow> Inl TypeError)"

definition dataclass_serialize :: "(ustring \<times> encoder) list \<Rightarrow> encoder" where
  "dataclass_serialize flds v =
     (case v of
        DataclassV c kvs \<Rightarrow>
          sfor flds (\<lambda>(field_name, field_serialize).
            case map_of kvs field_name of
              None \<Rightarrow> sraise AttributeError
            | Some x \<Rightarrow> field_serialize x)
      | _ \<Rightarrow> sraise AttributeError)"

definition dataclass_deserialize :: "ustring \<Rightarrow> (ustring \<times> decoder) list \<Rightarrow> decoder" where
  "dataclass_deserialize cls flds =
     sbind (decode_tuple (map snd flds)) (\<lambda>vs. sret (DataclassV cls (zip (map fst flds) vs)))"

section \<open>All types\<close>

primrec check_value_depth :: "set_iter \<Rightarrow> nc_type \<Rightarrow> checker" where
  "check_value_depth it NullNC = (\<lambda>deep. null_check_value)"
| "check_value_depth it BoolNC = (\<lambda>deep. bool_check_value)"
| "check_value_depth it (VarIntNC sgd n) = (\<lambda>deep. varint_check_value sgd n)"
| "check_value_depth it (SizedIntNC sgd n) = (\<lambda>deep. sized_int_check_value sgd n)"
| "check_value_depth it TokenVersionNC = (\<lambda>deep. sized_int_check_value False 1)"
| "check_value_depth it (BytesLikeNC c) = (\<lambda>deep. bytes_check_value)"
| "check_value_depth it StrNC = (\<lambda>deep. str_check_value)"
| "check_value_depth it (FixedSizeBytesNC c n) = (\<lambda>deep. fixed_size_bytes_check_value n)"
| "check_value_depth it AddressNC = (\<lambda>deep. address_check_value)"
| "check_value_depth it TokenUidNC = (\<lambda>deep. token_uid_check_value)"
| "check_value_depth it CallerIdNC = (\<lambda>deep. caller_id_check_value)"
| "check_value_depth it (OptionalNC t) = optional_check_value (check_value_depth it t)"
| "check_value_depth it (TupleNC ts) = tuple_check_value (map (check_value_depth it) ts)"
| "check_value_depth it (VarTupleNC t) = vartuple_check_value (check_value_depth it t)"
| "check_value_depth it (NamedTupleNC c ts) = namedtuple_check_value (map (check_value_depth it) ts)"
| "check_value_depth it (ListNC t) = collection_check_value it (check_value_depth it t True)"
| "check_value_depth it (DequeNC t) = collection_check_value it (check_value_depth it t True)"
| "check_value_depth it (SetNC t) = collection_check_value it (set_check_item (check_value_depth it t))"
| "check_value_depth it (FrozenSetNC t) = collection_check_value it (set_check_item (check_value_depth it t))"
| "check_value_depth it (DictNC k t) = map_check_value (check_value_depth it k) (check_value_depth it t)"
| "check_value_depth it (SignedDataNC t) = signed_data_check_value (check_value_depth it t)"
| "check_value_depth it (DataclassNC c flds) = (\<lambda>deep. dataclass_check_value c)"

text \<open>
  The final methods \<open>serialize\<close> and \<open>deserialize\<close> of the base class wrap the ones of the class with a
  shallow check; the compound classes call them on their components.
\<close>

definition checked_serialize :: "checker \<Rightarrow> encoder \<Rightarrow> encoder" where
  "checked_serialize check ser v = sthen (raise_check (check False v)) (ser v)"

definition checked_deserialize :: "checker \<Rightarrow> decoder \<Rightarrow> decoder" where
  "checked_deserialize check de =
     sbind de (\<lambda>v. sthen (raise_check (check False v)) (sret v))"

primrec serialize :: "set_iter \<Rightarrow> nc_type \<Rightarrow> encoder" where
  "serialize it NullNC = checked_serialize (\<lambda>deep. null_check_value) (\<lambda>v. sret ())"
| "serialize it BoolNC = checked_serialize (\<lambda>deep. bool_check_value) bool_serialize"
| "serialize it (VarIntNC sgd n) = checked_serialize (\<lambda>deep. varint_check_value sgd n) (varint_serialize sgd n)"
| "serialize it (SizedIntNC sgd n) =
     checked_serialize (\<lambda>deep. sized_int_check_value sgd n) (sized_int_serialize sgd n)"
| "serialize it TokenVersionNC =
     checked_serialize (\<lambda>deep. sized_int_check_value False 1) (sized_int_serialize False 1)"
| "serialize it (BytesLikeNC c) = checked_serialize (\<lambda>deep. bytes_check_value) bytes_serialize"
| "serialize it StrNC = checked_serialize (\<lambda>deep. str_check_value) str_serialize"
| "serialize it (FixedSizeBytesNC c n) =
     checked_serialize (\<lambda>deep. fixed_size_bytes_check_value n) (fixed_size_bytes_serialize n)"
| "serialize it AddressNC =
     checked_serialize (\<lambda>deep. address_check_value) (fixed_size_bytes_serialize ADDRESS_LEN_BYTES)"
| "serialize it TokenUidNC = checked_serialize (\<lambda>deep. token_uid_check_value) token_uid_serialize"
| "serialize it CallerIdNC = checked_serialize (\<lambda>deep. caller_id_check_value) caller_id_serialize"
| "serialize it (OptionalNC t) =
     checked_serialize (check_value_depth it (OptionalNC t)) (optional_serialize (serialize it t))"
| "serialize it (TupleNC ts) =
     checked_serialize (check_value_depth it (TupleNC ts)) (tuple_serialize (map (serialize it) ts))"
| "serialize it (VarTupleNC t) =
     checked_serialize (check_value_depth it (VarTupleNC t)) (vartuple_serialize (serialize it t))"
| "serialize it (NamedTupleNC c ts) =
     checked_serialize (check_value_depth it (NamedTupleNC c ts)) (namedtuple_serialize (map (serialize it) ts))"
| "serialize it (ListNC t) =
     checked_serialize (check_value_depth it (ListNC t)) (collection_serialize it (serialize it t))"
| "serialize it (DequeNC t) =
     checked_serialize (check_value_depth it (DequeNC t)) (collection_serialize it (serialize it t))"
| "serialize it (SetNC t) =
     checked_serialize (check_value_depth it (SetNC t)) (collection_serialize it (serialize it t))"
| "serialize it (FrozenSetNC t) =
     checked_serialize (check_value_depth it (FrozenSetNC t)) (collection_serialize it (serialize it t))"
| "serialize it (DictNC k t) =
     checked_serialize (check_value_depth it (DictNC k t)) (map_serialize (serialize it k) (serialize it t))"
| "serialize it (SignedDataNC t) =
     checked_serialize (check_value_depth it (SignedDataNC t)) (signed_data_serialize (serialize it t))"
| "serialize it (DataclassNC c flds) =
     checked_serialize (check_value_depth it (DataclassNC c flds))
       (dataclass_serialize (map (map_prod (\<lambda>n. n) (serialize it)) flds))"

primrec deserialize :: "set_iter \<Rightarrow> nc_type \<Rightarrow> decoder" where
  "deserialize it NullNC = checked_deserialize (\<lambda>deep. null_check_value) (sret NoneV)"
| "deserialize it BoolNC = checked_deserialize (\<lambda>deep. bool_check_value) bool_deserialize"
| "deserialize it (VarIntNC sgd n) =
     checked_deserialize (\<lambda>deep. varint_check_value sgd n) (varint_deserialize sgd n)"
| "deserialize it (SizedIntNC sgd n) =
     checked_deserialize (\<lambda>deep. sized_int_check_value sgd n) (sized_int_deserialize sgd n)"
| "deserialize it TokenVersionNC =
     checked_deserialize (\<lambda>deep. sized_int_check_value False 1) token_version_deserialize"
| "deserialize it (BytesLikeNC c) = checked_deserialize (\<lambda>deep. bytes_check_value) (bytes_deserialize c)"
| "deserialize it StrNC = checked_deserialize (\<lambda>deep. str_check_value) str_deserialize"
| "deserialize it (FixedSizeBytesNC c n) =
     checked_deserialize (\<lambda>deep. fixed_size_bytes_check_value n) (fixed_size_bytes_deserialize c n)"
| "deserialize it AddressNC = checked_deserialize (\<lambda>deep. address_check_value) address_deserialize"
| "deserialize it TokenUidNC = checked_deserialize (\<lambda>deep. token_uid_check_value) token_uid_deserialize"
| "deserialize it CallerIdNC = checked_deserialize (\<lambda>deep. caller_id_check_value) caller_id_deserialize"
| "deserialize it (OptionalNC t) =
     checked_deserialize (check_value_depth it (OptionalNC t)) (optional_deserialize (deserialize it t))"
| "deserialize it (TupleNC ts) =
     checked_deserialize (check_value_depth it (TupleNC ts)) (tuple_deserialize (map (deserialize it) ts))"
| "deserialize it (VarTupleNC t) =
     checked_deserialize (check_value_depth it (VarTupleNC t))
       (collection_deserialize (\<lambda>vs. Inr (TupleV vs)) (deserialize it t))"
| "deserialize it (NamedTupleNC c ts) =
     checked_deserialize (check_value_depth it (NamedTupleNC c ts))
       (namedtuple_deserialize c (map (deserialize it) ts))"
| "deserialize it (ListNC t) =
     checked_deserialize (check_value_depth it (ListNC t))
       (collection_deserialize (\<lambda>vs. Inr (ListV vs)) (deserialize it t))"
| "deserialize it (DequeNC t) =
     checked_deserialize (check_value_depth it (DequeNC t))
       (collection_deserialize (\<lambda>vs. Inr (DequeV vs)) (deserialize it t))"
| "deserialize it (SetNC t) =
     checked_deserialize (check_value_depth it (SetNC t))
       (collection_deserialize (build_set SetV) (deserialize it t))"
| "deserialize it (FrozenSetNC t) =
     checked_deserialize (check_value_depth it (FrozenSetNC t))
       (collection_deserialize (build_set FrozenSetV) (deserialize it t))"
| "deserialize it (DictNC k t) =
     checked_deserialize (check_value_depth it (DictNC k t))
       (map_deserialize (deserialize it k) (deserialize it t))"
| "deserialize it (SignedDataNC t) =
     checked_deserialize (check_value_depth it (SignedDataNC t)) (signed_data_deserialize (deserialize it t))"
| "deserialize it (DataclassNC c flds) =
     checked_deserialize (check_value_depth it (DataclassNC c flds))
       (dataclass_deserialize c (map (map_prod (\<lambda>n. n) (deserialize it)) flds))"

definition check_value :: "set_iter \<Rightarrow> nc_type \<Rightarrow> nc_value \<Rightarrow> exc + unit" where
  "check_value it t v = check_value_depth it t True v"

definition to_bytes :: "set_iter \<Rightarrow> nc_type \<Rightarrow> nc_value \<Rightarrow> exc + bytes" where
  "to_bytes it t v =
     (case serialize it t v build_bytes_serializer of
        (Inl e, _) \<Rightarrow> Inl e | (Inr _, s) \<Rightarrow> Inr (ser_finalize s))"

definition from_bytes :: "set_iter \<Rightarrow> nc_type \<Rightarrow> bytes \<Rightarrow> exc + nc_value" where
  "from_bytes it t data =
     fst (sbind (deserialize it t) (\<lambda>v. sthen de_finalize (sret v)) (build_bytes_deserializer data))"

section \<open>Attributes in the contract storage\<close>

text \<open>
  \<open>MaybeDeletedNCType\<close>: a value of the wrapped type, or \<open>DeletedKey\<close> (here \<open>None\<close>). The wrapped
  type is missing when a key is deleted.
\<close>

definition is_deleted_key :: "bytes \<Rightarrow> exc + bool" where
  "is_deleted_key data =
     fst (sbind decode_bool (\<lambda>has_value. sret (\<not> has_value)) (build_bytes_deserializer data))"

definition maybe_deleted_check_value ::
    "set_iter \<Rightarrow> nc_type option \<Rightarrow> bool \<Rightarrow> nc_value option \<Rightarrow> exc + unit" where
  "maybe_deleted_check_value it inner deep v =
     (case v of
        None \<Rightarrow> check_ok
      | Some x \<Rightarrow>
          if deep
          then (case inner of None \<Rightarrow> Inl ValueError | Some t \<Rightarrow> check_value_depth it t deep x)
          else check_ok)"

definition maybe_deleted_serialize ::
    "set_iter \<Rightarrow> nc_type option \<Rightarrow> nc_value option \<Rightarrow> (serializer, unit) sm" where
  "maybe_deleted_serialize it inner v =
     sthen (raise_check (maybe_deleted_check_value it inner False v))
       (case v of
          None \<Rightarrow> encode_bool False
        | Some x \<Rightarrow>
            (case inner of
               None \<Rightarrow> sraise ValueError
             | Some t \<Rightarrow> sthen (encode_bool True) (serialize it t x)))"

definition maybe_deleted_deserialize ::
    "set_iter \<Rightarrow> nc_type option \<Rightarrow> (deserializer, nc_value option) sm" where
  "maybe_deleted_deserialize it inner =
     sbind (sbind decode_bool (\<lambda>has_value.
              if has_value
              then (case inner of
                      None \<Rightarrow> sraise ValueError
                    | Some t \<Rightarrow> sbind (deserialize it t) (\<lambda>x. sret (Some x)))
              else sret None)) (\<lambda>v.
     sthen (raise_check (maybe_deleted_check_value it inner False v)) (sret v))"

definition maybe_deleted_to_bytes ::
    "set_iter \<Rightarrow> nc_type option \<Rightarrow> nc_value option \<Rightarrow> exc + bytes" where
  "maybe_deleted_to_bytes it inner v =
     (case maybe_deleted_serialize it inner v build_bytes_serializer of
        (Inl e, _) \<Rightarrow> Inl e | (Inr _, s) \<Rightarrow> Inr (ser_finalize s))"

definition maybe_deleted_from_bytes ::
    "set_iter \<Rightarrow> nc_type option \<Rightarrow> bytes \<Rightarrow> exc + nc_value option" where
  "maybe_deleted_from_bytes it inner data =
     fst (sbind (maybe_deleted_deserialize it inner) (\<lambda>v. sthen de_finalize (sret v))
       (build_bytes_deserializer data))"

end
