(* ===== verification/NC_Type_Codec.thy ===== *)
theory NC_Type_Codec
  imports NC_Types
begin

text \<open>
  Every \<open>NCType\<close> obeys the codec law on the values of its type, and what that gives for
  \<open>to_bytes\<close>/\<open>from_bytes\<close> and for the attributes of the contract storage.
\<close>

section \<open>The values of a type\<close>

text \<open>
  \<open>typed it t v\<close>: \<open>v\<close> is a Python value of the class that \<open>t\<close> deserializes to (a list passed where a
  tuple is expected, say, is accepted by the check but comes back as a tuple). A set comes with an
  iteration order that lists its elements once.
\<close>

definition iterates :: "set_iter \<Rightarrow> nc_value fset \<Rightarrow> bool" where
  "iterates it S \<longleftrightarrow> distinct (it S) \<and> fset_of_list (it S) = S"

primrec typed :: "set_iter \<Rightarrow> nc_type \<Rightarrow> nc_value \<Rightarrow> bool" where
  "typed it NullNC = (\<lambda>v. v = NoneV)"
| "typed it BoolNC = (\<lambda>v. case v of BoolV _ \<Rightarrow> True | _ \<Rightarrow> False)"
| "typed it (VarIntNC sgd n) = (\<lambda>v. case v of IntV _ \<Rightarrow> True | _ \<Rightarrow> False)"
| "typed it (SizedIntNC sgd n) = (\<lambda>v. case v of IntV _ \<Rightarrow> True | _ \<Rightarrow> False)"
| "typed it TokenVersionNC = (\<lambda>v. v \<in> {IntV 0, IntV 1, IntV 2})"
| "typed it (BytesLikeNC c) = (\<lambda>v. case v of BytesV c' _ \<Rightarrow> c' = c | _ \<Rightarrow> False)"
| "typed it StrNC = (\<lambda>v. case v of StrV _ \<Rightarrow> True | _ \<Rightarrow> False)"
| "typed it (FixedSizeBytesNC c n) = (\<lambda>v. case v of BytesV c' _ \<Rightarrow> c' = c | _ \<Rightarrow> False)"
| "typed it AddressNC = (\<lambda>v. case v of BytesV c _ \<Rightarrow> c = AddressClass | _ \<Rightarrow> False)"
| "typed it TokenUidNC = (\<lambda>v. case v of BytesV c _ \<Rightarrow> c = TokenUidClass | _ \<Rightarrow> False)"
| "typed it CallerIdNC = (\<lambda>v. as_caller_id v \<noteq> None)"
| "typed it (OptionalNC t) = (\<lambda>v. v = NoneV \<or> typed it t v)"
| "typed it (TupleNC ts) =
     (\<lambda>v. case v of TupleV vs \<Rightarrow> list_all2 (\<lambda>p. p) (map (typed it) ts) vs | _ \<Rightarrow> False)"
| "typed it (VarTupleNC t) = (\<lambda>v. case v of TupleV vs \<Rightarrow> list_all (typed it t) vs | _ \<Rightarrow> False)"
| "typed it (NamedTupleNC c ts) =
     (\<lambda>v. case v of NamedTupleV c' vs \<Rightarrow> c' = c \<and> list_all2 (\<lambda>p. p) (map (typed it) ts) vs
          | _ \<Rightarrow> False)"
| "typed it (ListNC t) = (\<lambda>v. case v of ListV vs \<Rightarrow> list_all (typed it t) vs | _ \<Rightarrow> False)"
| "typed it (DequeNC t) = (\<lambda>v. case v of DequeV vs \<Rightarrow> list_all (typed it t) vs | _ \<Rightarrow> False)"
| "typed it (SetNC t) =
     (\<lambda>v. case v of
            SetV S \<Rightarrow> iterates it S \<and> list_all (\<lambda>x. py_hashable x \<and> typed it t x) (it S)
          | _ \<Rightarrow> False)"
| "typed it (FrozenSetNC t) =
     (\<lambda>v. case v of
            FrozenSetV S \<Rightarrow> iterates it S \<and> list_all (\<lambda>x. py_hashable x \<and> typed it t x) (it S)
          | _ \<Rightarrow> False)"
| "typed it (DictNC k t) =
     (\<lambda>v. case v of
            DictV kvs \<Rightarrow> distinct (map fst kvs) \<and>
              list_all (\<lambda>(x, y). py_hashable x \<and> typed it k x \<and> typed it t y) kvs
          | _ \<Rightarrow> False)"
| "typed it (SignedDataNC t) = (\<lambda>v. case v of SignedDataV x _ \<Rightarrow> typed it t x | _ \<Rightarrow> False)"
| "typed it (DataclassNC c flds) =
     (\<lambda>v. case v of
            DataclassV c' kvs \<Rightarrow> c' = c \<and> map fst kvs = map fst flds \<and> distinct (map fst kvs) \<and>
              list_all2 (\<lambda>p (k, x). snd p x) (map (map_prod (\<lambda>n. n) (typed it)) flds) kvs
          | _ \<Rightarrow> False)"

section \<open>The codec law, class by class\<close>

lemma raise_check_Inr [simp]: "raise_check c s = (Inr u, s') \<longleftrightarrow> c = check_ok \<and> s' = s"
  by (auto simp: raise_check_def split: sum.splits)

lemma raise_check_ok [simp]: "raise_check check_ok = sret ()"
  by (simp add: raise_check_def)

lemma reads_back_catch_too_long:
  "reads_back dec v s t \<Longrightarrow> reads_back (catch_too_long dec) v s t"
  by (auto simp: reads_back_def catch_too_long_def)

lemma catch_too_long_Inr [simp]: "catch_too_long m s = (Inr x, s') \<longleftrightarrow> m s = (Inr x, s')"
  by (auto simp: catch_too_long_def split: prod.splits sum.splits)

lemma codec_checked:
  assumes "codec ser de ok"
  shows "codec (checked_serialize check ser) (checked_deserialize check de) ok"
proof
  fix v s u s'
  assume ok: "ok v" and "checked_serialize check ser v s = (Inr u, s')"
  then have c: "check False v = check_ok" and ser: "ser v s = (Inr u, s')"
    by (auto simp: checked_serialize_def sthen_Inr)
  show "reads_back (checked_deserialize check de) v s s'"
    unfolding checked_deserialize_def
    by (rule reads_back_sbind [OF codec.round_trip [OF assms ok ser]])
       (simp add: c sthen_def reads_back_sret)
qed

text \<open>A codec of raw values gives a codec of the \<open>nc_value\<close>s that carry them.\<close>

lemma codec_wrap:
  assumes "codec enc dec ok" and "\<And>x. ok x \<Longrightarrow> wenc (wrap x) = enc x"
  shows "codec wenc (sbind dec (\<lambda>x. sret (wrap x))) (\<lambda>v. \<exists>x. v = wrap x \<and> ok x)"
  by unfold_locales
     (use assms in \<open>auto intro!: reads_back_map codec.round_trip [OF assms(1)]\<close>)

lemma codec_ok_mono:
  assumes "codec enc dec ok" and "\<And>v. ok' v \<Longrightarrow> ok v"
  shows "codec enc dec ok'"
  using assms by (auto simp: codec_def)

context codec
begin

lemma max_bytes_codec: "codec (\<lambda>v. with_max_bytes n (enc v)) (de_with_max_bytes n dec) ok"
  by unfold_locales (rule max_bytes_round_trip)

lemma catch_too_long_codec: "codec (\<lambda>v. catch_too_long (enc v)) (catch_too_long dec) ok"
  by unfold_locales (auto intro: reads_back_catch_too_long round_trip)

text \<open>A collection whose builder gives back the value the items were taken from.\<close>

lemma collection_build_round_trip:
  assumes "list_all ok vs" and "encode_collection vs enc s = (Inr u, s')" and "build vs = Inr v"
  shows "reads_back (sbind (decode_collection dec build)
                       (\<lambda>r. case r of Inl e \<Rightarrow> sraise e | Inr v \<Rightarrow> sret v)) v s s'"
proof -
  have "reads_back (decode_collection dec (\<lambda>xs. xs)) vs s s'"
    using codec.round_trip [OF collection_codec _ assms(2)] assms(1) by (simp add: list_all_iff)
  then have "reads_back (decode_collection dec build) (Inr v) s s'"
    using reads_back_map [of "decode_collection dec (\<lambda>xs. xs)" vs s s' build] assms(3)
    by (simp add: decode_collection_def sbind_assoc)
  then show ?thesis by (rule reads_back_sbind) (simp add: reads_back_sret)
qed

end

lemma null_codec: "codec (\<lambda>v. sret ()) (sret NoneV) (\<lambda>v. v = NoneV)"
  by unfold_locales (auto intro: reads_back_sret)

lemma bool_codec: "codec bool_serialize bool_deserialize (\<lambda>v. \<exists>b. v = BoolV b \<and> True)"
  unfolding bool_deserialize_def
  by (rule codec_wrap [OF boolean.codec_axioms]) (simp add: bool_serialize_def)

lemma varint_codec:
  "codec (varint_serialize sgd n) (varint_deserialize sgd n) (\<lambda>v. \<exists>i. v = IntV i \<and> True)"
  unfolding varint_deserialize_def
  by (rule codec_wrap [OF codec.catch_too_long_codec [OF leb128.max_bytes_codec]])
     (simp add: varint_serialize_def)

lemma sized_int_codec:
  "codec (sized_int_serialize sgd n) (sized_int_deserialize sgd n) (\<lambda>v. \<exists>i. v = IntV i \<and> True)"
  unfolding sized_int_deserialize_def
  by (rule codec_wrap [OF fixed_int.codec_axioms]) (simp add: sized_int_serialize_def)

lemma token_version_codec:
  "codec (sized_int_serialize False 1) token_version_deserialize (\<lambda>v. v \<in> {IntV 0, IntV 1, IntV 2})"
proof
  fix v s u s'
  assume v: "v \<in> {IntV 0, IntV 1, IntV 2}" and enc: "sized_int_serialize False 1 v s = (Inr u, s')"
  have "reads_back (sized_int_deserialize False 1) v s s'"
    using v by (intro codec.round_trip [OF sized_int_codec _ enc]) auto
  then show "reads_back token_version_deserialize v s s'"
    unfolding token_version_deserialize_def
    by (rule reads_back_sbind) (use v in \<open>simp add: reads_back_sret\<close>)
qed

lemma str_codec: "codec str_serialize str_deserialize (\<lambda>v. \<exists>x. v = StrV x \<and> True)"
  unfolding str_deserialize_def
  by (rule codec_wrap [OF utf8.max_bytes_codec]) (simp add: str_serialize_def)

lemma bytes_codec: "codec bytes_serialize (bytes_deserialize c) (\<lambda>v. \<exists>b. v = BytesV c b \<and> True)"
  unfolding bytes_deserialize_def
  by (rule codec_wrap [OF raw_bytes.max_bytes_codec]) (simp add: bytes_serialize_def)

lemma exact_bytes_codec: "codec write_bytes (read_bytes (int n) True) (\<lambda>b. length b = n)"
  by unfold_locales (auto intro: reads_back_read_bytes)

lemma fixed_size_bytes_codec:
  "codec (fixed_size_bytes_serialize n) (fixed_size_bytes_deserialize c n)
     (\<lambda>v. case v of BytesV c' b \<Rightarrow> c' = c | _ \<Rightarrow> False)"
proof
  fix v s u s'
  assume "case v of BytesV c' b \<Rightarrow> c' = c | _ \<Rightarrow> False"
    and enc: "fixed_size_bytes_serialize n v s = (Inr u, s')"
  then obtain b where v: "v = BytesV c b" by (cases v) auto
  then have b: "length b = n" "write_bytes b s = (Inr u, s')"
    using enc by (auto simp: fixed_size_bytes_serialize_def sthen_Inr)
  show "reads_back (fixed_size_bytes_deserialize c n) v s s'"
    unfolding fixed_size_bytes_deserialize_def v
    by (rule reads_back_map [OF codec.round_trip [OF exact_bytes_codec b]])
qed

lemma address_codec:
  "codec (fixed_size_bytes_serialize ADDRESS_LEN_BYTES) address_deserialize
     (\<lambda>v. case v of BytesV c _ \<Rightarrow> c = AddressClass | _ \<Rightarrow> False)"
  using fixed_size_bytes_codec [of ADDRESS_LEN_BYTES AddressClass]
  by (simp only: fixed_size_bytes_deserialize_def address_deserialize_def)

lemma token_uid_codec:
  "codec token_uid_serialize token_uid_deserialize
     (\<lambda>v. case v of BytesV c _ \<Rightarrow> c = TokenUidClass | _ \<Rightarrow> False)"
proof
  fix v s u s'
  assume "case v of BytesV c _ \<Rightarrow> c = TokenUidClass | _ \<Rightarrow> False"
    and enc: "token_uid_serialize v s = (Inr u, s')"
  then obtain b where v: "v = BytesV TokenUidClass b" by (cases v) auto
  let ?raw = "if b = HATHOR_TOKEN_UID then None else Some (BytesV PlainBytes b)"
  note inner = codec.optional_codec [OF codec_checked [OF fixed_size_bytes_codec [of 32 PlainBytes]],
      of "\<lambda>deep. fixed_size_bytes_check_value 32"]
  have "reads_back (decode_optional (checked_deserialize (\<lambda>deep. fixed_size_bytes_check_value 32)
          (fixed_size_bytes_deserialize PlainBytes 32))) ?raw s s'"
    using enc v
    by (intro codec.round_trip [OF inner]) (auto simp: token_uid_serialize_def checked_serialize_def [abs_def])
  from reads_back_map [OF this, of "\<lambda>raw. BytesV TokenUidClass
        (case raw of None \<Rightarrow> HATHOR_TOKEN_UID | Some v \<Rightarrow> the (as_bytes v))"]
  show "reads_back token_uid_deserialize v s s'"
    by (simp add: token_uid_deserialize_def checked_deserialize_def v split: if_splits)
qed

lemma caller_id_nc_codec: "codec caller_id_serialize caller_id_deserialize (\<lambda>v. as_caller_id v \<noteq> None)"
proof -
  have "codec caller_id_serialize caller_id_deserialize (\<lambda>v. \<exists>c. v = of_caller_id c \<and> True)"
    unfolding caller_id_deserialize_def
  proof (rule codec_wrap [OF caller_id.codec_axioms])
    show "caller_id_serialize (of_caller_id c) = encode_caller_id c" for c
      by (cases c) (simp_all add: caller_id_serialize_def fun_eq_iff)
  qed
  then show ?thesis
  proof (rule codec_ok_mono)
    show "\<exists>c. v = of_caller_id c \<and> True" if "as_caller_id v \<noteq> None" for v
      using that by (cases v rule: as_caller_id.cases) (auto intro: of_caller_id.simps [symmetric])
  qed
qed

section \<open>Compound types\<close>

lemma optional_nc_codec:
  assumes "codec enc dec ok"
  shows "codec (optional_serialize enc) (optional_deserialize dec) (\<lambda>v. v = NoneV \<or> ok v)"
proof
  fix v s u s'
  assume "v = NoneV \<or> ok v" and enc: "optional_serialize enc v s = (Inr u, s')"
  then have "reads_back (decode_optional dec) (if v = NoneV then None else Some v) s s'"
    by (intro codec.round_trip [OF codec.optional_codec [OF assms]])
       (auto simp: optional_serialize_def)
  from reads_back_map [OF this, of "\<lambda>r. case r of None \<Rightarrow> NoneV | Some v \<Rightarrow> v"]
  show "reads_back (optional_deserialize dec) v s s'"
    by (simp add: optional_deserialize_def split: if_splits)
qed

lemma encode_tuple_round_trip:
  assumes "\<forall>t \<in> set ts. codec (f t) (g t) (h t)" and "list_all2 h ts vs"
    and "encode_tuple vs (map f ts) s = (Inr u, s')"
  shows "reads_back (decode_tuple (map g ts)) vs s s'"
  using assms
proof (induction ts arbitrary: vs s)
  case Nil
  then show ?case by (auto simp: encode_tuple_def sthen_Inr intro: reads_back_sret)
next
  case (Cons t ts)
  then obtain x xs where vs: "vs = x # xs" "h t x" "list_all2 h ts xs"
    by (auto simp: list_all2_Cons1)
  then obtain u' s1 where x: "f t x s = (Inr u', s1)" and xs: "encode_tuple xs (map f ts) s1 = (Inr u, s')"
    using Cons.prems(3) by (auto simp: encode_tuple_def sthen_Inr)
  have "reads_back (g t) x s s1"
    using Cons.prems(1) vs(2) x by (intro codec.round_trip [where enc = "f t" and ok = "h t"]) auto
  moreover have "reads_back (decode_tuple (map g ts)) xs s1 s'"
    using Cons.IH [OF _ vs(3) xs] Cons.prems(1) by simp
  ultimately show ?case
    unfolding vs by (auto intro!: reads_back_sbind reads_back_sret)
qed

lemma list_all2_map_id [simp]: "list_all2 (\<lambda>p. p) (map f ts) vs \<longleftrightarrow> list_all2 f ts vs"
  by (simp add: list_all2_map1)

lemma tuple_codec:
  assumes "\<forall>t \<in> set ts. codec (f t) (g t) (h t)"
  shows "codec (tuple_serialize (map f ts)) (tuple_deserialize (map g ts))
           (\<lambda>v. case v of TupleV vs \<Rightarrow> list_all2 h ts vs | _ \<Rightarrow> False)"
proof
  fix v s u s'
  assume "case v of TupleV vs \<Rightarrow> list_all2 h ts vs | _ \<Rightarrow> False"
    and enc: "tuple_serialize (map f ts) v s = (Inr u, s')"
  then obtain vs where v: "v = TupleV vs" "list_all2 h ts vs" by (cases v) auto
  with enc show "reads_back (tuple_deserialize (map g ts)) v s s'"
    unfolding tuple_deserialize_def v(1)
    by (intro reads_back_map encode_tuple_round_trip [OF assms v(2)]) (simp add: tuple_serialize_def)
qed

lemma namedtuple_codec:
  assumes "\<forall>t \<in> set ts. codec (f t) (g t) (h t)"
  shows "codec (namedtuple_serialize (map f ts)) (namedtuple_deserialize c (map g ts))
           (\<lambda>v. case v of NamedTupleV c' vs \<Rightarrow> c' = c \<and> list_all2 h ts vs | _ \<Rightarrow> False)"
proof
  fix v s u s'
  assume "case v of NamedTupleV c' vs \<Rightarrow> c' = c \<and> list_all2 h ts vs | _ \<Rightarrow> False"
    and enc: "namedtuple_serialize (map f ts) v s = (Inr u, s')"
  then obtain vs where v: "v = NamedTupleV c vs" "list_all2 h ts vs" by (cases v) auto
  with enc show "reads_back (namedtuple_deserialize c (map g ts)) v s s'"
    unfolding namedtuple_deserialize_def v(1)
    by (intro reads_back_map encode_tuple_round_trip [OF assms v(2)]) (simp add: namedtuple_serialize_def)
qed

text \<open>
  The collections: the value iterates over items of the item type, and the builder of the class makes
  the value of these items again.
\<close>

lemma collection_nc_codec:
  assumes "codec enc dec ok"
    and "\<And>v. ok' v \<Longrightarrow> \<exists>vs. py_iter it v = Some vs \<and> list_all ok vs \<and> build vs = Inr v"
  shows "codec (collection_serialize it enc) (collection_deserialize build dec) ok'"
proof
  fix v s u s'
  assume "ok' v" and enc: "collection_serialize it enc v s = (Inr u, s')"
  then obtain vs where vs: "py_iter it v = Some vs" "list_all ok vs" "build vs = Inr v"
    using assms(2) by blast
  then show "reads_back (collection_deserialize build dec) v s s'"
    unfolding collection_deserialize_def
    using codec.collection_build_round_trip [where build = build, OF assms(1) vs(2) _ vs(3)] enc
    by (simp add: collection_serialize_def)
qed

lemma vartuple_codec:
  assumes "codec enc dec ok"
  shows "codec (vartuple_serialize enc) (collection_deserialize (\<lambda>vs. Inr (TupleV vs)) dec)
           (\<lambda>v. case v of TupleV vs \<Rightarrow> list_all ok vs | _ \<Rightarrow> False)"
proof
  fix v s u s'
  assume "case v of TupleV vs \<Rightarrow> list_all ok vs | _ \<Rightarrow> False"
    and enc: "vartuple_serialize enc v s = (Inr u, s')"
  then obtain vs where v: "v = TupleV vs" "list_all ok vs" by (cases v) auto
  then show "reads_back (collection_deserialize (\<lambda>vs. Inr (TupleV vs)) dec) v s s'"
    unfolding collection_deserialize_def
    using codec.collection_build_round_trip [OF assms v(2), of s u s' "\<lambda>vs. Inr (TupleV vs)"] enc
    by (simp add: vartuple_serialize_def)
qed

lemma build_set_iterates:
  "iterates it S \<Longrightarrow> list_all py_hashable (it S) \<Longrightarrow> build_set cls (it S) = Inr (cls S)"
  by (simp add: build_set_def iterates_def)

text \<open>Dictionaries: distinct keys are put one behind the other.\<close>

lemma dict_build_distinct:
  assumes "distinct (map fst kvs)" and "list_all (\<lambda>(k, v). py_hashable k) kvs"
  shows "dict_build kvs = Inr (DictV kvs)"
proof -
  have "distinct (map fst (d @ kvs)) \<Longrightarrow> foldl (\<lambda>d (k, v). dict_put k v d) d kvs = d @ kvs" for d
  proof (induction kvs arbitrary: d)
    case (Cons kv kvs)
    then show ?case by (cases kv) (auto simp: dict_put_new)
  qed simp
  from this [of "[]"] assms show ?thesis by (simp add: dict_build_def)
qed

lemma map_nc_codec:
  assumes "codec enck deck okk" and "codec encv decv okv"
  shows "codec (map_serialize enck encv) (map_deserialize deck decv)
           (\<lambda>v. case v of DictV kvs \<Rightarrow> distinct (map fst kvs) \<and>
                    list_all (\<lambda>(x, y). py_hashable x \<and> okk x \<and> okv y) kvs | _ \<Rightarrow> False)"
proof
  fix v s u s'
  assume "case v of DictV kvs \<Rightarrow> distinct (map fst kvs) \<and>
                    list_all (\<lambda>(x, y). py_hashable x \<and> okk x \<and> okv y) kvs | _ \<Rightarrow> False"
    and enc: "map_serialize enck encv v s = (Inr u, s')"
  then obtain kvs where v: "v = DictV kvs" "distinct (map fst kvs)"
      "list_all (\<lambda>(x, y). py_hashable x \<and> okk x \<and> okv y) kvs"
    by (cases v) auto
  have pair: "codec_pair enck deck okk encv decv okv"
    using assms by (simp add: codec_pair_def)
  have "reads_back (decode_mapping deck decv (\<lambda>xs. xs)) kvs s s'"
    using enc v by (intro codec.round_trip [OF codec_pair.mapping_codec [OF pair]])
      (auto simp: map_serialize_def list_all_iff)
  from reads_back_map [OF this, of dict_build]
  have "reads_back (decode_mapping deck decv dict_build) (Inr v) s s'"
    using dict_build_distinct [OF v(2)] v(3)
    by (simp add: decode_mapping_def sbind_assoc v(1) list_all_iff case_prod_unfold)
  then show "reads_back (map_deserialize deck decv) v s s'"
    unfolding map_deserialize_def by (rule reads_back_sbind) (simp add: reads_back_sret)
qed

lemma signed_data_nc_codec:
  assumes "codec enc dec ok"
  shows "codec (signed_data_serialize enc) (signed_data_deserialize dec)
           (\<lambda>v. case v of SignedDataV x _ \<Rightarrow> ok x | _ \<Rightarrow> False)"
proof -
  have "codec (signed_data_serialize enc)
          (sbind (decode_signed_data dec) (\<lambda>x. sret ((\<lambda>(data, si). SignedDataV data si) x)))
          (\<lambda>v. \<exists>x. v = (\<lambda>(data, si). SignedDataV data si) x \<and> ok (fst x))"
    by (rule codec_wrap [OF codec.signed_data_codec [OF assms]])
       (auto simp: signed_data_serialize_def split: prod.splits)
  then have "codec (signed_data_serialize enc) (signed_data_deserialize dec)
          (\<lambda>v. \<exists>x. v = (\<lambda>(data, si). SignedDataV data si) x \<and> ok (fst x))"
    by (simp add: signed_data_deserialize_def case_prod_unfold)
  then show ?thesis
    by (rule codec_ok_mono) (auto split: nc_value.splits)
qed

lemma dataclass_codec:
  assumes "\<forall>p \<in> set flds. codec (f (snd p)) (g (snd p)) (h (snd p))"
  shows "codec (dataclass_serialize (map (map_prod (\<lambda>n. n) f) flds))
           (dataclass_deserialize c (map (map_prod (\<lambda>n. n) g) flds))
           (\<lambda>v. case v of
              DataclassV c' kvs \<Rightarrow> c' = c \<and> map fst kvs = map fst flds \<and> distinct (map fst kvs) \<and>
                list_all2 (\<lambda>p (k, x). snd p x) (map (map_prod (\<lambda>n. n) h) flds) kvs
            | _ \<Rightarrow> False)"
    (is "codec _ _ ?ok")
proof
  fix v s u s'
  assume "?ok v" and enc: "dataclass_serialize (map (map_prod (\<lambda>n. n) f) flds) v s = (Inr u, s')"
  then obtain kvs where v: "v = DataclassV c kvs" "map fst kvs = map fst flds" "distinct (map fst kvs)"
      "list_all2 (\<lambda>p (k, x). h (snd p) x) flds kvs"
    by (cases v) (auto simp: list_all2_map1)
  have len: "length kvs = length flds" using v(2) map_eq_imp_length_eq by blast
  have get: "map_of kvs k = Some x" if "(k, x) \<in> set kvs" for k x
    using v(3) that by simp
  have "sfor (map (map_prod (\<lambda>n. n) f) flds') (\<lambda>(n, ser).
          case map_of kvs n of None \<Rightarrow> sraise AttributeError | Some x \<Rightarrow> ser x)
        = sfor (zip (map snd kvs') (map (\<lambda>p. f (snd p)) flds')) (\<lambda>(v, encoder). encoder v)"
    if "map fst kvs' = map fst flds'" "set kvs' \<subseteq> set kvs" for kvs' and flds' :: "(ustring \<times> 'a) list"
    using that
  proof (induction flds' arbitrary: kvs')
    case (Cons p flds')
    then obtain kv kvs'' where kv: "kvs' = kv # kvs''" "fst kv = fst p" by (cases kvs') auto
    then have "map_of kvs (fst p) = Some (snd kv)" using Cons.prems(2) get [of "fst kv" "snd kv"] by (cases kv) simp
    with kv Cons show ?case by (cases p) (simp add: case_prod_unfold)
  qed simp
  from this [OF v(2)] have "encode_tuple (map snd kvs) (map (\<lambda>p. f (snd p)) flds) s = (Inr u, s')"
    using enc v(1) len by (simp add: dataclass_serialize_def encode_tuple_def sthen_def sassert_def)
  then have "reads_back (decode_tuple (map (\<lambda>p. g (snd p)) flds)) (map snd kvs) s s'"
    using assms v(4)
    by (intro encode_tuple_round_trip [where h = "\<lambda>p. h (snd p)"])
       (auto simp: list_all2_map2 case_prod_unfold)
  from reads_back_map [OF this, of "\<lambda>vs. DataclassV c (zip (map fst flds) vs)"]
  show "reads_back (dataclass_deserialize c (map (map_prod (\<lambda>n. n) g) flds)) v s s'"
    by (simp add: dataclass_deserialize_def comp_def v(1) v(2) [symmetric] zip_map_fst_snd)
qed

section \<open>Every type is a codec\<close>

lemmas nc_simps = serialize.simps deserialize.simps typed.simps

lemma typed_leaf:
  "(case v of BoolV _ \<Rightarrow> True | _ \<Rightarrow> False) \<longleftrightarrow> (\<exists>b. v = BoolV b \<and> True)"
  "(case v of IntV _ \<Rightarrow> True | _ \<Rightarrow> False) \<longleftrightarrow> (\<exists>i. v = IntV i \<and> True)"
  "(case v of StrV _ \<Rightarrow> True | _ \<Rightarrow> False) \<longleftrightarrow> (\<exists>x. v = StrV x \<and> True)"
  "(case v of BytesV c' _ \<Rightarrow> c' = c | _ \<Rightarrow> False) \<longleftrightarrow> (\<exists>b. v = BytesV c b \<and> True)"
  by (cases v; simp)+

lemma sequence_items:
  "(case v of ListV vs \<Rightarrow> list_all ok vs | _ \<Rightarrow> False) \<Longrightarrow>
     \<exists>vs. py_iter it v = Some vs \<and> list_all ok vs \<and> Inr (ListV vs) = Inr v"
  "(case v of DequeV vs \<Rightarrow> list_all ok vs | _ \<Rightarrow> False) \<Longrightarrow>
     \<exists>vs. py_iter it v = Some vs \<and> list_all ok vs \<and> Inr (DequeV vs) = Inr v"
  by (cases v; simp)+

lemma set_items:
  "(case v of SetV S \<Rightarrow> iterates it S \<and> list_all (\<lambda>x. py_hashable x \<and> ok x) (it S) | _ \<Rightarrow> False) \<Longrightarrow>
     \<exists>vs. py_iter it v = Some vs \<and> list_all ok vs \<and> build_set SetV vs = Inr v"
  "(case v of FrozenSetV S \<Rightarrow> iterates it S \<and> list_all (\<lambda>x. py_hashable x \<and> ok x) (it S) | _ \<Rightarrow> False) \<Longrightarrow>
     \<exists>vs. py_iter it v = Some vs \<and> list_all ok vs \<and> build_set FrozenSetV vs = Inr v"
  by (cases v; simp add: build_set_iterates list_all_iff)+

lemma nc_type_codec: "codec (serialize it t) (deserialize it t) (typed it t)"
proof (induction t)
  case NullNC
  show ?case unfolding nc_simps by (rule codec_checked [OF null_codec])
next
  case BoolNC
  show ?case unfolding nc_simps typed_leaf by (rule codec_checked [OF bool_codec])
next
  case (VarIntNC sgd n)
  show ?case unfolding nc_simps typed_leaf by (rule codec_checked [OF varint_codec])
next
  case (SizedIntNC sgd n)
  show ?case unfolding nc_simps typed_leaf by (rule codec_checked [OF sized_int_codec])
next
  case TokenVersionNC
  show ?case unfolding nc_simps by (rule codec_checked [OF token_version_codec])
next
  case (BytesLikeNC c)
  show ?case unfolding nc_simps typed_leaf by (rule codec_checked [OF bytes_codec])
next
  case StrNC
  show ?case unfolding nc_simps typed_leaf by (rule codec_checked [OF str_codec])
next
  case (FixedSizeBytesNC c n)
  show ?case unfolding nc_simps by (rule codec_checked [OF fixed_size_bytes_codec])
next
  case AddressNC
  show ?case unfolding nc_simps by (rule codec_checked [OF address_codec])
next
  case TokenUidNC
  show ?case unfolding nc_simps by (rule codec_checked [OF token_uid_codec])
next
  case CallerIdNC
  show ?case unfolding nc_simps by (rule codec_checked [OF caller_id_nc_codec])
next
  case (OptionalNC t)
  then show ?case unfolding nc_simps by (intro codec_checked optional_nc_codec)
next
  case (TupleNC ts)
  then show ?case unfolding nc_simps list_all2_map_id by (intro codec_checked tuple_codec) blast
next
  case (VarTupleNC t)
  then show ?case unfolding nc_simps by (intro codec_checked vartuple_codec)
next
  case (NamedTupleNC c ts)
  then show ?case unfolding nc_simps list_all2_map_id by (intro codec_checked namedtuple_codec) blast
next
  case (ListNC t)
  show ?case unfolding nc_simps by (rule codec_checked [OF collection_nc_codec [OF ListNC sequence_items(1)]])
next
  case (DequeNC t)
  show ?case unfolding nc_simps by (rule codec_checked [OF collection_nc_codec [OF DequeNC sequence_items(2)]])
next
  case (SetNC t)
  show ?case unfolding nc_simps by (rule codec_checked [OF collection_nc_codec [OF SetNC set_items(1)]])
next
  case (FrozenSetNC t)
  show ?case unfolding nc_simps by (rule codec_checked [OF collection_nc_codec [OF FrozenSetNC set_items(2)]])
next
  case (DictNC k t)
  then show ?case unfolding nc_simps by (intro codec_checked map_nc_codec)
next
  case (SignedDataNC t)
  then show ?case unfolding nc_simps by (intro codec_checked signed_data_nc_codec)
next
  case (DataclassNC c flds)
  then have "\<forall>p \<in> set flds. codec (serialize it (snd p)) (deserialize it (snd p)) (typed it (snd p))"
    by (metis snds.intros)
  then show ?case unfolding nc_simps by (intro codec_checked dataclass_codec)
qed

interpretation nc_type: codec "serialize it t" "deserialize it t" "typed it t" for it t
  by (rule nc_type_codec)

interpretation nc_pair: codec_pair "serialize it k" "deserialize it k" "typed it k"
    "serialize it t" "deserialize it t" "typed it t" for it k t
  by unfold_locales

end
