(* ===== verification/NC_Type_Props.thy ===== *)
theory NC_Type_Props
  imports NC_Type_Codec
begin

text \<open>The properties of the value types.\<close>

lemma nc_type_read_back:
  assumes "typed it t v" and "to_bytes it t v = Inr data"
  shows "from_bytes it t data = Inr v"
proof -
  obtain u s where "serialize it t v build_bytes_serializer = (Inr u, s)" "data = ser_finalize s"
    using assms(2) by (auto simp: to_bytes_def split: prod.splits sum.splits)
  then show ?thesis
    using nc_type.to_bytes_from_bytes [OF assms(1)] by (simp add: from_bytes_def)
qed

text \<open>
  C11. Round trip of the value types: for every type and every value of the type, in whatever order the
  sets in it iterate, the bytes \<open>to_bytes\<close> produces are read back by \<open>from_bytes\<close> as the same value,
  with nothing left over.
\<close>

theorem nc_type_from_bytes_to_bytes:
  assumes "typed it t v" and "to_bytes it t v = Inr data"
  shows "from_bytes it t data = Inr v"
  using assms by (rule nc_type_read_back)

theorem nc_type_from_bytes_to_bytes_witness:
  "from_bytes (\<lambda>S. [IntV 2, IntV 1]) (TupleNC [FrozenSetNC VarInt32NC, OptionalNC StrNC, TokenUidNC])
     [2, 2, 1, 1, 1, 97, 0]
   = Inr (TupleV [FrozenSetV {|IntV 1, IntV 2|}, StrV [97], BytesV TokenUidClass [0]])"
  by (rule nc_type_from_bytes_to_bytes) code_simp+

text \<open>The wrapper of attributes, in two steps: the flag, and the value behind it.\<close>

lemma maybe_deleted_serialize_cases:
  assumes "maybe_deleted_serialize it inner v s = (Inr u, s')"
  obtains s1 where "encode_bool (v \<noteq> None) s = (Inr (), s1)"
    and "case v of None \<Rightarrow> s1 = s'
         | Some x \<Rightarrow> \<exists>t. inner = Some t \<and> serialize it t x s1 = (Inr (), s')"
  using assms
  by (cases v; cases inner)
     (auto simp: maybe_deleted_serialize_def maybe_deleted_check_value_def sthen_Inr)

definition typed_attr :: "set_iter \<Rightarrow> nc_type option \<Rightarrow> nc_value option \<Rightarrow> bool" where
  "typed_attr it inner v =
     (case v of None \<Rightarrow> True | Some x \<Rightarrow> (case inner of None \<Rightarrow> True | Some t \<Rightarrow> typed it t x))"

interpretation maybe_deleted: codec "maybe_deleted_serialize it inner" "maybe_deleted_deserialize it inner"
    "typed_attr it inner" for it inner
proof
  fix v s u s'
  assume ok: "typed_attr it inner v" and "maybe_deleted_serialize it inner v s = (Inr u, s')"
  then obtain s1 where flag: "encode_bool (v \<noteq> None) s = (Inr (), s1)"
      and rest: "case v of None \<Rightarrow> s1 = s'
                 | Some x \<Rightarrow> \<exists>t. inner = Some t \<and> serialize it t x s1 = (Inr (), s')"
    by (elim maybe_deleted_serialize_cases)
  show "reads_back (maybe_deleted_deserialize it inner) v s s'"
    unfolding maybe_deleted_deserialize_def
  proof (rule reads_back_sbind [OF reads_back_sbind [OF boolean.round_trip [OF TrueI flag]]])
    show "reads_back (if v \<noteq> None
           then case inner of None \<Rightarrow> sraise ValueError
                | Some t \<Rightarrow> sbind (deserialize it t) (\<lambda>x. sret (Some x))
           else sret None) v s1 s'"
      using ok rest
      by (auto simp: typed_attr_def reads_back_sret intro!: reads_back_map nc_type.round_trip
          split: option.splits)
    show "reads_back (sthen (raise_check (maybe_deleted_check_value it inner False v)) (sret v)) v s' s'"
      by (simp add: maybe_deleted_check_value_def sthen_def reads_back_sret split: option.splits)
  qed
qed

lemma maybe_deleted_data:
  assumes "typed_attr it inner v" and "maybe_deleted_to_bytes it inner v = Inr data"
  shows "maybe_deleted_from_bytes it inner data = Inr v" and "is_deleted_key data = Inr (v = None)"
    and "fst (maybe_deleted_deserialize it inner (build_bytes_deserializer data)) = Inr v"
proof -
  obtain s where ser: "maybe_deleted_serialize it inner v build_bytes_serializer = (Inr (), s)"
      and data: "data = ser_finalize s"
    using assms(2) by (auto simp: maybe_deleted_to_bytes_def split: prod.splits sum.splits)
  from ser obtain s1 where flag: "encode_bool (v \<noteq> None) build_bytes_serializer = (Inr (), s1)"
      and rest: "case v of None \<Rightarrow> s1 = s
                 | Some x \<Rightarrow> \<exists>t. inner = Some t \<and> serialize it t x s1 = (Inr (), s)"
    by (elim maybe_deleted_serialize_cases)
  have "\<exists>bs. data = ser_finalize s1 @ bs"
    using rest assms(1) reads_back_extends nc_type.round_trip
    by (cases v) (fastforce simp: data typed_attr_def)+
  then show "is_deleted_key data = Inr (v = None)"
    using reads_back_front [OF boolean.round_trip [OF TrueI flag]]
    by (auto simp: is_deleted_key_def sm_simps)
  show "maybe_deleted_from_bytes it inner data = Inr v"
    using maybe_deleted.to_bytes_from_bytes [OF assms(1) ser]
    by (simp add: maybe_deleted_from_bytes_def data)
  show "fst (maybe_deleted_deserialize it inner (build_bytes_deserializer data)) = Inr v"
    using reads_back_front [OF maybe_deleted.round_trip [OF assms(1) ser], of "[]"] by (simp add: data)
qed

text \<open>
  Attributes: what the storage writes for an attribute is read back as the same value, or as
  \<open>DeletedKey\<close> for a deleted one, and the shortcut \<open>is_deleted_key\<close> on the raw bytes says which.
\<close>

theorem maybe_deleted_round_trip:
  assumes "typed_attr it inner v" and "maybe_deleted_to_bytes it inner v = Inr data"
  shows "maybe_deleted_from_bytes it inner data = Inr v \<and> is_deleted_key data = Inr (v = None)"
  using maybe_deleted_data [OF assms] by simp

theorem maybe_deleted_round_trip_witness:
  "maybe_deleted_from_bytes (\<lambda>S. []) (Some BoolNC) [1, 0] = Inr (Some (BoolV False)) \<and>
   is_deleted_key [1, 0] = Inr (Some (BoolV False) = None)"
  by (rule maybe_deleted_round_trip) code_simp+

text \<open>
  C15. Integers: an unsigned value that passes the check of its type always serializes within the size
  of the type; a signed one does exactly when it is at least \<open>- (2 ^ (7 * n - 1))\<close>, although the check
  admits values down to \<open>- (2 ^ (7 * n))\<close>. Otherwise serialization raises \<open>ValueError\<close>.
\<close>

theorem varint_check_vs_serialize:
  assumes "0 < n" and "check_value it (VarIntNC sgd n) (IntV i) = check_ok"
  shows "to_bytes it (VarIntNC sgd n) (IntV i) =
           (if sgd \<and> i < - (2 ^ (7 * n - 1)) then Inl ValueError else Inr (leb128_ref sgd i))"
proof -
  obtain m where n: "n = Suc m" using assms(1) by (cases n) auto
  have p: "(128::int) ^ m = 2 ^ (7 * m)" by (simp add: power_mult)
  have range: "sgd \<or> 0 \<le> i" and fits: "leb128_fits sgd i n \<longleftrightarrow> \<not> (sgd \<and> i < - (2 ^ (7 * n - 1)))"
    using assms(2)
    by (auto simp: check_value_def varint_check_value_def check_range_def varint_upper_bound_value_def
        varint_lower_bound_value_def leb128_fits_def n p power_add mult.commute split: if_splits)
  have "serialize it (VarIntNC sgd n) (IntV i) = varint_serialize sgd n (IntV i)"
    using assms(2) by (simp add: checked_serialize_def check_value_def sthen_def)
  moreover have "if leb128_fits sgd i n
        then encode_leb128 i sgd \<lparr>ser_buf = [], ser_left = [int n]\<rparr>
             = (Inr (), wrote \<lparr>ser_buf = [], ser_left = [int n]\<rparr> (leb128_ref sgd i))
        else \<exists>s'. encode_leb128 i sgd \<lparr>ser_buf = [], ser_left = [int n]\<rparr>
                  = (Inl MaxBytesExceededError, s')"
    using encode_leb128_ref [OF range, of "\<lparr>ser_buf = [], ser_left = [int n]\<rparr>"]
    by (simp add: room_def length_leb128_ref [OF range])
  ultimately show ?thesis
    unfolding fits
    by (auto simp: to_bytes_def varint_serialize_def catch_too_long_def with_max_bytes_def
        build_bytes_serializer_def wrote_def ser_finalize_def split: if_splits)
qed

theorem varint_check_vs_serialize_witness:
  "to_bytes (\<lambda>S. []) VarInt32NC (IntV (- (2 ^ 224))) =
     (if True \<and> - (2 ^ 224) < - (2 ^ (7 * 32 - 1) :: int) then Inl ValueError
      else Inr (leb128_ref True (- (2 ^ 224))))"
  by (rule varint_check_vs_serialize) code_simp+


end
