(* ===== verification/Patricia_Tree.thy ===== *)
theory Patricia_Tree
  imports NC_Prelude "HOL-Library.Sublist" "HOL-Library.List_Lexorder" "HOL-Library.Multiset"
begin

text \<open>
  The radix tree behind the Patricia trie of the contract storage, as a value: what a root node of
  \<^verbatim>\<open>hathor/nanocontracts/storage/patricia_trie.py\<close> and the nodes reachable from it denote. The
  operations follow \<open>_get\<close> and \<open>_update\<close> on this value; the theory \<open>Patricia_Trie\<close> shows that the
  code, which keeps nodes in a store under their hashes, computes them.
\<close>

section \<open>Trees\<close>

text \<open>
  A node has an optional content and, in the order of its dict, its children under the part of the
  key that leads to them.
\<close>

datatype ptree = PNode (pcontent: "bytes option") (pchildren: "(bytes \<times> ptree) list")

definition pempty :: ptree where
  "pempty = PNode None []"

text \<open>\<open>DictChildren.find_prefix\<close>: the first child whose key is a prefix of \<open>a\<close>.\<close>

fun find_prefix :: "(bytes \<times> 'a) list \<Rightarrow> bytes \<Rightarrow> (bytes \<times> 'a) option" where
  "find_prefix [] a = None"
| "find_prefix ((key, x) # cs) a = (if prefix key a then Some (key, x) else find_prefix cs a)"

text \<open>The length of the longest common prefix (\<open>_find_longest_common_prefix\<close> returns it minus one).\<close>

fun common_len :: "bytes \<Rightarrow> bytes \<Rightarrow> nat" where
  "common_len (x # xs) (y # ys) = (if x = y then Suc (common_len xs ys) else 0)"
| "common_len _ _ = 0"

text \<open>The first child that shares a non-empty prefix with \<open>a\<close>.\<close>

fun find_common :: "(bytes \<times> 'a) list \<Rightarrow> bytes \<Rightarrow> (bytes \<times> 'a) option" where
  "find_common [] a = None"
| "find_common ((key, x) # cs) a = (if common_len a key = 0 then find_common cs a else Some (key, x))"

definition del_child :: "bytes \<Rightarrow> (bytes \<times> 'a) list \<Rightarrow> (bytes \<times> 'a) list" where
  "del_child key cs = filter (\<lambda>c. fst c \<noteq> key) cs"

lemma find_prefix_SomeD:
  "find_prefix cs a = Some (key, x) \<Longrightarrow> (key, x) \<in> set cs \<and> prefix key a"
  by (induction cs) (auto split: if_splits)

lemma find_common_SomeD:
  "find_common cs a = Some (key, x) \<Longrightarrow> (key, x) \<in> set cs \<and> common_len a key \<noteq> 0"
  by (induction cs) (auto split: if_splits)

lemma find_prefix_None: "find_prefix cs a = None \<longleftrightarrow> (\<forall>(key, x) \<in> set cs. \<not> prefix key a)"
  by (induction cs a rule: find_prefix.induct) (auto split: if_splits)

lemma find_common_None: "find_common cs a = None \<longleftrightarrow> (\<forall>(key, x) \<in> set cs. common_len a key = 0)"
  by (induction cs a rule: find_common.induct) (auto split: if_splits)

lemma size_child:
  "(key, t) \<in> set cs \<Longrightarrow> size t < Suc (size_list (size_prod (\<lambda>x. 0) size) cs)"
  by (induction cs) auto

lemma size_find_prefix:
  "find_prefix cs a = Some (key, t) \<Longrightarrow> size t < Suc (size_list (size_prod (\<lambda>x. 0) size) cs)"
  using find_prefix_SomeD [of cs a key t] size_child [of key t cs] by simp

function plookup :: "ptree \<Rightarrow> bytes \<Rightarrow> bytes option" where
  "plookup (PNode c cs) k =
     (if k = [] then c
      else (case find_prefix cs k of
              None \<Rightarrow> None
            | Some (key, t) \<Rightarrow> plookup t (drop (length key) k)))"
  by pat_completeness auto
termination
  by (relation "measure (\<lambda>(t, k). size t)") (auto intro: size_find_prefix)

text \<open>
  \<open>_update\<close>: replace the content of the node with this key; otherwise go down; otherwise split the
  child that shares a prefix with the key; otherwise add a child. The changed child is deleted from
  the dict of its parent and put back, so it comes last.
\<close>

definition psplit :: "bytes \<Rightarrow> bytes \<Rightarrow> ptree \<Rightarrow> bytes \<Rightarrow> bytes \<times> ptree" where
  "psplit k key t v =
     (let n = common_len k key; child = (drop n key, t)
      in (take n k,
          if n = length k then PNode (Some v) [child]
          else PNode None [child, (drop n k, PNode (Some v) [])]))"

function pupdate :: "ptree \<Rightarrow> bytes \<Rightarrow> bytes \<Rightarrow> ptree" where
  "pupdate (PNode c cs) k v =
     (if k = [] then PNode (Some v) cs
      else (case find_prefix cs k of
              Some (key, t) \<Rightarrow> PNode c (del_child key cs @ [(key, pupdate t (drop (length key) k) v)])
            | None \<Rightarrow>
                (case find_common cs k of
                   Some (key, t) \<Rightarrow> PNode c (del_child key cs @ [psplit k key t v])
                 | None \<Rightarrow> PNode c (cs @ [(k, PNode (Some v) [])]))))"
  by pat_completeness auto
termination
  by (relation "measure (\<lambda>(t, k, v). size t)") (auto intro: size_find_prefix)

declare plookup.simps [simp del] pupdate.simps [simp del]

text \<open>The merkle id of the node with key \<open>p\<close>: a hash of the key, the content and the sorted ids below.\<close>

function pid :: "(bytes \<Rightarrow> bytes) \<Rightarrow> bytes \<Rightarrow> ptree \<Rightarrow> bytes" where
  "pid H p (PNode c cs) =
     H (p @ (case c of None \<Rightarrow> [] | Some x \<Rightarrow> x) @
        concat (sort (map (\<lambda>(key, t). pid H (p @ key) t) cs)))"
  by pat_completeness auto
termination
  by (relation "measure (\<lambda>(H, p, t). size t)") (auto dest: size_child)

declare pid.simps [simp del]

section \<open>Well-formed trees\<close>

text \<open>
  The keys of the children are not empty and start with different bytes. In a compressed tree every
  node below the root carries content or branches.
\<close>

definition child_keys_ok :: "(bytes \<times> 'a) list \<Rightarrow> bool" where
  "child_keys_ok cs \<longleftrightarrow> (\<forall>(key, x) \<in> set cs. key \<noteq> []) \<and> distinct (map (hd \<circ> fst) cs)"

inductive pwf :: "ptree \<Rightarrow> bool" where
  "child_keys_ok cs \<Longrightarrow> (\<And>key t. (key, t) \<in> set cs \<Longrightarrow> pwf t) \<Longrightarrow> pwf (PNode c cs)"

inductive_simps pwf_PNode [simp]: "pwf (PNode c cs)"

definition branches :: "ptree \<Rightarrow> bool" where
  "branches t \<longleftrightarrow> pcontent t \<noteq> None \<or> 2 \<le> length (pchildren t)"

inductive compressed :: "ptree \<Rightarrow> bool" where
  "(\<And>key t. (key, t) \<in> set cs \<Longrightarrow> branches t \<and> compressed t) \<Longrightarrow> compressed (PNode c cs)"

inductive_simps compressed_PNode [simp]: "compressed (PNode c cs)"

lemma pwf_pempty [simp]: "pwf pempty" and compressed_pempty [simp]: "compressed pempty"
  by (simp_all add: pempty_def child_keys_ok_def)

lemma plookup_pempty [simp]: "plookup pempty k = None"
  by (simp add: pempty_def plookup.simps)

section \<open>Choosing a child\<close>

lemma common_len_le: "common_len a b \<le> length a" "common_len a b \<le> length b"
  by (induction a b rule: common_len.induct) auto

lemma take_common_len: "take (common_len a b) a = take (common_len a b) b"
  by (induction a b rule: common_len.induct) auto

lemma prefix_common_len: "prefix b a \<longleftrightarrow> common_len a b = length b"
  by (induction a b rule: common_len.induct) auto

lemma common_len_0: "a \<noteq> [] \<Longrightarrow> b \<noteq> [] \<Longrightarrow> common_len a b = 0 \<longleftrightarrow> hd a \<noteq> hd b"
  by (cases a; cases b) auto

lemma common_len_differ:
  "common_len a b < length a \<Longrightarrow> common_len a b < length b \<Longrightarrow>
     hd (drop (common_len a b) a) \<noteq> hd (drop (common_len a b) b)"
  by (induction a b rule: common_len.induct) (auto split: if_splits)

text \<open>The child whose key starts with the byte \<open>b\<close>: there is at most one.\<close>

definition child_for :: "(bytes \<times> 'a) list \<Rightarrow> byte \<Rightarrow> (bytes \<times> 'a) option" where
  "child_for cs b = find (\<lambda>c. hd (fst c) = b) cs"

lemma child_for_simps [simp]:
  "child_for [] b = None"
  "child_for (c # cs) b = (if hd (fst c) = b then Some c else child_for cs b)"
  by (simp_all add: child_for_def)

lemma child_for_SomeD: "child_for cs b = Some c \<Longrightarrow> c \<in> set cs \<and> hd (fst c) = b"
  by (induction cs) (auto split: if_splits)

lemma child_keys_ok_Cons [simp]:
  "child_keys_ok ((key, x) # cs) \<longleftrightarrow>
     key \<noteq> [] \<and> hd key \<notin> (hd \<circ> fst) ` set cs \<and> child_keys_ok cs"
  by (auto simp: child_keys_ok_def)

lemma child_keys_ok_Nil [simp]: "child_keys_ok []"
  by (simp add: child_keys_ok_def)

lemma child_for_mem:
  "child_keys_ok cs \<Longrightarrow> (key, x) \<in> set cs \<Longrightarrow> child_for cs (hd key) = Some (key, x)"
  by (induction cs) (force simp: image_iff)+

lemma child_for_None: "child_for cs b = None \<longleftrightarrow> b \<notin> (hd \<circ> fst) ` set cs"
  by (induction cs) auto

lemma prefix_hd: "prefix key k \<Longrightarrow> key \<noteq> [] \<Longrightarrow> hd key = hd k"
  by (cases key; cases k) auto

lemma find_prefix_child_for:
  assumes "child_keys_ok cs"
  shows "find_prefix cs k =
           (case child_for cs (hd k) of
              None \<Rightarrow> None | Some (key, x) \<Rightarrow> if prefix key k then Some (key, x) else None)"
  using assms
proof (induction cs)
  case (Cons c cs)
  obtain key x where c: "c = (key, x)" by (cases c)
  show ?case
  proof (cases "hd key = hd k")
    case True
    then have "child_for cs (hd k) = None"
      using Cons.prems unfolding c by (auto simp: child_for_None)
    then have "find_prefix cs k = None" using Cons unfolding c by simp
    then show ?thesis using True by (simp add: c)
  next
    case False
    then have "\<not> prefix key k" using Cons.prems prefix_hd unfolding c by auto
    then show ?thesis using False Cons unfolding c by simp
  qed
qed simp

lemma find_common_child_for:
  assumes "child_keys_ok cs" and "k \<noteq> []"
  shows "find_common cs k = child_for cs (hd k)"
  using assms by (induction cs) (auto simp: common_len_0)

lemma child_for_del:
  assumes "child_keys_ok cs" and "(key, x) \<in> set cs"
  shows "child_for (del_child key cs) b = (if b = hd key then None else child_for cs b)"
  using assms
proof (induction cs)
  case (Cons c cs)
  obtain key' x' where c: "c = (key', x')" by (cases c)
  show ?case
  proof (cases "key' = key")
    case True
    then have "hd key \<notin> (hd \<circ> fst) ` set cs" using Cons.prems unfolding c by auto
    then have "del_child key cs = cs" "child_for cs (hd key) = None"
      by (force simp: del_child_def filter_id_conv, simp add: child_for_None)
    then show ?thesis using True by (auto simp: c del_child_def)
  next
    case False
    then have mem: "(key, x) \<in> set cs" using Cons.prems unfolding c by simp
    then have "hd key' \<noteq> hd key" using Cons.prems unfolding c by force
    then show ?thesis using False Cons mem unfolding c by (auto simp: del_child_def)
  qed
qed simp

lemma child_for_append [simp]:
  "child_for (cs @ ds) b = (case child_for cs b of None \<Rightarrow> child_for ds b | Some c \<Rightarrow> Some c)"
  by (induction cs) auto

lemma child_keys_ok_append:
  "child_keys_ok (cs @ [(key, x)]) \<longleftrightarrow> child_keys_ok cs \<and> key \<noteq> [] \<and> child_for cs (hd key) = None"
  by (auto simp: child_keys_ok_def child_for_None)

lemma child_keys_ok_del: "child_keys_ok cs \<Longrightarrow> child_keys_ok (del_child key cs)"
  by (auto simp: child_keys_ok_def del_child_def distinct_map inj_on_def)

lemma set_del_child: "set (del_child key cs) = {c \<in> set cs. fst c \<noteq> key}"
  by (auto simp: del_child_def)

section \<open>Lookup after update\<close>

lemma plookup_PNode:
  assumes "child_keys_ok cs"
  shows "plookup (PNode c cs) k =
           (if k = [] then c
            else (case child_for cs (hd k) of
                    None \<Rightarrow> None
                  | Some (key, t) \<Rightarrow> if prefix key k then plookup t (drop (length key) k) else None))"
  by (auto simp: plookup.simps [of c cs k] find_prefix_child_for [OF assms] split: option.splits)

text \<open>Both ways of changing the child below a byte keep the other children.\<close>

lemma child_for_replace:
  assumes "child_keys_ok cs" and "(key, x) \<in> set cs" and "hd key' = hd key"
  shows "child_for (del_child key cs @ [(key', y)]) b = (if b = hd key then Some (key', y) else child_for cs b)"
  using assms by (auto simp: child_for_del split: option.splits)

lemma child_keys_ok_replace:
  assumes "child_keys_ok cs" and "(key, x) \<in> set cs" and "hd key' = hd key" and "key' \<noteq> []"
  shows "child_keys_ok (del_child key cs @ [(key', y)])"
  using assms by (simp add: child_keys_ok_append child_keys_ok_del child_for_del)

lemma psplit_key:
  assumes "k \<noteq> []" and "key \<noteq> []" and "hd key = hd k"
  shows "fst (psplit k key t v) = take (common_len k key) key" and "fst (psplit k key t v) \<noteq> []"
    and "hd (fst (psplit k key t v)) = hd key"
proof -
  have "common_len k key \<noteq> 0" using assms common_len_0 by metis
  then show "fst (psplit k key t v) \<noteq> []" "hd (fst (psplit k key t v)) = hd key"
    "fst (psplit k key t v) = take (common_len k key) key"
    using assms take_common_len [of k key] by (auto simp: psplit_def Let_def hd_take)
qed

text \<open>The split node finds the old child under the rest of its key and the new content under \<open>k\<close>.\<close>

lemma plookup_psplit:
  assumes k: "k \<noteq> []" "key \<noteq> []" "hd key = hd k" and np: "\<not> prefix key k"
  defines "n \<equiv> common_len k key"
  shows "prefix (take n k) k' \<Longrightarrow> plookup (snd (psplit k key t v)) (drop n k') =
           (if k' = k then Some v else if prefix key k' then plookup t (drop (length key) k') else None)"
    and "\<not> prefix (take n k) k' \<Longrightarrow> k' \<noteq> k \<and> \<not> prefix key k'"
proof -
  have n: "n < length key" "n \<le> length k" "take n k = take n key"
    using np common_len_le [of k key] prefix_common_len [of key k] take_common_len [of k key]
    by (auto simp: n_def)
  { assume "prefix (take n k) k'"
    then obtain r where r: "k' = take n k @ r" by (auto simp: prefix_def)
    then have dr: "drop n k' = r" using n(2) by simp
    have key: "key = take n k @ drop n key" using n(3) by simp
    have kk: "k = take n k @ drop n k" by simp
    have eqs: "k' = k \<longleftrightarrow> r = drop n k" "prefix key k' \<longleftrightarrow> prefix (drop n key) r"
      by (metis r append_take_drop_id same_append_eq, metis key r same_prefix_prefix)
    have drs: "prefix (drop n key) r \<Longrightarrow> drop (length key) k' = drop (length (drop n key)) r"
      using n(1,2) by (auto simp: r)
    show "plookup (snd (psplit k key t v)) (drop n k') =
           (if k' = k then Some v else if prefix key k' then plookup t (drop (length key) k') else None)"
    proof (cases "n = length k")
      case True
      then have "snd (psplit k key t v) = PNode (Some v) [(drop n key, t)]" "drop n k = []"
        by (simp_all add: psplit_def n_def)
      then show ?thesis
        unfolding eqs dr by (simp add: plookup.simps [of "Some v"] drs)
    next
      case False
      then have ne: "drop n k \<noteq> []" using n(2) by simp
      then have "hd (drop n k) \<noteq> hd (drop n key)"
        using common_len_differ [of k key] n False by (simp add: n_def)
      then have excl: "\<not> (prefix (drop n key) r \<and> prefix (drop n k) r)"
        using n(1) ne prefix_hd by (metis drop_eq_Nil not_le)
      have leaf: "plookup (PNode (Some v) []) x = (if x = [] then Some v else None)" for x
        by (simp add: plookup.simps)
      have "snd (psplit k key t v) = PNode None [(drop n key, t), (drop n k, PNode (Some v) [])]"
        using False by (simp add: psplit_def n_def Let_def)
      moreover have "prefix (drop n k) r \<Longrightarrow> r = drop n k \<longleftrightarrow> drop (length (drop n k)) r = []"
        by (auto simp: prefix_def)
      ultimately show ?thesis
        using excl ne n(1) unfolding eqs dr
        by (cases "prefix (drop n key) r"; cases "prefix (drop n k) r"; cases "r = drop n k")
           (auto simp: plookup.simps [of None] leaf drs)
    qed }
  show "\<not> prefix (take n k) k' \<Longrightarrow> k' \<noteq> k \<and> \<not> prefix key k'"
    using n(3) take_is_prefix [of n k] take_is_prefix [of n key] by (metis prefix_order.trans)
qed

text \<open>The three ways an update goes below the root, by the child that starts like the key.\<close>

lemma pupdate_child:
  assumes "child_keys_ok cs" and "k \<noteq> []"
  shows "pupdate (PNode c cs) k v =
           PNode c (case child_for cs (hd k) of
                      None \<Rightarrow> cs @ [(k, PNode (Some v) [])]
                    | Some (key, t) \<Rightarrow> del_child key cs @
                        [if prefix key k then (key, pupdate t (drop (length key) k) v)
                         else psplit k key t v])"
  using assms
  by (auto simp: pupdate.simps [of c cs] find_prefix_child_for find_common_child_for split: option.splits)

lemma plookup_replace:
  assumes ok: "child_keys_ok cs" and mem: "(key, x) \<in> set cs" and key': "hd key' = hd key" "key' \<noteq> []"
  shows "plookup (PNode c (del_child key cs @ [(key', y)])) k' =
           (if k' \<noteq> [] \<and> hd k' = hd key
            then (if prefix key' k' then plookup y (drop (length key') k') else None)
            else plookup (PNode c cs) k')"
  unfolding plookup_PNode [OF ok] plookup_PNode [OF child_keys_ok_replace [OF ok mem key']]
    child_for_replace [OF ok mem key'(1)] by auto

lemma plookup_add:
  assumes ok: "child_keys_ok cs" and k: "k \<noteq> []" "child_for cs (hd k) = None"
  shows "plookup (PNode c (cs @ [(k, PNode (Some v) [])])) k' =
           (if k' = k then Some v else plookup (PNode c cs) k')"
proof -
  have ok': "child_keys_ok (cs @ [(k, PNode (Some v) [])])"
    using ok k by (simp add: child_keys_ok_append)
  have leaf: "plookup (PNode (Some v) []) x = (if x = [] then Some v else None)" for x
    by (simp add: plookup.simps)
  have "prefix k k' \<Longrightarrow> k' = k \<longleftrightarrow> drop (length k) k' = []"
    by (auto simp: prefix_def)
  then show ?thesis
    unfolding plookup_PNode [OF ok] plookup_PNode [OF ok'] using k
    by (auto simp: leaf split: option.splits)
qed

lemma plookup_pupdate:
  "pwf t \<Longrightarrow> plookup (pupdate t k v) k' = (if k' = k then Some v else plookup t k')"
proof (induction t k v arbitrary: k' rule: pupdate.induct)
  case (1 c cs k v)
  then have ok: "child_keys_ok cs" by simp
  consider "k = []" | "k \<noteq> []" "child_for cs (hd k) = None"
    | key t where "k \<noteq> []" "child_for cs (hd k) = Some (key, t)" by force
  then show ?case
  proof cases
    case 1
    then show ?thesis by (simp add: pupdate.simps plookup.simps)
  next
    case 2
    then show ?thesis by (simp add: pupdate_child [OF ok] plookup_add [OF ok])
  next
    case (3 key t)
    then have mem: "(key, t) \<in> set cs" and hd: "hd key = hd k" using child_for_SomeD by force+
    then have key: "key \<noteq> []" "pwf t" using "1.prems" by (auto simp: child_keys_ok_def)
    have old: "plookup (PNode c cs) k' = (if prefix key k' then plookup t (drop (length key) k') else None)"
      if "k' \<noteq> []" "hd k' = hd key" using that 3 hd by (simp add: plookup_PNode [OF ok])
    show ?thesis
    proof (cases "prefix key k")
      case True
      have "find_prefix cs k = Some (key, t)" using 3 True by (simp add: find_prefix_child_for [OF ok])
      note IH = "1.IH" [OF 3(1) this refl key(2)]
      have "prefix key k' \<Longrightarrow> drop (length key) k' = drop (length key) k \<longleftrightarrow> k' = k"
        using True by (auto simp: prefix_def)
      then show ?thesis
        using 3 True key hd old
        by (auto simp: pupdate_child [OF ok] plookup_replace [OF ok mem] IH)
    next
      case False
      obtain key' t' where sp: "psplit k key t v = (key', t')" by fastforce
      note key' = psplit_key [OF 3(1) key(1) hd, of t v, unfolded sp fst_conv]
      have take: "key' = take (common_len k key) k" "length key' = common_len k key"
        using sp common_len_le [of k key] by (auto simp: psplit_def Let_def)
      have "pupdate (PNode c cs) k v = PNode c (del_child key cs @ [(key', t')])"
        using 3 False by (simp add: pupdate_child [OF ok] sp)
      then have "plookup (pupdate (PNode c cs) k v) k' =
          (if k' \<noteq> [] \<and> hd k' = hd key
           then (if prefix key' k' then plookup t' (drop (length key') k') else None)
           else plookup (PNode c cs) k')"
        by (simp only: plookup_replace [OF ok mem key'(3,2)])
      moreover have "prefix key' k' \<Longrightarrow> plookup t' (drop (length key') k') =
          (if k' = k then Some v else if prefix key k' then plookup t (drop (length key) k') else None)"
          "\<not> prefix key' k' \<Longrightarrow> k' \<noteq> k \<and> \<not> prefix key k'"
        using plookup_psplit(1) [OF 3(1) key(1) hd False, of k' t v]
          plookup_psplit(2) [OF 3(1) key(1) hd False, of k'] take sp by simp_all
      ultimately show ?thesis using old 3(1) hd by auto
    qed
  qed
qed

section \<open>Updates keep the tree well-formed and compressed\<close>

lemma pwf_psplit:
  assumes "k \<noteq> []" "key \<noteq> []" "hd key = hd k" "\<not> prefix key k" "pwf t"
  shows "pwf (snd (psplit k key t v))"
proof -
  have n: "common_len k key < length key"
    using assms(4) common_len_le(2) [of k key] prefix_common_len [of key k] by simp
  have "hd (drop (common_len k key) k) \<noteq> hd (drop (common_len k key) key)" if "common_len k key \<noteq> length k"
    using that common_len_differ [of k key] n common_len_le(1) [of k key] by simp
  then show ?thesis
    using n assms(5) common_len_le(1) [of k key] by (auto simp: psplit_def Let_def)
qed

lemma pwf_pupdate: "pwf t \<Longrightarrow> pwf (pupdate t k v)"
proof (induction t k v rule: pupdate.induct)
  case (1 c cs k v)
  then have ok: "child_keys_ok cs" and sub: "\<And>key t. (key, t) \<in> set cs \<Longrightarrow> pwf t" by auto
  consider "k = []" | "k \<noteq> []" "child_for cs (hd k) = None"
    | key t where "k \<noteq> []" "child_for cs (hd k) = Some (key, t)" by force
  then show ?case
  proof cases
    case 1
    then show ?thesis using ok sub by (simp add: pupdate.simps)
  next
    case 2
    then show ?thesis using ok sub by (auto simp: pupdate_child [OF ok] child_keys_ok_append)
  next
    case (3 key t)
    then have mem: "(key, t) \<in> set cs" and hd: "hd key = hd k" using child_for_SomeD by force+
    then have key: "key \<noteq> []" "pwf t" using ok sub by (auto simp: child_keys_ok_def)
    show ?thesis
    proof (cases "prefix key k")
      case True
      have "find_prefix cs k = Some (key, t)" using 3 True by (simp add: find_prefix_child_for [OF ok])
      note IH = "1.IH" [OF 3(1) this refl key(2)]
      then show ?thesis
        using 3 True key sub child_keys_ok_replace [OF ok mem refl key(1)]
        by (auto simp: pupdate_child [OF ok] set_del_child)
    next
      case False
      obtain key' t' where sp: "psplit k key t v = (key', t')" by fastforce
      note key' = psplit_key [OF 3(1) key(1) hd, of t v, unfolded sp fst_conv]
      have "pwf t'" using pwf_psplit [OF 3(1) key(1) hd False key(2), of v] sp by simp
      then show ?thesis
        using 3 False sub child_keys_ok_replace [OF ok mem key'(3,2)]
        by (auto simp: pupdate_child [OF ok] set_del_child sp)
    qed
  qed
qed

lemma length_del_child:
  assumes "child_keys_ok cs" and "(key, x) \<in> set cs"
  shows "length cs = Suc (length (del_child key cs))"
  using assms
proof (induction cs)
  case (Cons c cs)
  show ?case
  proof (cases "fst c = key")
    case True
    then have "\<forall>c \<in> set cs. fst c \<noteq> key" using Cons.prems(1) by (cases c) auto
    then show ?thesis using True by (simp add: del_child_def filter_id_conv)
  next
    case False
    then show ?thesis using Cons by (cases c) (auto simp: del_child_def)
  qed
qed simp

lemma branches_pupdate:
  assumes "pwf t" and "branches t"
  shows "branches (pupdate t k v)"
proof -
  obtain c cs where t: "t = PNode c cs" by (cases t)
  then have ok: "child_keys_ok cs" using assms(1) by simp
  have "length cs \<le> length (pchildren (pupdate t k v))" if "k \<noteq> []"
    using length_del_child [OF ok] child_for_SomeD [of cs "hd k"] that
    by (fastforce simp: t pupdate_child [OF ok] split: option.splits)
  moreover have "pcontent (pupdate t k v) = (if k = [] then Some v else c)"
    by (auto simp: t pupdate.simps split: option.splits)
  ultimately show ?thesis
    using assms(2) by (cases "k = []") (auto simp: branches_def t pupdate.simps)
qed

lemma compressed_psplit:
  assumes "compressed t" and "branches t"
  shows "compressed (snd (psplit k key t v))" and "branches (snd (psplit k key t v))"
  using assms by (auto simp: psplit_def Let_def branches_def)

lemma compressed_pupdate: "pwf t \<Longrightarrow> compressed t \<Longrightarrow> compressed (pupdate t k v)"
proof (induction t k v rule: pupdate.induct)
  case (1 c cs k v)
  then have ok: "child_keys_ok cs" and sub: "\<And>key t. (key, t) \<in> set cs \<Longrightarrow> pwf t \<and> branches t \<and> compressed t"
    by auto
  consider "k = []" | "k \<noteq> []" "child_for cs (hd k) = None"
    | key t where "k \<noteq> []" "child_for cs (hd k) = Some (key, t)" by force
  then show ?case
  proof cases
    case 1
    then show ?thesis using sub by (simp add: pupdate.simps)
  next
    case 2
    then show ?thesis using sub by (auto simp: pupdate_child [OF ok] branches_def)
  next
    case (3 key t)
    then have mem: "(key, t) \<in> set cs" using child_for_SomeD by force
    then have t: "pwf t" "branches t" "compressed t" using sub by auto
    have IH: "compressed (pupdate t (drop (length key) k) v)" if "prefix key k"
      using that 3 t by (intro "1.IH") (auto simp: find_prefix_child_for [OF ok])
    obtain key' t' where sp: "psplit k key t v = (key', t')" by fastforce
    have "compressed t'" "branches t'" using compressed_psplit [OF t(3,2), of k key v] sp by auto
    then show ?thesis
      using 3 sub t IH branches_pupdate [OF t(1,2)]
      by (auto simp: pupdate_child [OF ok] set_del_child sp split: if_splits)
  qed
qed

section \<open>One tree per map\<close>

text \<open>
  Two trees are equivalent when they differ in the order of children only. Compressed trees with the
  same content are equivalent, and equivalent trees have the same id.
\<close>

inductive pequiv :: "ptree \<Rightarrow> ptree \<Rightarrow> bool" where
  "mset (map fst cs) = mset (map fst ds) \<Longrightarrow>
   (\<And>key t u. (key, t) \<in> set cs \<Longrightarrow> (key, u) \<in> set ds \<Longrightarrow> pequiv t u) \<Longrightarrow>
   pequiv (PNode c cs) (PNode c ds)"

text \<open>A branching tree holds a key; one that also has no content holds keys with different heads.\<close>

lemma branches_lookup:
  "pwf t \<Longrightarrow> compressed t \<Longrightarrow> branches t \<Longrightarrow> \<exists>k. plookup t k \<noteq> None"
proof (induction t rule: measure_induct_rule [of size])
  case (less t)
  obtain c cs where t: "t = PNode c cs" by (cases t)
  show ?case
  proof (cases c)
    case (Some x)
    then show ?thesis by (intro exI [of _ "[]"]) (simp add: t plookup.simps)
  next
    case None
    then obtain key u where mem: "(key, u) \<in> set cs"
      using less.prems(3) by (cases cs) (auto simp: t branches_def)
    have ok: "child_keys_ok cs" using less.prems(1) by (simp add: t)
    have "size u < size t" using size_child [OF mem] by (simp add: t)
    then obtain k where k: "plookup u k \<noteq> None"
      using less.IH [of u] less.prems mem by (auto simp: t)
    have "key \<noteq> []" using ok mem by (auto simp: child_keys_ok_def)
    then have "plookup t (key @ k) = plookup u k"
      using child_for_mem [OF ok mem] by (simp add: t plookup_PNode [OF ok])
    then show ?thesis using k by metis
  qed
qed

lemma plookup_below:
  assumes "child_keys_ok cs" and "(key, t) \<in> set cs"
  shows "plookup (PNode c cs) (key @ k) = plookup t k"
  using child_for_mem [OF assms] assms by (auto simp: plookup_PNode child_keys_ok_def)

lemma plookup_through:
  assumes "child_keys_ok cs" and "(key, t) \<in> set cs" and "k \<noteq> []" and "hd k = hd key"
    and "plookup (PNode c cs) k \<noteq> None"
  shows "prefix key k"
  using assms child_for_mem [OF assms(1,2)] by (auto simp: plookup_PNode split: if_splits)

lemma branches_no_common_prefix:
  assumes "pwf t" "compressed t" "branches t" "r \<noteq> []"
  shows "\<exists>k. plookup t k \<noteq> None \<and> \<not> prefix r k"
proof -
  obtain c cs where t: "t = PNode c cs" by (cases t)
  have ok: "child_keys_ok cs" using assms(1) by (simp add: t)
  show ?thesis
  proof (cases c)
    case (Some x)
    then show ?thesis using assms(4) by (intro exI [of _ "[]"]) (simp add: t plookup.simps)
  next
    case None
    then obtain c1 c2 cs' where cs: "cs = c1 # c2 # cs'"
      using assms(3) by (auto simp: t branches_def Suc_le_length_iff numeral_2_eq_2)
    have "hd (fst c1) \<noteq> hd (fst c2)" using ok by (simp add: cs child_keys_ok_def)
    then obtain ch where ch: "ch \<in> set cs" "hd (fst ch) \<noteq> hd r" by (metis cs list.set_intros)
    obtain key u where "ch = (key, u)" by (cases ch)
    then have mem: "(key, u) \<in> set cs" "hd key \<noteq> hd r" using ch by auto
    then obtain k where "plookup u k \<noteq> None"
      using branches_lookup [of u] assms(1,2) by (auto simp: t)
    moreover have "\<not> prefix r (key @ k)"
      using mem(2) ok mem(1) assms(4) by (cases key; cases r) (auto simp: child_keys_ok_def)
    ultimately show ?thesis using plookup_below [OF ok mem(1)] t by metis
  qed
qed

text \<open>The keys of the children are determined by the map.\<close>

lemma same_map_child:
  assumes ok: "child_keys_ok cs" "child_keys_ok ds" and mem: "(key, t) \<in> set cs"
    and t: "pwf t" "compressed t" "branches t"
    and sub: "\<And>key u. (key, u) \<in> set ds \<Longrightarrow> pwf u \<and> compressed u \<and> branches u"
    and same: "plookup (PNode c cs) = plookup (PNode d ds)"
  obtains u where "(key, u) \<in> set ds" and "plookup t = plookup u"
proof -
  have ne: "key \<noteq> []" using ok(1) mem by (auto simp: child_keys_ok_def)
  obtain k where k: "plookup t k \<noteq> None" using branches_lookup [OF t] by blast
  have at: "plookup (PNode d ds) (key @ x) = plookup t x" for x
    using plookup_below [OF ok(1) mem] same by metis
  obtain key2 u where u: "child_for ds (hd key) = Some (key2, u)"
    using at [of k] k ne by (auto simp: plookup_PNode [OF ok(2)] split: option.splits)
  then have mem2: "(key2, u) \<in> set ds" and hd2: "hd key2 = hd key" using child_for_SomeD by force+
  have ne2: "key2 \<noteq> []" using ok(2) mem2 by (auto simp: child_keys_ok_def)
  have at2: "plookup (PNode c cs) (key2 @ x) = plookup u x" for x
    using plookup_below [OF ok(2) mem2] same by metis
  have into2: "prefix key2 (key @ x)" if "plookup t x \<noteq> None" for x
    using plookup_through [OF ok(2) mem2, of "key @ x" d] at [of x] that ne hd2 by simp
  have into: "prefix key (key2 @ x)" if "plookup u x \<noteq> None" for x
    using plookup_through [OF ok(1) mem, of "key2 @ x" c] at2 [of x] that ne2 hd2 by simp
  have "prefix key key2 \<or> prefix key2 key"
    using into2 [OF k] prefix_same_cases [of key "key @ k" key2] by auto
  then have "key = key2"
  proof
    assume "prefix key key2"
    then obtain r where r: "key2 = key @ r" by (auto simp: prefix_def)
    have "r = []"
    proof (rule ccontr)
      assume "r \<noteq> []"
      from branches_no_common_prefix [OF t this] show False using into2 by (auto simp: r)
    qed
    then show ?thesis by (simp add: r)
  next
    assume "prefix key2 key"
    then obtain r where r: "key = key2 @ r" by (auto simp: prefix_def)
    have "r = []"
    proof (rule ccontr)
      assume "r \<noteq> []"
      from branches_no_common_prefix [OF _ _ _ this, of u] sub [OF mem2] show False
        using into by (auto simp: r)
    qed
    then show ?thesis by (simp add: r)
  qed
  then have "(key, u) \<in> set ds" using mem2 by simp
  moreover have "plookup t = plookup u" using at plookup_below [OF ok(2) calculation] by (metis ext)
  ultimately show ?thesis by (rule that)
qed

lemma distinct_child_keys: "child_keys_ok cs \<Longrightarrow> distinct (map fst cs)"
  by (auto simp: child_keys_ok_def distinct_map inj_on_def)

lemma same_map_pequiv:
  "pwf t \<Longrightarrow> compressed t \<Longrightarrow> pwf u \<Longrightarrow> compressed u \<Longrightarrow> plookup t = plookup u \<Longrightarrow> pequiv t u"
proof (induction t arbitrary: u rule: measure_induct_rule [of size])
  case (less t)
  obtain c cs d ds where t: "t = PNode c cs" and u: "u = PNode d ds" by (cases t; cases u)
  have "plookup t [] = plookup u []" using less.prems(5) by simp
  then have d: "d = c" by (simp add: t u plookup.simps)
  have ok: "child_keys_ok cs" "child_keys_ok ds" using less.prems by (auto simp: t u)
  have sub: "\<And>key t. (key, t) \<in> set cs \<Longrightarrow> pwf t \<and> compressed t \<and> branches t"
      "\<And>key t. (key, t) \<in> set ds \<Longrightarrow> pwf t \<and> compressed t \<and> branches t"
    using less.prems by (auto simp: t u)
  have same: "plookup (PNode c cs) = plookup (PNode d ds)" using less.prems(5) by (simp add: t u)
  have "fst ` set cs = fst ` set ds"
  proof (intro equalityI subsetI)
    fix key assume "key \<in> fst ` set cs"
    then obtain t' where mem: "(key, t') \<in> set cs" by force
    show "key \<in> fst ` set ds"
      by (rule same_map_child [OF ok mem _ _ _ sub(2) same]) (use sub(1) [OF mem] in force)+
  next
    fix key assume "key \<in> fst ` set ds"
    then obtain u' where mem: "(key, u') \<in> set ds" by force
    show "key \<in> fst ` set cs"
      by (rule same_map_child [OF ok(2,1) mem _ _ _ sub(1) same [symmetric]]) (use sub(2) [OF mem] in force)+
  qed
  then have "mset (map fst cs) = mset (map fst ds)"
    using distinct_child_keys [OF ok(1)] distinct_child_keys [OF ok(2)]
    by (metis image_set set_eq_iff_mset_eq_distinct)
  moreover have "pequiv t' u'" if mem: "(key, t') \<in> set cs" "(key, u') \<in> set ds" for key t' u'
  proof (rule less.IH)
    show "size t' < size t" using size_child [OF mem(1)] by (simp add: t)
    show "plookup t' = plookup u'"
      using plookup_below [OF ok(1) mem(1), of c] plookup_below [OF ok(2) mem(2), of d] same by (metis ext)
  qed (use sub mem in auto)
  ultimately show ?case unfolding t u d by (rule pequiv.intros)
qed

lemma pequiv_pid: "pequiv t u \<Longrightarrow> pwf t \<Longrightarrow> pwf u \<Longrightarrow> pid H p t = pid H p u"
proof (induction t u arbitrary: p rule: pequiv.induct)
  case (1 cs ds c)
  have ok: "child_keys_ok cs" "child_keys_ok ds" using "1.prems" by auto
  let ?f = "\<lambda>(key, t). pid H (p @ key) t"
  have "image_mset ?f (mset cs) = image_mset ?f (mset ds)"
  proof -
    define g where "g = (\<lambda>key. ?f (key, the (map_of ds key)))"
    have cs: "?f ch = g (fst ch)" if "ch \<in> set cs" for ch
    proof -
      obtain key t where ch: "ch = (key, t)" by (cases ch)
      then have "key \<in> set (map fst ds)" using that mset_eq_setD [OF "1.hyps"(1)] by force
      then obtain u where u: "(key, u) \<in> set ds" by auto
      then have "map_of ds key = Some u" using distinct_child_keys [OF ok(2)] by simp
      then show ?thesis using "1.IH" [OF that [unfolded ch] u] "1.prems" that u by (auto simp: ch g_def)
    qed
    have ds: "?f ch = g (fst ch)" if "ch \<in> set ds" for ch
    proof -
      obtain key t where "ch = (key, t)" by (cases ch)
      then show ?thesis using that distinct_child_keys [OF ok(2)] by (simp add: g_def)
    qed
    have "image_mset ?f (mset cs) = image_mset g (mset (map fst cs))"
      unfolding mset_map image_mset.compositionality comp_def by (rule image_mset_cong, rule cs, simp)
    also have "\<dots> = image_mset g (mset (map fst ds))" by (simp only: "1.hyps"(1))
    also have "\<dots> = image_mset ?f (mset ds)"
      unfolding mset_map image_mset.compositionality comp_def
      by (rule image_mset_cong, rule ds [symmetric], simp)
    finally show ?thesis .
  qed
  then have "sort (map ?f cs) = sort (map ?f ds)"
    unfolding sorted_list_of_multiset_mset [symmetric] mset_map by simp
  then show ?case by (simp add: pid.simps)
qed

section \<open>Histories\<close>

text \<open>The trie after a sequence of updates, from the empty one.\<close>

definition pbuild :: "(bytes \<times> bytes) list \<Rightarrow> ptree" where
  "pbuild kvs = foldl (\<lambda>t (k, v). pupdate t k v) pempty kvs"

lemma pbuild_snoc [simp]: "pbuild (kvs @ [(k, v)]) = pupdate (pbuild kvs) k v"
  by (simp add: pbuild_def)

lemma pbuild_Nil [simp]: "pbuild [] = pempty"
  by (simp add: pbuild_def)

lemma pbuild_wf: "pwf (pbuild kvs) \<and> compressed (pbuild kvs)"
proof (induction kvs rule: rev_induct)
  case (snoc kv kvs)
  then show ?case by (cases kv) (simp add: pwf_pupdate compressed_pupdate)
qed simp

lemma plookup_pbuild: "plookup (pbuild kvs) k = map_of (rev kvs) k"
proof (induction kvs rule: rev_induct)
  case (snoc kv kvs)
  then show ?case by (cases kv) (auto simp: plookup_pupdate pbuild_wf)
qed simp

end
