(* ===== verification/Patricia_Trie.thy ===== *)
theory Patricia_Trie
  imports Patricia_Tree
begin

text \<open>
  The Patricia trie of the contract storage as the code has it
  (\<^verbatim>\<open>hathor/nanocontracts/storage/patricia_trie.py\<close>): immutable nodes kept under their hashes in the
  local changes of a trie object and in a shared store, updates that copy the path from the changed
  node to a new root, and the commit that flushes the local nodes reachable from the root. The hash
  \<open>sha256\<close> is the parameter \<open>H\<close>.
\<close>

section \<open>Nodes\<close>

type_synonym node_id = bytes

record node =
  nkey :: bytes
  nlength :: nat
  ncontent :: "bytes option"
  nchildren :: "(bytes, node_id) dict"
  nid :: "node_id option"

definition new_node :: "bytes \<Rightarrow> bytes option \<Rightarrow> (bytes, node_id) dict \<Rightarrow> node" where
  "new_node key content children =
     \<lparr>nkey = key, nlength = length key, ncontent = content, nchildren = children, nid = None\<rparr>"

text \<open>\<open>Node.copy\<close>: an argument that is \<open>None\<close> keeps the attribute; the id is not copied.\<close>

definition node_copy :: "node \<Rightarrow> bytes option \<Rightarrow> (bytes, node_id) dict option \<Rightarrow> node" where
  "node_copy n content children =
     \<lparr>nkey = nkey n, nlength = nlength n,
      ncontent = (case content of None \<Rightarrow> ncontent n | Some c \<Rightarrow> Some c),
      nchildren = (case children of None \<Rightarrow> nchildren n | Some cs \<Rightarrow> cs), nid = None\<rparr>"

definition calculate_id :: "(bytes \<Rightarrow> bytes) \<Rightarrow> node \<Rightarrow> node_id" where
  "calculate_id H n =
     H (nkey n @ (case ncontent n of None \<Rightarrow> [] | Some c \<Rightarrow> c) @ concat (sort (map snd (nchildren n))))"

definition update_id :: "(bytes \<Rightarrow> bytes) \<Rightarrow> node \<Rightarrow> exc + node" where
  "update_id H n = (if nid n = None then Inr (n\<lparr>nid := Some (calculate_id H n)\<rparr>) else Inl AssertionError)"

section \<open>The trie object\<close>

record trie =
  tlocal :: "(node_id, node) dict"
  tdb :: "(node_id, node) dict"
  troot :: node

definition get_node :: "trie \<Rightarrow> node_id \<Rightarrow> node option" where
  "get_node st i = (case dict_get (tlocal st) i of Some n \<Rightarrow> Some n | None \<Rightarrow> dict_get (tdb st) i)"

definition trie_init :: "(bytes \<Rightarrow> bytes) \<Rightarrow> (node_id, node) dict \<Rightarrow> node_id option \<Rightarrow> exc + trie" where
  "trie_init H store root_id =
     (case root_id of
        None \<Rightarrow>
          (case update_id H (new_node [] None []) of
             Inl e \<Rightarrow> Inl e
           | Inr root \<Rightarrow> Inr \<lparr>tlocal = [], tdb = dict_put (the (nid root)) root store, troot = root\<rparr>)
      | Some i \<Rightarrow>
          (case dict_get store i of
             None \<Rightarrow> Inl KeyError
           | Some root \<Rightarrow>
               if nid root = Some i then Inr \<lparr>tlocal = [], tdb = store, troot = root\<rparr>
               else Inl AssertionError))"

definition is_dirty :: "trie \<Rightarrow> bool" where
  "is_dirty st \<longleftrightarrow> tlocal st \<noteq> []"

definition trie_rollback :: "(trie, unit) sm" where
  "trie_rollback = smod (\<lambda>st. st\<lparr>tlocal := []\<rparr>)"

text \<open>\<open>_add_to_db_or_assert\<close> and \<open>_commit_dfs\<close>; the depth of the descent is bounded by \<open>fuel\<close>.\<close>

definition add_to_db_or_assert :: "node \<Rightarrow> (trie, unit) sm" where
  "add_to_db_or_assert n st =
     (case nid n of
        None \<Rightarrow> (Inl AssertionError, st)
      | Some i \<Rightarrow>
          (case dict_get (tdb st) i of
             Some m \<Rightarrow> (if m = n then Inr () else Inl AssertionError, st)
           | None \<Rightarrow> (Inr (), st\<lparr>tdb := dict_put i n (tdb st)\<rparr>)))"

primrec commit_dfs :: "nat \<Rightarrow> node \<Rightarrow> (trie, unit) sm" where
  "commit_dfs 0 n = sraise OutOfFuel"
| "commit_dfs (Suc fuel) n =
     sthen (add_to_db_or_assert n)
       (sfor (map snd (nchildren n)) (\<lambda>child_id.
          sbind (sget (\<lambda>st. (dict_get (tlocal st) child_id, dict_has (tdb st) child_id))) (\<lambda>(child, in_db).
          case child of
            Some m \<Rightarrow> commit_dfs fuel m
          | None \<Rightarrow> sassert in_db)))"

definition commit_fuel :: "trie \<Rightarrow> nat" where
  "commit_fuel st = length (tlocal st) + 2"

definition trie_commit :: "(trie, unit) sm" where
  "trie_commit st =
     sthen (commit_dfs (commit_fuel st) (troot st)) (smod (\<lambda>st. st\<lparr>tlocal := []\<rparr>)) st"

section \<open>Searching\<close>

text \<open>
  \<open>_find_nearest_node\<close> with its \<open>log_path\<close>. Every round goes to a node with a longer key, so the
  length of the key bounds the rounds.
\<close>

fun find_nearest_loop ::
    "nat \<Rightarrow> (node_id \<Rightarrow> node option) \<Rightarrow> bytes \<Rightarrow> bytes \<Rightarrow> node \<Rightarrow> (bytes \<times> node) list \<Rightarrow>
     exc + node \<times> (bytes \<times> node) list" where
  "find_nearest_loop 0 get key last_match n log_path = Inl OutOfFuel"
| "find_nearest_loop (Suc fuel) get key last_match n log_path =
     (let log_path' = log_path @ [(last_match, n)]
      in if nkey n = key then Inr (n, log_path')
         else (case find_prefix (nchildren n) (drop (nlength n) key) of
                 None \<Rightarrow> Inr (n, log_path')
               | Some (m, next_node_id) \<Rightarrow>
                   (case get next_node_id of
                      None \<Rightarrow> Inl KeyError
                    | Some n' \<Rightarrow> find_nearest_loop fuel get key m n' log_path')))"

definition find_nearest_node :: "trie \<Rightarrow> bytes \<Rightarrow> node_id option \<Rightarrow> exc + node \<times> (bytes \<times> node) list" where
  "find_nearest_node st key root_id =
     (case (case root_id of None \<Rightarrow> Some (troot st) | Some i \<Rightarrow> get_node st i) of
        None \<Rightarrow> Inl KeyError
      | Some n \<Rightarrow> find_nearest_loop (length key + 2) (get_node st) key [] n [])"

function longest_common_prefix_loop :: "bytes \<Rightarrow> bytes \<Rightarrow> nat \<Rightarrow> nat \<Rightarrow> int" where
  "longest_common_prefix_loop a b i n =
     (if n \<le> i then int n - 1
      else if a ! i \<noteq> b ! i then int i - 1
      else longest_common_prefix_loop a b (Suc i) n)"
  by pat_completeness auto
termination
  by (relation "measure (\<lambda>(a, b, i, n). n - i)") auto

declare longest_common_prefix_loop.simps [simp del]

definition find_longest_common_prefix :: "bytes \<Rightarrow> bytes \<Rightarrow> int" where
  "find_longest_common_prefix a b = longest_common_prefix_loop a b 0 (min (length a) (length b))"

section \<open>Updating\<close>

text \<open>The first loop of \<open>_build_path\<close>: copy the path upwards, without the child that is replaced.\<close>

fun copy_path :: "bytes \<Rightarrow> (bytes \<times> node) list \<Rightarrow> exc + (bytes \<times> node) list" where
  "copy_path prev_suffix [] = Inr []"
| "copy_path prev_suffix ((sfx, n) # path) =
     (if dict_has (nchildren n) prev_suffix
      then (case copy_path sfx path of
              Inl e \<Rightarrow> Inl e
            | Inr copies \<Rightarrow>
                Inr ((sfx, node_copy n None (Some (dict_del prev_suffix (nchildren n)))) # copies))
      else Inl KeyError)"

text \<open>
  The second loop: link every node to the one before it, give it its id and store it. The result is the
  last node.
\<close>

definition link_child :: "(bytes \<times> node) option \<Rightarrow> node \<Rightarrow> node" where
  "link_child prev n =
     (case prev of
        None \<Rightarrow> n
      | Some (prev_suffix, p) \<Rightarrow> n\<lparr>nchildren := dict_put prev_suffix (the (nid p)) (nchildren n)\<rparr>)"

fun link_path ::
    "(bytes \<Rightarrow> bytes) \<Rightarrow> (bytes \<times> node) option \<Rightarrow> (bytes \<times> node) list \<Rightarrow>
     (trie, (bytes \<times> node) option) sm" where
  "link_path H prev [] = sret prev"
| "link_path H prev ((sfx, n) # path) =
     (\<lambda>st. case update_id H (link_child prev n) of
             Inl e \<Rightarrow> (Inl e, st)
           | Inr n' \<Rightarrow>
               link_path H (Some (sfx, n')) path
                 (st\<lparr>tlocal := dict_put (the (nid n')) n' (tlocal st)\<rparr>))"

definition build_path ::
    "(bytes \<Rightarrow> bytes) \<Rightarrow> (bytes \<times> node) list \<Rightarrow> (bytes \<times> node) list \<Rightarrow> (trie, unit) sm" where
  "build_path H log_path new_nodes st =
     (case copy_path (fst (hd new_nodes)) (rev log_path) of
        Inl e \<Rightarrow> (Inl e, st)
      | Inr log_path_copy \<Rightarrow>
          sbind (link_path H None (rev new_nodes @ log_path_copy)) (\<lambda>prev.
            case prev of
              None \<Rightarrow> sraise AssertionError
            | Some (_, root) \<Rightarrow> smod (\<lambda>st. st\<lparr>troot := root\<rparr>)) st)"

text \<open>The nodes \<open>_update\<close> creates below the log path, topmost first.\<close>

definition update_nodes :: "bytes \<Rightarrow> bytes \<Rightarrow> bytes \<Rightarrow> node \<Rightarrow> (bytes \<times> node) list" where
  "update_nodes key content parent_match parent =
     (if nkey parent = key then [(parent_match, node_copy parent (Some content) None)]
      else let sfx = drop (nlength parent) key
           in case find (\<lambda>(k, _). find_longest_common_prefix sfx k \<ge> 0) (nchildren parent) of
                None \<Rightarrow>
                  [(parent_match, node_copy parent None None), (sfx, new_node key (Some content) [])]
              | Some (k, v) \<Rightarrow>
                  (let idx = nat (find_longest_common_prefix sfx k + 1);
                       common_key = take (nlength parent + idx) key;
                       common_key_suffix = take idx sfx;
                       split_children = [(drop idx k, v)];
                       parent' = node_copy parent None (Some (dict_del k (nchildren parent)))
                   in if common_key = key
                      then [(parent_match, parent'),
                            (common_key_suffix, new_node common_key (Some content) split_children)]
                      else [(parent_match, parent'),
                            (common_key_suffix, new_node common_key None split_children),
                            (drop (length common_key) key, new_node key (Some content) [])]))"

definition trie_update_raw :: "(bytes \<Rightarrow> bytes) \<Rightarrow> bytes \<Rightarrow> bytes \<Rightarrow> (trie, unit) sm" where
  "trie_update_raw H key content st =
     (case find_nearest_node st key None of
        Inl e \<Rightarrow> (Inl e, st)
      | Inr (parent, log_path) \<Rightarrow>
          build_path H (butlast log_path) (update_nodes key content (fst (last log_path)) parent) st)"

definition trie_get_raw :: "bytes \<Rightarrow> node_id option \<Rightarrow> trie \<Rightarrow> exc + bytes" where
  "trie_get_raw key root_id st =
     (if key = [] then Inl KeyError
      else case find_nearest_node st key root_id of
             Inl e \<Rightarrow> Inl e
           | Inr (n, _) \<Rightarrow>
               if nkey n \<noteq> key then Inl KeyError
               else (case ncontent n of None \<Rightarrow> Inl KeyError | Some c \<Rightarrow> Inr c))"

text \<open>\<open>key.hex().encode('ascii')\<close>: two hexadecimal digits, lower case, per byte.\<close>

definition hex_digit :: "byte \<Rightarrow> byte" where
  "hex_digit d = (if d < 10 then d + 48 else d + 87)"

definition encode_key :: "bytes \<Rightarrow> bytes" where
  "encode_key key = concat (map (\<lambda>b. [hex_digit (b div 16), hex_digit (b mod 16)]) key)"

definition trie_update :: "(bytes \<Rightarrow> bytes) \<Rightarrow> bytes \<Rightarrow> bytes \<Rightarrow> (trie, unit) sm" where
  "trie_update H key content = trie_update_raw H (encode_key key) content"

definition trie_get :: "bytes \<Rightarrow> node_id option \<Rightarrow> trie \<Rightarrow> exc + bytes" where
  "trie_get key root_id st = trie_get_raw (encode_key key) root_id st"

definition trie_has_key :: "bytes \<Rightarrow> node_id option \<Rightarrow> trie \<Rightarrow> exc + bool" where
  "trie_has_key key root_id st =
     (case trie_get key root_id st of
        Inr _ \<Rightarrow> Inr True
      | Inl e \<Rightarrow> if e = KeyError then Inr False else Inl e)"

end
