(* ===== verification/Patricia_Refine.thy ===== *)
theory Patricia_Refine
  imports Patricia_Trie
begin

text \<open>
  The trie object of \<open>Patricia_Trie\<close> implements the tree of \<open>Patricia_Tree\<close>: searching, updating and
  committing nodes under their hashes refines the operations on the tree, as long as no two different
  nodes get the same hash.
\<close>

section \<open>What a node represents\<close>

inductive reps :: "(node_id \<Rightarrow> node option) \<Rightarrow> bytes \<Rightarrow> node \<Rightarrow> ptree \<Rightarrow> bool" for get where
  repsI: "nkey n = p \<Longrightarrow> nlength n = length p \<Longrightarrow>
     list_all2 (\<lambda>a b. fst b = fst a \<and> (\<exists>m. get (snd a) = Some m \<and> reps get (p @ fst a) m (snd b)))
       (nchildren n) cs \<Longrightarrow>
     reps get p n (PNode (ncontent n) cs)"

inductive_cases repsE: "reps get p n t"

text \<open>The children of a node, against the children of a tree, with a relation on what is below.\<close>

abbreviation child_rel :: "(bytes \<Rightarrow> 'a \<Rightarrow> 'b \<Rightarrow> bool) \<Rightarrow> (bytes \<times> 'a) list \<Rightarrow> (bytes \<times> 'b) list \<Rightarrow> bool" where
  "child_rel R xs ys \<equiv> list_all2 (\<lambda>a b. fst b = fst a \<and> R (fst a) (snd a) (snd b)) xs ys"

abbreviation below :: "(node_id \<Rightarrow> node option) \<Rightarrow> bytes \<Rightarrow> bytes \<Rightarrow> node_id \<Rightarrow> ptree \<Rightarrow> bool" where
  "below get p k i t \<equiv> \<exists>m. get i = Some m \<and> reps get (p @ k) m t"

lemma reps_PNode:
  "reps get p n (PNode c cs) \<longleftrightarrow>
     nkey n = p \<and> nlength n = length p \<and> ncontent n = c \<and> child_rel (below get p) (nchildren n) cs"
  by (auto elim: repsE intro: repsI)

lemma child_rel_find_prefix:
  "child_rel R xs ys \<Longrightarrow>
     (case find_prefix xs k of
        None \<Rightarrow> find_prefix ys k = None
      | Some (m, x) \<Rightarrow> \<exists>y. find_prefix ys k = Some (m, y) \<and> R m x y)"
  by (induction rule: list_all2_induct) (auto simp: prod_eq_iff split: option.splits if_splits)

lemma child_rel_find_common:
  "child_rel R xs ys \<Longrightarrow>
     (case find_common xs k of
        None \<Rightarrow> find_common ys k = None
      | Some (m, x) \<Rightarrow> \<exists>y. find_common ys k = Some (m, y) \<and> R m x y)"
  by (induction rule: list_all2_induct) (auto simp: prod_eq_iff split: option.splits if_splits)

lemma child_rel_del: "child_rel R xs ys \<Longrightarrow> child_rel R (dict_del k xs) (del_child k ys)"
  by (induction rule: list_all2_induct) (auto simp: dict_del_def del_child_def)

lemma child_rel_keys: "child_rel R xs ys \<Longrightarrow> map fst xs = map fst ys"
  by (induction rule: list_all2_induct) auto

lemma child_rel_mono:
  "child_rel R xs ys \<Longrightarrow> (\<And>k x y. R k x y \<Longrightarrow> S k x y) \<Longrightarrow> child_rel S xs ys"
  by (auto elim: list_all2_mono)

text \<open>Storing more nodes does not change what a node represents.\<close>

definition extends :: "(node_id \<Rightarrow> node option) \<Rightarrow> (node_id \<Rightarrow> node option) \<Rightarrow> bool" where
  "extends get get' \<longleftrightarrow> (\<forall>i m. get i = Some m \<longrightarrow> get' i = Some m)"

lemma extends_refl [simp]: "extends get get"
  by (simp add: extends_def)

lemma extends_trans: "extends a b \<Longrightarrow> extends b c \<Longrightarrow> extends a c"
  by (simp add: extends_def)

lemma reps_extends: "reps get p n t \<Longrightarrow> extends get get' \<Longrightarrow> reps get' p n t"
proof (induction rule: reps.induct)
  case (repsI n p cs)
  show ?case
    by (rule reps.repsI [OF repsI(1,2)], rule list_all2_mono [OF repsI(3)])
       (use repsI(4) in \<open>auto simp: extends_def\<close>)
qed

lemma below_extends:
  "child_rel (below get p) xs cs \<Longrightarrow> extends get get' \<Longrightarrow> child_rel (below get' p) xs cs"
  by (erule child_rel_mono) (meson extends_def reps_extends)

section \<open>Searching\<close>

lemma longest_common_prefix_loop_eq:
  "i \<le> min (length a) (length b) \<Longrightarrow>
     longest_common_prefix_loop a b i (min (length a) (length b))
       = int (i + common_len (drop i a) (drop i b)) - 1"
proof (induction a b i "min (length a) (length b)" rule: longest_common_prefix_loop.induct)
  case (1 a b i)
  show ?case
  proof (cases "min (length a) (length b) \<le> i")
    case True
    then have "drop i a = [] \<or> drop i b = []" by auto
    then have "common_len (drop i a) (drop i b) = 0" by (metis common_len.simps(2,3))
    then show ?thesis using True "1.prems" by (simp add: longest_common_prefix_loop.simps)
  next
    case False
    then have lt: "i < length a" "i < length b" by auto
    then have "drop i a = a ! i # drop (Suc i) a" "drop i b = b ! i # drop (Suc i) b"
      by (simp_all add: Cons_nth_drop_Suc)
    then show ?thesis
      using "1.hyps" False lt by (subst longest_common_prefix_loop.simps) (auto simp: Suc_le_eq)
  qed
qed

lemma find_longest_common_prefix_eq: "find_longest_common_prefix a b = int (common_len a b) - 1"
  by (simp add: find_longest_common_prefix_def longest_common_prefix_loop_eq)

lemma find_common_find:
  "find (\<lambda>(k, _). find_longest_common_prefix a k \<ge> 0) cs = find_common cs a"
  by (induction cs) (auto simp: find_longest_common_prefix_eq)

text \<open>The search ends at a node with the looked-up content when there is one.\<close>

lemma find_nearest_loop_lookup:
  assumes "reps get p n t" and "pwf t" and "key = p @ k" and "length k < fuel"
  shows "\<exists>n' log'. find_nearest_loop fuel get key lm n log = Inr (n', log') \<and>
           (if nkey n' = key then ncontent n' else None) = plookup t k"
  using assms
proof (induction t k arbitrary: p n fuel lm log rule: plookup.induct)
  case (1 c cs k)
  obtain f where f: "fuel = Suc f" using "1.prems"(4) by (cases fuel) auto
  have n: "nkey n = p" "nlength n = length p" "ncontent n = c" "child_rel (below get p) (nchildren n) cs"
    using "1.prems"(1) by (simp_all add: reps_PNode)
  show ?case
  proof (cases "k = []")
    case True
    then show ?thesis using n "1.prems"(3) by (simp add: f plookup.simps)
  next
    case k: False
    show ?thesis
    proof (cases "find_prefix cs k")
      case None
      then have "find_prefix (nchildren n) k = None"
        using child_rel_find_prefix [OF n(4), of k] by (auto split: option.splits)
      then show ?thesis using k n "1.prems"(3) None by (simp add: f Let_def plookup.simps)
    next
      case (Some mt)
      obtain m t where mt: "find_prefix cs k = Some (m, t)" using Some by (cases mt) auto
      then obtain i n1 where i: "find_prefix (nchildren n) k = Some (m, i)" "get i = Some n1"
          "reps get (p @ m) n1 t"
        using child_rel_find_prefix [OF n(4), of k] by (auto split: option.splits)
      have mem: "(m, t) \<in> set cs" "prefix m k" using find_prefix_SomeD [OF mt] by auto
      then obtain k1 where k1: "k = m @ k1" by (auto simp: prefix_def)
      have wf: "m \<noteq> []" "pwf t" using "1.prems"(2) mem by (auto simp: child_keys_ok_def)
      have "length k1 < f" using "1.prems"(4) wf(1) by (simp add: f k1) (cases m; simp)
      then obtain n' log' where "find_nearest_loop f get key m n1 (log @ [(lm, n)]) = Inr (n', log')"
          "(if nkey n' = key then ncontent n' else None) = plookup t k1"
        using "1.IH" [OF k mt refl i(3) wf(2), of f m "log @ [(lm, n)]"] "1.prems"(3) by (auto simp: k1)
      then show ?thesis
        using i k n "1.prems"(3) mt wf(1) by (simp add: f Let_def k1 plookup.simps [of c cs])
    qed
  qed
qed

section \<open>Linking a path\<close>

text \<open>
  The nodes a path stores do not overwrite different nodes: this is where the code relies on the hash
  having no collisions.
\<close>

fun no_clash :: "(bytes \<Rightarrow> bytes) \<Rightarrow> (bytes \<times> node) option \<Rightarrow> (bytes \<times> node) list \<Rightarrow> trie \<Rightarrow> bool" where
  "no_clash H prev [] st = True"
| "no_clash H prev ((sfx, n) # path) st =
     (case update_id H (link_child prev n) of
        Inl e \<Rightarrow> True
      | Inr n' \<Rightarrow>
          (case get_node st (the (nid n')) of None \<Rightarrow> True | Some m \<Rightarrow> m = n') \<and>
          no_clash H (Some (sfx, n')) path (st\<lparr>tlocal := dict_put (the (nid n')) n' (tlocal st)\<rparr>))"

lemma link_path_append:
  "link_path H prev (xs @ ys) = sbind (link_path H prev xs) (\<lambda>prev'. link_path H prev' ys)"
proof (induction xs arbitrary: prev)
  case (Cons x xs)
  then show ?case by (cases x) (auto simp: fun_eq_iff sm_simps split: sum.splits)
qed simp

lemma no_clash_append:
  "no_clash H prev (xs @ ys) st \<longleftrightarrow>
     no_clash H prev xs st \<and>
     (case link_path H prev xs st of (Inl e, st') \<Rightarrow> True | (Inr prev', st') \<Rightarrow> no_clash H prev' ys st')"
proof (induction xs arbitrary: prev st)
  case (Cons x xs)
  then show ?case by (cases x) (auto split: sum.splits)
qed (simp add: sm_simps)

text \<open>Every stored node is stored under its own id.\<close>

definition ids_ok :: "(bytes \<Rightarrow> bytes) \<Rightarrow> trie \<Rightarrow> bool" where
  "ids_ok H st \<longleftrightarrow> (\<forall>i n. get_node st i = Some n \<longrightarrow> nid n = Some i \<and> calculate_id H n = i)"

text \<open>
  \<open>produces H st path lm p t\<close>: linking the path, bottom first, ends with a stored node for the tree
  \<open>t\<close> under the key \<open>p\<close>, and keeps everything stored before.
\<close>

definition produces ::
    "(bytes \<Rightarrow> bytes) \<Rightarrow> trie \<Rightarrow> (bytes \<times> node) list \<Rightarrow> bytes \<Rightarrow> bytes \<Rightarrow> ptree \<Rightarrow> bool" where
  "produces H st path lm p t \<longleftrightarrow>
     (ids_ok H st \<longrightarrow> no_clash H None path st \<longrightarrow>
      (\<exists>n st' i. link_path H None path st = (Inr (Some (lm, n)), st') \<and>
         nid n = Some i \<and> get_node st' i = Some n \<and> reps (get_node st') p n t \<and>
         extends (get_node st) (get_node st') \<and> ids_ok H st' \<and>
         tdb st' = tdb st \<and> troot st' = troot st))"

text \<open>Storing one node that does not clash.\<close>

lemma store_node:
  assumes "ids_ok H st" and "nid x = None" and "y = x\<lparr>nid := Some (calculate_id H x)\<rparr>"
    and "case get_node st (calculate_id H x) of None \<Rightarrow> True | Some m \<Rightarrow> m = y"
    and "st' = st\<lparr>tlocal := dict_put (calculate_id H x) y (tlocal st)\<rparr>"
  shows "extends (get_node st) (get_node st')" and "ids_ok H st'"
    and "get_node st' (calculate_id H x) = Some y"
proof -
  have get': "get_node st' i = (if i = calculate_id H x then Some y else get_node st i)" for i
    by (simp add: get_node_def assms(5) split: option.splits)
  have y: "calculate_id H y = calculate_id H x" "nid y = Some (calculate_id H x)"
    by (simp_all add: assms(3) calculate_id_def)
  show "extends (get_node st) (get_node st')"
    using assms(4) by (auto simp: extends_def get' split: option.splits)
  show "ids_ok H st'" using assms(1) y by (auto simp: ids_ok_def get')
  show "get_node st' (calculate_id H x) = Some y" by (simp add: get')
qed

lemma calculate_id_reps_irrelevant [simp]: "calculate_id H (n\<lparr>nid := i\<rparr>) = calculate_id H n"
  by (simp add: calculate_id_def)

lemma produces_base:
  assumes "nid x = None" and "nkey x = p" and "nlength x = length p"
    and "child_rel (below (get_node st) p) (nchildren x) cs"
  shows "produces H st [(lm, x)] lm p (PNode (ncontent x) cs)"
  unfolding produces_def
proof (intro impI)
  assume ids: "ids_ok H st" and clash: "no_clash H None [(lm, x)] st"
  define y where "y = x\<lparr>nid := Some (calculate_id H x)\<rparr>"
  define st' where "st' = st\<lparr>tlocal := dict_put (calculate_id H x) y (tlocal st)\<rparr>"
  have up: "update_id H (link_child None x) = Inr y"
    using assms(1) by (simp add: update_id_def link_child_def y_def)
  have "case get_node st (calculate_id H x) of None \<Rightarrow> True | Some m \<Rightarrow> m = y"
    using clash up y_def [THEN arg_cong, of nid] by simp
  note st = store_node [OF ids assms(1) y_def this st'_def]
  have "reps (get_node st') p y (PNode (ncontent x) cs)"
    using assms(2-4) below_extends [OF assms(4) st(1)] by (simp add: reps_PNode y_def)
  moreover have "link_path H None [(lm, x)] st = (Inr (Some (lm, y)), st')"
    using up by (simp add: sm_simps st'_def y_def)
  moreover have "nid y = Some (calculate_id H x)" by (simp add: y_def)
  moreover have "tdb st' = tdb st" "troot st' = troot st" by (simp_all add: st'_def)
  ultimately show "\<exists>n st' i. link_path H None [(lm, x)] st = (Inr (Some (lm, n)), st') \<and>
         nid n = Some i \<and> get_node st' i = Some n \<and> reps (get_node st') p n (PNode (ncontent x) cs) \<and>
         extends (get_node st) (get_node st') \<and> ids_ok H st' \<and> tdb st' = tdb st \<and> troot st' = troot st"
    using st by blast
qed

lemma produces_snoc:
  assumes path: "produces H st path m (p @ m) t"
    and x: "nid x = None" "nkey x = p" "nlength x = length p" "m \<notin> fst ` set (nchildren x)"
    and below: "child_rel (below (get_node st) p) (nchildren x) cs"
  shows "produces H st (path @ [(lm, x)]) lm p (PNode (ncontent x) (cs @ [(m, t)]))"
  unfolding produces_def
proof (intro impI)
  assume ids: "ids_ok H st" and clash: "no_clash H None (path @ [(lm, x)]) st"
  then have "no_clash H None path st" by (simp add: no_clash_append)
  then obtain n1 st1 i1 where n1: "link_path H None path st = (Inr (Some (m, n1)), st1)"
      "nid n1 = Some i1" "get_node st1 i1 = Some n1" "reps (get_node st1) (p @ m) n1 t"
      "extends (get_node st) (get_node st1)" "ids_ok H st1" "tdb st1 = tdb st" "troot st1 = troot st"
    using path ids unfolding produces_def by blast
  define z where "z = x\<lparr>nchildren := nchildren x @ [(m, i1)]\<rparr>"
  define y where "y = z\<lparr>nid := Some (calculate_id H z)\<rparr>"
  define st' where "st' = st1\<lparr>tlocal := dict_put (calculate_id H z) y (tlocal st1)\<rparr>"
  have z: "nid z = None" by (simp add: z_def x(1))
  have up: "update_id H (link_child (Some (m, n1)) x) = Inr y"
    using x(4) n1(2) z by (simp add: update_id_def link_child_def y_def z_def dict_put_new)
  have "case get_node st1 (calculate_id H z) of None \<Rightarrow> True | Some m \<Rightarrow> m = y"
    using clash up n1(1) y_def [THEN arg_cong, of nid] by (simp add: no_clash_append)
  note st = store_node [OF n1(6) z y_def this st'_def]
  have ext: "extends (get_node st) (get_node st')" using n1(5) st(1) by (rule extends_trans)
  have "below (get_node st') p m i1 t"
    using n1(3,4) st(1) reps_extends by (meson extends_def)
  then have "child_rel (below (get_node st') p) (nchildren y) (cs @ [(m, t)])"
    using below_extends [OF below ext] by (simp add: y_def z_def list_all2_appendI)
  then have "reps (get_node st') p y (PNode (ncontent x) (cs @ [(m, t)]))"
    using x by (simp add: reps_PNode y_def z_def)
  moreover have "link_path H None (path @ [(lm, x)]) st = (Inr (Some (lm, y)), st')"
    using up n1(1) by (simp add: link_path_append sm_simps st'_def y_def)
  moreover have "nid y = Some (calculate_id H z)" by (simp add: y_def)
  moreover have "tdb st' = tdb st" "troot st' = troot st" using n1(7,8) by (simp_all add: st'_def)
  ultimately show "\<exists>n st' i. link_path H None (path @ [(lm, x)]) st = (Inr (Some (lm, n)), st') \<and>
         nid n = Some i \<and> get_node st' i = Some n \<and>
         reps (get_node st') p n (PNode (ncontent x) (cs @ [(m, t)])) \<and>
         extends (get_node st) (get_node st') \<and> ids_ok H st' \<and> tdb st' = tdb st \<and> troot st' = troot st"
    using st ext by blast
qed

section \<open>Updating\<close>

lemma copy_path_append:
  "copy_path prev (xs @ ys) =
     (case copy_path prev xs of
        Inl e \<Rightarrow> Inl e
      | Inr as \<Rightarrow>
          (case copy_path (if xs = [] then prev else fst (last xs)) ys of
             Inl e \<Rightarrow> Inl e | Inr bs \<Rightarrow> Inr (as @ bs)))"
proof (induction xs arbitrary: prev)
  case (Cons x xs)
  then show ?case by (cases x) (auto split: sum.splits)
qed (simp split: sum.splits)

text \<open>
  The nodes created at the end of the search: for a node that represents \<open>t\<close> and from which the search
  does not go on, they produce the updated tree.
\<close>

lemma dict_del_child [simp]: "dict_del = del_child"
  by (simp add: fun_eq_iff dict_del_def del_child_def)

lemma update_nodes_found:
  assumes "reps (get_node st) p n (PNode c cs)"
  shows "produces H st (rev (update_nodes p v lm n)) lm p (PNode (Some v) cs)"
proof -
  have n: "nkey n = p" "nlength n = length p" "child_rel (below (get_node st) p) (nchildren n) cs"
    using assms by (simp_all add: reps_PNode)
  let ?x = "node_copy n (Some v) None"
  have "produces H st [(lm, ?x)] lm p (PNode (ncontent ?x) cs)"
    by (rule produces_base) (simp_all add: node_copy_def n)
  then show ?thesis by (simp add: update_nodes_def n(1) node_copy_def)
qed

lemma update_nodes_add:
  assumes n: "reps (get_node st) p n (PNode c cs)" and k: "k \<noteq> []" "find_common cs k = None"
    and "k \<notin> fst ` set cs"
  shows "produces H st (rev (update_nodes (p @ k) v lm n)) lm p (PNode c (cs @ [(k, PNode (Some v) [])]))"
proof -
  have n: "nkey n = p" "nlength n = length p" "ncontent n = c"
      "child_rel (below (get_node st) p) (nchildren n) cs"
    using n by (simp_all add: reps_PNode)
  have "find_common (nchildren n) k = None"
    using child_rel_find_common [OF n(4), of k] k(2) by (auto split: option.splits)
  then have "rev (update_nodes (p @ k) v lm n) = [(k, new_node (p @ k) (Some v) [])] @ [(lm, node_copy n None None)]"
    using k(1) n by (simp add: update_nodes_def Let_def find_common_find)
  moreover have "produces H st [(k, new_node (p @ k) (Some v) [])] k (p @ k) (PNode (Some v) [])"
    using produces_base [of "new_node (p @ k) (Some v) []" "p @ k" st "[]" H k] by (simp add: new_node_def)
  moreover have "k \<notin> fst ` set (nchildren n)"
    using assms(4) child_rel_keys [OF n(4)] by (metis image_set)
  ultimately show ?thesis
    using produces_snoc [of H st "[(k, new_node (p @ k) (Some v) [])]" k p _ "node_copy n None None" cs lm] n
    by (simp add: node_copy_def)
qed

lemma update_nodes_split:
  assumes n: "reps (get_node st) p n (PNode c cs)" and k: "k \<noteq> []" "find_common cs k = Some (key, t)"
    and np: "\<not> prefix key k" and ok: "child_keys_ok cs"
  shows "produces H st (rev (update_nodes (p @ k) v lm n)) lm p
           (PNode c (del_child key cs @ [psplit k key t v]))"
proof -
  have n: "nkey n = p" "nlength n = length p" "ncontent n = c"
      "child_rel (below (get_node st) p) (nchildren n) cs"
    using n by (simp_all add: reps_PNode)
  obtain i m where i: "find_common (nchildren n) k = Some (key, i)" "get_node st i = Some m"
      "reps (get_node st) (p @ key) m t"
    using child_rel_find_common [OF n(4), of k] k(2) by (auto split: option.splits)
  have mem: "(key, t) \<in> set cs" "common_len k key \<noteq> 0" using find_common_SomeD [OF k(2)] by auto
  define j where "j = common_len k key"
  have j: "j \<le> length k" "j < length key" "take j k = take j key" "j \<noteq> 0"
    using common_len_le [of k key] take_common_len [of k key] np mem(2)
    by (auto simp: j_def prefix_common_len)
  let ?parent = "node_copy n None (Some (del_child key (nchildren n)))"
  let ?split = "\<lambda>c. new_node (p @ take j k) c [(drop j key, i)]"
  have "p @ take j k @ drop j key = p @ key" by (simp add: j(3))
  then have below: "child_rel (below (get_node st) (p @ take j k)) [(drop j key, i)] [(drop j key, t)]"
    using i by simp
  have del: "child_rel (below (get_node st) p) (del_child key (nchildren n)) (del_child key cs)"
    using child_rel_del [OF n(4), of key] by simp
  have "hd (take j k) = hd key" "take j k \<noteq> []" using j by (auto simp: hd_take)
  then have "child_for (del_child key cs) (hd (take j k)) = None"
    using child_for_del [OF ok mem(1), of "hd key"] by simp
  then have "take j k \<notin> fst ` set (del_child key cs)"
    by (force simp: child_for_None)
  then have new: "take j k \<notin> fst ` set (del_child key (nchildren n))"
    using child_rel_keys [OF del] by (metis image_set)
  have top: "produces H st (path @ [(lm, ?parent)]) lm p (PNode c (del_child key cs @ [(take j k, u)]))"
    if "produces H st path (take j k) (p @ take j k) u" for path u
    using produces_snoc [OF that, of ?parent "del_child key cs" lm] n new del by (simp add: node_copy_def)
  have nodes: "rev (update_nodes (p @ k) v lm n) =
      (if j = length k then [(take j k, ?split (Some v))]
       else [(drop j k, new_node (p @ k) (Some v) []), (take j k, ?split None)]) @ [(lm, ?parent)]"
  proof -
    have "find (\<lambda>(k', _). find_longest_common_prefix k k' \<ge> 0) (nchildren n) = Some (key, i)"
      unfolding find_common_find by (rule i(1))
    moreover have "find_longest_common_prefix k key = int j - 1"
      by (simp add: find_longest_common_prefix_eq j_def)
    moreover have "take j k = k \<longleftrightarrow> j = length k" using j(1) by auto
    ultimately show ?thesis
      using k(1) n(1,2) j(1) by (simp add: update_nodes_def Let_def)
  qed
  show ?thesis
  proof (cases "j = length k")
    case True
    have "produces H st [(take j k, ?split (Some v))] (take j k) (p @ take j k)
            (PNode (Some v) [(drop j key, t)])"
      using produces_base [of "?split (Some v)" "p @ take j k" st "[(drop j key, t)]" H "take j k"] below
      by (simp add: new_node_def)
    from top [OF this] show ?thesis
      using True by (simp add: nodes psplit_def Let_def flip: j_def)
  next
    case False
    let ?leaf = "new_node (p @ k) (Some v) []"
    have kk: "(p @ take j k) @ drop j k = p @ k" by simp
    have "produces H st [(drop j k, ?leaf)] (drop j k) ((p @ take j k) @ drop j k) (PNode (Some v) [])"
      using produces_base [of ?leaf "p @ k" st "[]" H "drop j k"] unfolding kk by (simp add: new_node_def)
    moreover have "drop j k \<notin> fst ` set [(drop j key, i)]"
      using common_len_differ [of k key] j False by (auto simp: j_def [symmetric])
    ultimately have "produces H st ([(drop j k, ?leaf)] @ [(take j k, ?split None)]) (take j k) (p @ take j k)
            (PNode None ([(drop j key, t)] @ [(drop j k, PNode (Some v) [])]))"
      using produces_snoc [of H st "[(drop j k, ?leaf)]" "drop j k" "p @ take j k" _ "?split None"
          "[(drop j key, t)]" "take j k"] below by (simp add: new_node_def)
    from top [OF this] show ?thesis
      using False by (simp add: nodes psplit_def Let_def flip: j_def)
  qed
qed

text \<open>The whole path, by induction on the tree: search down, then copy and link upwards.\<close>

lemma update_path:
  assumes "reps (get_node st) p n t" and "pwf t" and "key = p @ k" and "length k < fuel"
  shows "\<exists>n' P C. find_nearest_loop fuel (get_node st) key lm n L = Inr (n', L @ P) \<and>
           P \<noteq> [] \<and> fst (hd P) = lm \<and> copy_path (fst (last P)) (rev (butlast P)) = Inr C \<and>
           produces H st (rev (update_nodes key v (fst (last P)) n') @ C) lm p (pupdate t k v)"
  using assms
proof (induction t k v arbitrary: p n fuel lm L rule: pupdate.induct)
  case (1 c cs k v)
  obtain f where f: "fuel = Suc f" using "1.prems"(4) by (cases fuel) auto
  note rn = "1.prems"(1)
  have n: "nkey n = p" "nlength n = length p" "ncontent n = c"
      "child_rel (below (get_node st) p) (nchildren n) cs"
    using rn by (simp_all add: reps_PNode)
  have ok: "child_keys_ok cs" using "1.prems"(2) by simp
  have here: ?case
    if "find_nearest_loop fuel (get_node st) key lm n L = Inr (n, L @ [(lm, n)])"
      and "produces H st (rev (update_nodes key v lm n)) lm p (pupdate (PNode c cs) k v)"
    using that by (intro exI [of _ n] exI [of _ "[(lm, n)]"] exI [of _ "[]"]) simp
  consider "k = []" | "k \<noteq> []" "find_prefix cs k = None" "find_common cs k = None"
    | m t where "k \<noteq> []" "find_prefix cs k = None" "find_common cs k = Some (m, t)"
    | m t where "k \<noteq> []" "find_prefix cs k = Some (m, t)"
    by (cases "find_prefix cs k"; cases "find_common cs k") force+
  then show ?case
  proof cases
    case 1
    then show ?thesis
      using update_nodes_found [OF rn, of H v lm] "1.prems"(3) n(1)
      by (intro here) (simp_all add: f pupdate.simps)
  next
    case 2
    have "k \<notin> fst ` set cs" using 2(2) by (force simp: find_prefix_None)
    moreover have "find_prefix (nchildren n) k = None"
      using child_rel_find_prefix [OF n(4), of k] 2(2) by (auto split: option.splits)
    ultimately show ?thesis
      using update_nodes_add [OF rn 2(1,3), of H v lm] "1.prems"(3) n 2
      by (intro here) (simp_all add: f Let_def pupdate.simps)
  next
    case (3 m t)
    have "\<not> prefix m k" using 3(2) find_common_SomeD [OF 3(3)] by (auto simp: find_prefix_None)
    moreover have "find_prefix (nchildren n) k = None"
      using child_rel_find_prefix [OF n(4), of k] 3(2) by (auto split: option.splits)
    ultimately show ?thesis
      using update_nodes_split [OF rn 3(1,3) _ ok, of H v lm] "1.prems"(3) n 3
      by (intro here) (simp_all add: f Let_def pupdate.simps)
  next
    case (4 m t)
    obtain i n1 where i: "find_prefix (nchildren n) k = Some (m, i)" "get_node st i = Some n1"
        "reps (get_node st) (p @ m) n1 t"
      using child_rel_find_prefix [OF n(4), of k] 4(2) by (auto split: option.splits)
    have mem: "(m, t) \<in> set cs" "prefix m k" using find_prefix_SomeD [OF 4(2)] by auto
    then obtain k1 where k1: "k = m @ k1" by (auto simp: prefix_def)
    have wf: "m \<noteq> []" "pwf t" using "1.prems"(2) mem by (auto simp: child_keys_ok_def)
    have "length k1 < f" using "1.prems"(4) wf(1) by (simp add: f k1) (cases m; simp)
    then obtain n' P C where IH:
        "find_nearest_loop f (get_node st) key m n1 (L @ [(lm, n)]) = Inr (n', (L @ [(lm, n)]) @ P)"
        "P \<noteq> []" "fst (hd P) = m" "copy_path (fst (last P)) (rev (butlast P)) = Inr C"
        "produces H st (rev (update_nodes key v (fst (last P)) n') @ C) m (p @ m) (pupdate t k1 v)"
      using "1.IH" [OF 4(1,2) refl i(3) wf(2), of f m "L @ [(lm, n)]"] "1.prems"(3)
      by (auto simp: k1)
    let ?x = "node_copy n None (Some (del_child m (nchildren n)))"
    have "(if rev (butlast P) = [] then fst (last P) else fst (last (rev (butlast P)))) = m"
      using IH(2,3) by (cases P) (auto simp: last_rev)
    moreover have "dict_has (nchildren n) m"
      using find_prefix_SomeD [OF i(1)] by (force simp: dict_has_def map_of_eq_None_iff)
    ultimately have copy: "copy_path (fst (last P)) (rev (butlast P) @ [(lm, n)]) = Inr (C @ [(lm, ?x)])"
      by (simp add: copy_path_append IH(4))
    have "m \<notin> fst ` set (del_child m (nchildren n))" by (auto simp: del_child_def)
    then have "produces H st (rev (update_nodes key v (fst (last P)) n') @ C @ [(lm, ?x)]) lm p
        (PNode c (del_child m cs @ [(m, pupdate t k1 v)]))"
      using produces_snoc [OF IH(5), of ?x "del_child m cs" lm] n child_rel_del [OF n(4), of m]
      by (simp add: node_copy_def)
    moreover have "find_nearest_loop fuel (get_node st) key lm n L = Inr (n', L @ (lm, n) # P)"
      using IH(1) i 4(1) n(1,2) "1.prems"(3) by (simp add: f Let_def)
    ultimately show ?thesis
      using IH(2) copy 4
      by (rule_tac exI [of _ n'], rule_tac exI [of _ "(lm, n) # P"], rule_tac exI [of _ "C @ [(lm, ?x)]"])
         (simp add: pupdate.simps k1 wf(1))
  qed
qed

section \<open>The trie refines the tree\<close>

text \<open>
  The store agrees with the local changes and holds the children of every node it holds.
\<close>

definition db_ok :: "trie \<Rightarrow> bool" where
  "db_ok st \<longleftrightarrow>
     extends (dict_get (tdb st)) (get_node st) \<and>
     (\<forall>i n. dict_get (tdb st) i = Some n \<longrightarrow> (\<forall>c \<in> set (nchildren n). dict_get (tdb st) (snd c) \<noteq> None))"

text \<open>A trie object stands for the tree \<open>t\<close>.\<close>

definition trie_rel :: "(bytes \<Rightarrow> bytes) \<Rightarrow> trie \<Rightarrow> ptree \<Rightarrow> bool" where
  "trie_rel H st t \<longleftrightarrow>
     reps (get_node st) [] (troot st) t \<and> pwf t \<and> compressed t \<and> ids_ok H st \<and>
     (\<exists>i. nid (troot st) = Some i \<and> get_node st i = Some (troot st)) \<and>
     db_ok st"

definition update_path_nodes :: "bytes \<Rightarrow> bytes \<Rightarrow> trie \<Rightarrow> (bytes \<times> node) list" where
  "update_path_nodes key content st =
     (case find_nearest_node st key None of
        Inl e \<Rightarrow> []
      | Inr (parent, log_path) \<Rightarrow>
          (let new_nodes = update_nodes key content (fst (last log_path)) parent
           in case copy_path (fst (hd new_nodes)) (rev (butlast log_path)) of
                Inl e \<Rightarrow> []
              | Inr log_path_copy \<Rightarrow> rev new_nodes @ log_path_copy))"

definition collision_free :: "(bytes \<Rightarrow> bytes) \<Rightarrow> bytes \<Rightarrow> bytes \<Rightarrow> trie \<Rightarrow> bool" where
  "collision_free H key content st \<longleftrightarrow>
     no_clash H None (update_path_nodes (encode_key key) content st) st"

lemma fst_hd_update_nodes [simp]: "fst (hd (update_nodes key v lm n)) = lm"
  by (auto simp: update_nodes_def Let_def split: option.splits)

lemma trie_update_rel:
  assumes rel: "trie_rel H st t" and free: "collision_free H key content st"
  shows "\<exists>st'. trie_update H key content st = (Inr (), st') \<and>
           trie_rel H st' (pupdate t (encode_key key) content) \<and>
           extends (get_node st) (get_node st') \<and> tdb st' = tdb st"
proof -
  let ?key = "encode_key key"
  have r: "reps (get_node st) [] (troot st) t" "pwf t" using rel by (simp_all add: trie_rel_def)
  obtain n' P C where P: "find_nearest_loop (length ?key + 2) (get_node st) ?key [] (troot st) [] = Inr (n', P)"
      "P \<noteq> []" "copy_path (fst (last P)) (rev (butlast P)) = Inr C"
      "produces H st (rev (update_nodes ?key content (fst (last P)) n') @ C) [] [] (pupdate t ?key content)"
    using update_path [OF r, of ?key ?key "length ?key + 2" "[]" "[]" H content] by auto
  have find: "find_nearest_node st ?key None = Inr (n', P)"
    using P(1) by (simp add: find_nearest_node_def)
  have "no_clash H None (rev (update_nodes ?key content (fst (last P)) n') @ C) st"
    using free by (simp add: collision_free_def update_path_nodes_def find P(3) Let_def)
  then obtain n st1 i where n: "link_path H None (rev (update_nodes ?key content (fst (last P)) n') @ C) st
        = (Inr (Some ([], n)), st1)"
      "nid n = Some i" "get_node st1 i = Some n" "reps (get_node st1) [] n (pupdate t ?key content)"
      "extends (get_node st) (get_node st1)" "ids_ok H st1" "tdb st1 = tdb st"
    using P(4) rel unfolding produces_def trie_rel_def by blast
  let ?st' = "st1\<lparr>troot := n\<rparr>"
  have get: "get_node ?st' = get_node st1" by (simp add: fun_eq_iff get_node_def split: option.splits)
  have db: "db_ok ?st'"
    using rel n(5,7) get unfolding trie_rel_def db_ok_def by (auto intro: extends_trans)
  have "trie_update H key content st = (Inr (), ?st')"
    using find P(3) n(1) by (simp add: trie_update_def trie_update_raw_def build_path_def sm_simps)
  moreover have "trie_rel H ?st' (pupdate t ?key content)"
    using n rel db by (simp add: trie_rel_def get ids_ok_def pwf_pupdate compressed_pupdate)
  ultimately show ?thesis using n(5,7) get by (intro exI [of _ ?st']) simp
qed

lemma trie_get_rel:
  assumes "trie_rel H st t"
  shows "trie_get key None st =
           (if key = [] then Inl KeyError
            else case plookup t (encode_key key) of None \<Rightarrow> Inl KeyError | Some c \<Rightarrow> Inr c)"
proof -
  let ?key = "encode_key key"
  have "reps (get_node st) [] (troot st) t" "pwf t" using assms by (simp_all add: trie_rel_def)
  from find_nearest_loop_lookup [OF this, of ?key ?key "length ?key + 2" "[]" "[]"]
  obtain n log where "find_nearest_node st ?key None = Inr (n, log)"
      "(if nkey n = ?key then ncontent n else None) = plookup t ?key"
    by (auto simp: find_nearest_node_def)
  moreover have "?key = [] \<longleftrightarrow> key = []" by (cases key) (simp_all add: encode_key_def)
  ultimately show ?thesis
    by (auto simp: trie_get_def trie_get_raw_def split: option.splits if_splits)
qed

end
