(* ===== verification/Patricia_Commit.thy ===== *)
theory Patricia_Commit
  imports Patricia_Refine
begin

text \<open>
  Committing a trie moves the nodes reachable from the root to the store and keeps what the trie stands
  for; and the properties of the trie.
\<close>

section \<open>The commit\<close>

text \<open>
  During the descent the store grows by nodes that the trie already had; \<open>st0\<close> is the trie before it.
\<close>

definition committing :: "trie \<Rightarrow> trie \<Rightarrow> bool" where
  "committing st0 st \<longleftrightarrow>
     tlocal st = tlocal st0 \<and> troot st = troot st0 \<and>
     extends (dict_get (tdb st0)) (dict_get (tdb st)) \<and> extends (dict_get (tdb st)) (get_node st0)"

text \<open>The nodes added between two moments have their children in the store.\<close>

definition added_closed :: "trie \<Rightarrow> trie \<Rightarrow> bool" where
  "added_closed st st' \<longleftrightarrow>
     (\<forall>i n. dict_get (tdb st') i = Some n \<longrightarrow> dict_get (tdb st) i = Some n \<or>
        (\<forall>c \<in> set (nchildren n). dict_get (tdb st') (snd c) \<noteq> None))"

lemma added_closed_trans:
  assumes "added_closed a b" "added_closed b c" "extends (dict_get (tdb b)) (dict_get (tdb c))"
  shows "added_closed a c"
  using assms unfolding added_closed_def extends_def by (metis option.exhaust)

lemma added_closed_refl [simp]: "added_closed st st"
  by (simp add: added_closed_def)

text \<open>The local nodes with a key longer than \<open>p\<close> bound the descent below \<open>p\<close>.\<close>

definition deeper :: "trie \<Rightarrow> nat \<Rightarrow> nat" where
  "deeper st l = card {i. \<exists>m. dict_get (tlocal st) i = Some m \<and> l < nlength m}"

lemma finite_deeper: "finite {i. \<exists>m. dict_get (tlocal st) i = Some m \<and> l < nlength m}"
  by (rule finite_subset [OF _ finite_dom_map_of [of "tlocal st"]]) auto

lemma deeper_less:
  assumes "dict_get (tlocal st) i = Some m" and "l < nlength m" and "l' = nlength m"
  shows "deeper st l' < deeper st l"
  unfolding deeper_def
proof (rule psubset_card_mono [OF finite_deeper])
  have "i \<in> {i. \<exists>m. dict_get (tlocal st) i = Some m \<and> l < nlength m}"
      "i \<notin> {i. \<exists>m. dict_get (tlocal st) i = Some m \<and> l' < nlength m}"
    using assms by auto
  moreover have "{i. \<exists>m. dict_get (tlocal st) i = Some m \<and> l' < nlength m}
      \<subseteq> {i. \<exists>m. dict_get (tlocal st) i = Some m \<and> l < nlength m}"
    using assms(2,3) by fastforce
  ultimately show "{i. \<exists>m. dict_get (tlocal st) i = Some m \<and> l' < nlength m}
      \<subset> {i. \<exists>m. dict_get (tlocal st) i = Some m \<and> l < nlength m}" by blast
qed

lemma deeper_le: "deeper st l \<le> length (tlocal st)"
proof -
  have "deeper st l \<le> card (dom (dict_get (tlocal st)))"
    unfolding deeper_def by (rule card_mono [OF finite_dom_map_of]) auto
  also have "\<dots> \<le> length (tlocal st)"
    by (simp add: dom_map_of_conv_image_fst) (metis card_image_le card_length finite_set le_trans)
  finally show ?thesis .
qed

definition commit_child :: "nat \<Rightarrow> node_id \<Rightarrow> (trie, unit) sm" where
  "commit_child fuel child_id =
     sbind (sget (\<lambda>st. (dict_get (tlocal st) child_id, dict_has (tdb st) child_id))) (\<lambda>(child, in_db).
       case child of Some m \<Rightarrow> commit_dfs fuel m | None \<Rightarrow> sassert in_db)"

lemma commit_dfs_Suc:
  "commit_dfs (Suc fuel) n =
     sthen (add_to_db_or_assert n) (sfor (map snd (nchildren n)) (commit_child fuel))"
  by (simp add: commit_child_def [abs_def])

text \<open>What one call of the descent achieves, for a node known to \<open>st0\<close>.\<close>

definition commits :: "trie \<Rightarrow> (trie, unit) sm \<Rightarrow> node_id \<Rightarrow> bool" where
  "commits st0 f i \<longleftrightarrow>
     (\<forall>st. committing st0 st \<longrightarrow>
        (\<exists>st'. f st = (Inr (), st') \<and> committing st0 st' \<and>
           extends (dict_get (tdb st)) (dict_get (tdb st')) \<and> added_closed st st' \<and>
           dict_get (tdb st') i \<noteq> None))"

lemma commits_list:
  assumes "\<And>i. i \<in> set is \<Longrightarrow> commits st0 (f i) i" and "committing st0 st"
  shows "\<exists>st'. sfor is f st = (Inr (), st') \<and> committing st0 st' \<and>
           extends (dict_get (tdb st)) (dict_get (tdb st')) \<and> added_closed st st' \<and>
           (\<forall>i \<in> set is. dict_get (tdb st') i \<noteq> None)"
  using assms
proof (induction "is" arbitrary: st)
  case Nil
  then show ?case by (simp add: sm_simps)
next
  case (Cons i "is")
  obtain st1 where st1: "f i st = (Inr (), st1)" "committing st0 st1"
      "extends (dict_get (tdb st)) (dict_get (tdb st1))" "added_closed st st1" "dict_get (tdb st1) i \<noteq> None"
    using Cons.prems unfolding commits_def by (meson list.set_intros(1))
  obtain st2 where st2: "sfor is f st1 = (Inr (), st2)" "committing st0 st2"
      "extends (dict_get (tdb st1)) (dict_get (tdb st2))" "added_closed st1 st2"
      "\<forall>i \<in> set is. dict_get (tdb st2) i \<noteq> None"
    using Cons.IH [OF _ st1(2)] Cons.prems(1) by auto
  have "dict_get (tdb st2) i \<noteq> None" using st1(5) st2(3) unfolding extends_def by auto
  then show ?case
    using st1 st2 added_closed_trans [OF st1(4) st2(4,3)] extends_trans [OF st1(3) st2(3)]
    by (intro exI [of _ st2]) (simp add: sm_simps)
qed

lemma add_to_db_ok:
  assumes "committing st0 st" and "nid n = Some i" and "get_node st0 i = Some n"
  shows "\<exists>st1. add_to_db_or_assert n st = (Inr (), st1) \<and> committing st0 st1 \<and>
           extends (dict_get (tdb st)) (dict_get (tdb st1)) \<and> dict_get (tdb st1) i = Some n \<and>
           (\<forall>j m. dict_get (tdb st1) j = Some m \<longrightarrow> dict_get (tdb st) j = Some m \<or> m = n)"
proof (cases "dict_get (tdb st) i")
  case None
  then show ?thesis
    using assms by (auto simp: add_to_db_or_assert_def committing_def extends_def)
next
  case (Some m)
  then have "m = n" using assms unfolding committing_def extends_def by (metis option.inject)
  then show ?thesis using assms Some by (auto simp: add_to_db_or_assert_def)
qed

lemma commit_dfs_commits:
  assumes ids: "ids_ok H st0"
  shows "reps (get_node st0) p n t \<Longrightarrow> pwf t \<Longrightarrow> nid n = Some i \<Longrightarrow> get_node st0 i = Some n \<Longrightarrow>
           deeper st0 (length p) < fuel \<Longrightarrow> commits st0 (commit_dfs fuel n) i"
proof (induction fuel arbitrary: p n t i)
  case (Suc fuel)
  obtain c cs where t: "t = PNode c cs" by (cases t)
  have n: "nlength n = length p" "child_rel (below (get_node st0) p) (nchildren n) cs"
    using Suc.prems(1) by (simp_all add: t reps_PNode)
  have child: "commits st0 (commit_child fuel j) j" if j: "j \<in> set (map snd (nchildren n))" for j
  proof -
    obtain k where k: "(k, j) \<in> set (nchildren n)" using j by force
    then obtain u where u: "(k, u) \<in> set cs" "below (get_node st0) p k j u"
      using n(2) by (auto simp: list_all2_conv_all_nth set_conv_nth) (metis fst_conv snd_conv prod.collapse)
    then obtain m where m: "get_node st0 j = Some m" "reps (get_node st0) (p @ k) m u" by auto
    have wf: "k \<noteq> []" "pwf u" using Suc.prems(2) u(1) by (auto simp: t child_keys_ok_def)
    have len: "nlength m = length (p @ k)" using m(2) by (cases u) (simp add: reps_PNode)
    have nid: "nid m = Some j" using ids m(1) by (simp add: ids_ok_def)
    show ?thesis
    proof (cases "dict_get (tlocal st0) j")
      case None
      then have "dict_get (tdb st0) j = Some m" using m(1) by (simp add: get_node_def)
      with None show ?thesis
        unfolding commits_def commit_child_def
        by (auto simp: sm_simps committing_def dict_has_def extends_def)
    next
      case (Some m')
      then have m': "m' = m" using m(1) by (simp add: get_node_def)
      have "deeper st0 (length (p @ k)) < deeper st0 (length p)"
        by (rule deeper_less [OF Some]) (use len m' wf(1) in auto)
      then have "commits st0 (commit_dfs fuel m) j"
        using Suc.prems(5) by (intro Suc.IH [OF m(2) wf(2) nid m(1)]) simp
      then show ?thesis
        using Some m' unfolding commits_def commit_child_def
        by (auto simp: sm_simps committing_def)
    qed
  qed
  show ?case
    unfolding commits_def
  proof (intro allI impI)
    fix st
    assume "committing st0 st"
    from add_to_db_ok [OF this Suc.prems(3,4)] obtain st1 where st1:
        "add_to_db_or_assert n st = (Inr (), st1)" "committing st0 st1"
        "extends (dict_get (tdb st)) (dict_get (tdb st1))" "dict_get (tdb st1) i = Some n"
        "\<And>j m. dict_get (tdb st1) j = Some m \<Longrightarrow> dict_get (tdb st) j = Some m \<or> m = n"
      by blast
    from commits_list [OF child st1(2)] obtain st2 where st2:
        "sfor (map snd (nchildren n)) (commit_child fuel) st1 = (Inr (), st2)" "committing st0 st2"
        "extends (dict_get (tdb st1)) (dict_get (tdb st2))" "added_closed st1 st2"
        "\<forall>j \<in> set (map snd (nchildren n)). dict_get (tdb st2) j \<noteq> None"
      by blast
    have "added_closed st st2"
      using st1(5) st2(4,5) unfolding added_closed_def by fastforce
    moreover have "dict_get (tdb st2) i \<noteq> None" using st1(4) st2(3) unfolding extends_def by auto
    moreover have "commit_dfs (Suc fuel) n st = (Inr (), st2)"
      unfolding commit_dfs_Suc using st1(1) st2(1) by (simp add: sm_simps)
    ultimately show "\<exists>st'. commit_dfs (Suc fuel) n st = (Inr (), st') \<and> committing st0 st' \<and>
        extends (dict_get (tdb st)) (dict_get (tdb st')) \<and> added_closed st st' \<and> dict_get (tdb st') i \<noteq> None"
      using st2(2) extends_trans [OF st1(3) st2(3)] by blast
  qed
qed simp

text \<open>A closed part of the store that holds the children of a node represents what the node does.\<close>

lemma reps_store:
  assumes ext: "extends db get"
    and closed: "\<And>i m c. db i = Some m \<Longrightarrow> c \<in> set (nchildren m) \<Longrightarrow> db (snd c) \<noteq> None"
  shows "reps get p n t \<Longrightarrow> \<forall>c \<in> set (nchildren n). db (snd c) \<noteq> None \<Longrightarrow> reps db p n t"
proof (induction t arbitrary: p n)
  case (PNode c cs)
  have "child_rel (below db p) (nchildren n) cs"
  proof (rule list.rel_mono_strong)
    show "child_rel (below get p) (nchildren n) cs" using PNode.prems(1) by (simp add: reps_PNode)
    fix a b
    assume a: "a \<in> set (nchildren n)" and b: "b \<in> set cs"
      and rel: "fst b = fst a \<and> below get p (fst a) (snd a) (snd b)"
    then obtain m where m: "get (snd a) = Some m" "reps get (p @ fst a) m (snd b)" by auto
    then have db: "db (snd a) = Some m"
      using PNode.prems(2) a ext by (fastforce simp: extends_def)
    have "snd b \<in> Basic_BNFs.snds b" by (cases b) auto
    from PNode.IH [OF b this m(2)] db closed show
      "fst b = fst a \<and> below db p (fst a) (snd a) (snd b)" using rel by auto
  qed
  with PNode.prems(1) show ?case by (simp add: reps_PNode)
qed

lemma trie_commit_rel:
  assumes rel: "trie_rel H st t"
  shows "\<exists>st'. trie_commit st = (Inr (), st') \<and> trie_rel H st' t \<and> tlocal st' = [] \<and>
           troot st' = troot st \<and> extends (dict_get (tdb st)) (dict_get (tdb st'))"
proof -
  obtain i where i: "nid (troot st) = Some i" "get_node st i = Some (troot st)"
    using rel by (auto simp: trie_rel_def)
  have r: "reps (get_node st) [] (troot st) t" "pwf t" "ids_ok H st" "db_ok st"
    using rel by (simp_all add: trie_rel_def)
  have "deeper st (length []) < commit_fuel st"
    using deeper_le [of st 0] by (simp add: commit_fuel_def)
  moreover have "committing st st" using r(4) by (simp add: committing_def db_ok_def)
  ultimately obtain st1 where st1: "commit_dfs (commit_fuel st) (troot st) st = (Inr (), st1)"
      "committing st st1" "added_closed st st1" "dict_get (tdb st1) i \<noteq> None"
    using commit_dfs_commits [OF r(3,1,2) i] unfolding commits_def by blast
  let ?st' = "st1\<lparr>tlocal := []\<rparr>" and ?db = "dict_get (tdb st1)"
  have get: "get_node ?st' = ?db" by (simp add: fun_eq_iff get_node_def)
  have ext: "extends ?db (get_node st)" "extends (dict_get (tdb st)) ?db" "troot st1 = troot st"
    using st1(2) by (simp_all add: committing_def)
  have closed: "dict_get (tdb st1) (snd c) \<noteq> None" if "?db j = Some m" "c \<in> set (nchildren m)" for j m c
    using st1(3) r(4) ext(2) that unfolding added_closed_def db_ok_def extends_def
    by (metis option.exhaust)
  have root: "?db i = Some (troot st)" using st1(4) ext(1) i(2) by (fastforce simp: extends_def)
  have "reps ?db [] (troot st) t"
    by (rule reps_store [OF ext(1) closed r(1)]) (use closed root in blast)+
  moreover have "ids_ok H ?st'" using r(3) ext(1) by (auto simp: ids_ok_def get extends_def)
  moreover have "db_ok ?st'" using closed by (auto simp: db_ok_def get)
  ultimately have "trie_rel H ?st' t"
    using rel i root ext(3) by (simp add: trie_rel_def get)
  moreover have "trie_commit st = (Inr (), ?st')" using st1(1) by (simp add: trie_commit_def sm_simps)
  ultimately show ?thesis using ext by (intro exI [of _ ?st']) simp
qed

section \<open>Ids\<close>

text \<open>The id of a stored node is the id of the tree it stands for.\<close>

lemma reps_pid:
  assumes ids: "ids_ok H st"
  shows "reps (get_node st) p n t \<Longrightarrow> calculate_id H n = pid H p t"
proof (induction t arbitrary: p n)
  case (PNode c cs)
  then have n: "nkey n = p" "ncontent n = c" "child_rel (below (get_node st) p) (nchildren n) cs"
    by (simp_all add: reps_PNode)
  have "map snd (nchildren n) = map (\<lambda>(key, t). pid H (p @ key) t) cs"
  proof (rule list_all2_eq [THEN iffD2], unfold list_all2_map1 list_all2_map2, rule list.rel_mono_strong [OF n(3)])
    fix a b
    assume b: "b \<in> set cs" and rel: "fst b = fst a \<and> below (get_node st) p (fst a) (snd a) (snd b)"
    then obtain m where m: "get_node st (snd a) = Some m" "reps (get_node st) (p @ fst a) m (snd b)" by auto
    have "snd b \<in> Basic_BNFs.snds b" by (cases b) auto
    from PNode.IH [OF b this m(2)] m(1) ids rel
    show "snd a = (case b of (key, t) \<Rightarrow> pid H (p @ key) t)" by (auto simp: ids_ok_def split: prod.splits)
  qed
  then show ?case by (simp add: calculate_id_def pid.simps n)
qed

lemma trie_root_id:
  assumes "trie_rel H st t"
  shows "nid (troot st) = Some (pid H [] t)"
  using assms reps_pid [of H st "[]" "troot st" t] by (auto simp: trie_rel_def ids_ok_def)

lemma trie_init_rel:
  assumes "trie_init H [] None = Inr st"
  shows "trie_rel H st pempty"
proof -
  define root where "root = (new_node [] None [])\<lparr>nid := Some (calculate_id H (new_node [] None []))\<rparr>"
  have "st = \<lparr>tlocal = [], tdb = [(the (nid root), root)], troot = root\<rparr>"
    using assms by (simp add: trie_init_def update_id_def root_def new_node_def)
  moreover have "calculate_id H root = the (nid root)" by (simp add: root_def)
  ultimately show ?thesis
    by (auto simp: trie_rel_def get_node_def ids_ok_def db_ok_def extends_def reps_PNode pempty_def
        root_def new_node_def)
qed

section \<open>Keys\<close>

lemma unat_hex_digit:
  "unat d < 16 \<Longrightarrow> unat (hex_digit d) = (if unat d < 10 then unat d + 48 else unat d + 87)"
  by (auto simp: hex_digit_def word_less_nat_alt unat_word_ariths)

lemma hex_digit_inj:
  assumes "unat a < 16" "unat b < 16" "hex_digit a = hex_digit b"
  shows "a = b"
proof -
  have "unat (hex_digit a) = unat (hex_digit b)" using assms(3) by simp
  then have "unat a = unat b" using assms(1,2) by (auto simp: unat_hex_digit split: if_splits)
  then show ?thesis by (simp add: word_unat_eq_iff)
qed

lemma unat_byte_less: "unat (b :: byte) < 256"
  by (rule order_less_le_trans [OF unsigned_less]) simp

lemma unat_nibbles: "unat (b div 16 :: byte) = unat b div 16" "unat (b mod 16 :: byte) = unat b mod 16"
  by (simp_all add: unat_div unat_mod)

lemma nibbles_less: "unat (b div 16 :: byte) < 16" "unat (b mod 16 :: byte) < 16"
  using unat_byte_less [of b] by (simp_all add: unat_nibbles less_mult_imp_div_less)

lemma byte_eqI:
  assumes "a div 16 = (b div 16 :: byte)" "a mod 16 = b mod 16"
  shows "a = b"
proof -
  have "unat a div 16 = unat b div 16" "unat a mod 16 = unat b mod 16"
    using assms unat_nibbles [of a] unat_nibbles [of b] by metis+
  then have "unat a = unat b" by (metis div_mult_mod_eq)
  then show ?thesis by (simp add: word_unat_eq_iff)
qed

lemma encode_key_inj: "encode_key a = encode_key b \<Longrightarrow> a = b"
proof (induction a arbitrary: b)
  case Nil
  then show ?case by (cases b) (simp_all add: encode_key_def)
next
  case (Cons x a)
  then obtain y b' where b: "b = y # b'" by (cases b) (simp_all add: encode_key_def)
  have "hex_digit (x div 16) = hex_digit (y div 16)" "hex_digit (x mod 16) = hex_digit (y mod 16)"
      "encode_key a = encode_key b'"
    using Cons.prems by (simp_all add: b encode_key_def)
  then have "x div 16 = y div 16" "x mod 16 = y mod 16" "a = b'"
    by (blast intro: hex_digit_inj nibbles_less Cons.IH)+
  moreover from this have "x = y" by (blast intro: byte_eqI)
  ultimately show ?case using b by blast
qed

lemma encode_key_eq [simp]: "encode_key a = encode_key b \<longleftrightarrow> a = b"
  using encode_key_inj by blast

lemma encode_key_Nil [simp]: "encode_key k = [] \<longleftrightarrow> k = []"
  by (cases k) (simp_all add: encode_key_def)

end
