(* ===== verification/Patricia_Walk.thy ===== *)
theory Patricia_Walk
  imports Patricia_Commit
begin

text \<open>
  Walking over a trie: \<open>iter_dfs\<close> and \<open>_decode_key\<close> of
  \<^verbatim>\<open>hathor/nanocontracts/storage/patricia_trie.py\<close>, with the same walk on the tree a trie stands for.
\<close>

section \<open>The walk of the code\<close>

text \<open>
  The generator \<open>_iter_dfs\<close> as the list of what it yields: nodes, their depth, and whether they are
  leaves. The depth of the recursion is bounded by \<open>fuel\<close>; \<open>dfs_fuel\<close> is enough, because the keys get
  longer on the way down.
\<close>

primrec collect :: "('a \<Rightarrow> exc + 'b list) \<Rightarrow> 'a list \<Rightarrow> exc + 'b list" where
  "collect f [] = Inr []"
| "collect f (x # xs) =
     (case f x of
        Inl e \<Rightarrow> Inl e
      | Inr ys \<Rightarrow> (case collect f xs of Inl e \<Rightarrow> Inl e | Inr zs \<Rightarrow> Inr (ys @ zs)))"

primrec iter_dfs_loop :: "nat \<Rightarrow> trie \<Rightarrow> node \<Rightarrow> nat \<Rightarrow> exc + (node \<times> nat \<times> bool) list" where
  "iter_dfs_loop 0 st n depth = Inl OutOfFuel"
| "iter_dfs_loop (Suc fuel) st n depth =
     (case collect (\<lambda>(_, child_id).
             case get_node st child_id of
               None \<Rightarrow> Inl KeyError
             | Some child \<Rightarrow> iter_dfs_loop fuel st child (depth + 1)) (nchildren n) of
        Inl e \<Rightarrow> Inl e
      | Inr xs \<Rightarrow> Inr ((n, depth, nchildren n = []) # xs))"

definition dfs_fuel :: "trie \<Rightarrow> nat" where
  "dfs_fuel st = length (tlocal st) + length (tdb st) + 1"

definition iter_dfs :: "trie \<Rightarrow> node option \<Rightarrow> exc + (node \<times> nat \<times> bool) list" where
  "iter_dfs st n =
     iter_dfs_loop (dfs_fuel st) st (case n of None \<Rightarrow> troot st | Some m \<Rightarrow> m) 0"

text \<open>
  \<open>bytes.fromhex\<close>: pairs of hexadecimal digits of either case, white space between the pairs ignored;
  anything else is a \<open>ValueError\<close>.
\<close>

definition hex_value :: "byte \<Rightarrow> byte option" where
  "hex_value c =
     (if 48 \<le> c \<and> c \<le> 57 then Some (c - 48)
      else if 97 \<le> c \<and> c \<le> 102 then Some (c - 87)
      else if 65 \<le> c \<and> c \<le> 70 then Some (c - 55)
      else None)"

definition ascii_space :: "byte \<Rightarrow> bool" where
  "ascii_space c \<longleftrightarrow> c = 32 \<or> 9 \<le> c \<and> c \<le> 13"

fun fromhex :: "bytes \<Rightarrow> exc + bytes" where
  "fromhex [] = Inr []"
| "fromhex [c] = (if ascii_space c then Inr [] else Inl ValueError)"
| "fromhex (c # d # cs) =
     (if ascii_space c then fromhex (d # cs)
      else case (hex_value c, hex_value d) of
             (Some h, Some l) \<Rightarrow>
               (case fromhex cs of Inl e \<Rightarrow> Inl e | Inr bs \<Rightarrow> Inr ((16 * h + l) # bs))
           | _ \<Rightarrow> Inl ValueError)"

definition decode_key :: "bytes \<Rightarrow> exc + bytes" where
  "decode_key key = fromhex (if length key mod 2 = 1 then key @ [48] else key)"

section \<open>The walk on the tree\<close>

text \<open>The nodes below the key \<open>p\<close> in the order of the walk, with their keys and contents.\<close>

function pdfs :: "bytes \<Rightarrow> ptree \<Rightarrow> (bytes \<times> bytes option) list" where
  "pdfs p (PNode c cs) = (p, c) # concat (map (\<lambda>(key, t). pdfs (p @ key) t) cs)"
  by pat_completeness auto
termination
  by (relation "measure (\<lambda>(p, t). size t)") (auto dest: size_child)

declare pdfs.simps [simp del]

text \<open>\<open>_find_nearest_node\<close>: the key of the node where the search ends, and what is below it.\<close>

function pnearest :: "bytes \<Rightarrow> ptree \<Rightarrow> bytes \<Rightarrow> bytes \<times> ptree" where
  "pnearest p (PNode c cs) k =
     (if k = [] then (p, PNode c cs)
      else (case find_prefix cs k of
              None \<Rightarrow> (p, PNode c cs)
            | Some (key, t) \<Rightarrow> pnearest (p @ key) t (drop (length key) k)))"
  by pat_completeness auto
termination
  by (relation "measure (\<lambda>(p, t, k). size t)") (auto intro: size_find_prefix)

declare pnearest.simps [simp del]

section \<open>Keys\<close>

lemma hex_value_digit:
  assumes "unat d < 16"
  shows "hex_value (hex_digit d) = Some d" and "\<not> ascii_space (hex_digit d)"
proof -
  have u: "unat (hex_digit d) = (if unat d < 10 then unat d + 48 else unat d + 87)"
    by (rule unat_hex_digit [OF assms])
  show "\<not> ascii_space (hex_digit d)"
    using u assms by (auto simp: ascii_space_def word_le_nat_alt word_unat_eq_iff)
  show "hex_value (hex_digit d) = Some d"
    using u assms by (auto simp: hex_value_def word_le_nat_alt hex_digit_def word_less_nat_alt)
qed

lemma byte_nibbles: "16 * (b div 16) + b mod 16 = (b :: byte)"
  by (metis mult.commute word_mod_div_equality add.commute)

lemma decode_key_encode_key: "decode_key (encode_key key) = Inr key"
proof -
  have "even (length (encode_key key))"
    by (induction key) (simp_all add: encode_key_def)
  then have "decode_key (encode_key key) = fromhex (encode_key key)"
    by (simp add: decode_key_def)
  also have "\<dots> = Inr key"
  proof (induction key)
    case (Cons b key)
    have "encode_key (b # key) = hex_digit (b div 16) # hex_digit (b mod 16) # encode_key key"
      by (simp add: encode_key_def)
    with Cons show ?case
      by (simp add: hex_value_digit nibbles_less byte_nibbles del: mult.commute)
  qed (simp add: encode_key_def)
  finally show ?thesis .
qed

section \<open>The walk of the code follows the walk on the tree\<close>

lemma find_nearest_loop_pnearest:
  assumes "reps get p n t" and "pwf t" and "key = p @ k" and "length k < fuel"
  shows "\<exists>n' log'. find_nearest_loop fuel get key lm n log = Inr (n', log') \<and>
           reps get (fst (pnearest p t k)) n' (snd (pnearest p t k))"
  using assms
proof (induction p t k arbitrary: n fuel lm log rule: pnearest.induct)
  case (1 p c cs k)
  obtain f where f: "fuel = Suc f" using "1.prems"(4) by (cases fuel) auto
  have n: "nkey n = p" "nlength n = length p" "child_rel (below get p) (nchildren n) cs"
    using "1.prems"(1) by (simp_all add: reps_PNode)
  show ?case
  proof (cases "k = []")
    case True
    then show ?thesis using n "1.prems"(1,3) by (simp add: f pnearest.simps)
  next
    case k: False
    show ?thesis
    proof (cases "find_prefix cs k")
      case None
      then have "find_prefix (nchildren n) k = None"
        using child_rel_find_prefix [OF n(3), of k] by (auto split: option.splits)
      then show ?thesis using k n "1.prems"(1,3) None by (simp add: f Let_def pnearest.simps)
    next
      case (Some mt)
      obtain m t where mt: "find_prefix cs k = Some (m, t)" using Some by (cases mt) auto
      then obtain i n1 where i: "find_prefix (nchildren n) k = Some (m, i)" "get i = Some n1"
          "reps get (p @ m) n1 t"
        using child_rel_find_prefix [OF n(3), of k] by (auto split: option.splits)
      have mem: "(m, t) \<in> set cs" "prefix m k" using find_prefix_SomeD [OF mt] by auto
      then obtain k1 where k1: "k = m @ k1" by (auto simp: prefix_def)
      have wf: "m \<noteq> []" "pwf t" using "1.prems"(2) mem by (auto simp: child_keys_ok_def)
      have "length k1 < f" using "1.prems"(4) wf(1) by (simp add: f k1) (cases m; simp)
      then obtain n' log' where "find_nearest_loop f get key m n1 (log @ [(lm, n)]) = Inr (n', log')"
          "reps get (fst (pnearest (p @ m) t k1)) n' (snd (pnearest (p @ m) t k1))"
        using "1.IH" [OF k mt refl i(3) wf(2), of f m "log @ [(lm, n)]"] "1.prems"(3) by (auto simp: k1)
      then show ?thesis
        using i k n "1.prems"(3) mt wf(1) by (simp add: f Let_def k1 pnearest.simps [of p c cs])
    qed
  qed
qed

lemma find_nearest_node_pnearest:
  assumes "trie_rel H st t"
  shows "\<exists>n log. find_nearest_node st k None = Inr (n, log) \<and>
           reps (get_node st) (fst (pnearest [] t k)) n (snd (pnearest [] t k))"
proof -
  have "reps (get_node st) [] (troot st) t" "pwf t" using assms by (simp_all add: trie_rel_def)
  from find_nearest_loop_pnearest [OF this, of k k "length k + 2" "[]" "[]"]
  show ?thesis by (auto simp: find_nearest_node_def)
qed

text \<open>The nodes with a key longer than \<open>l\<close> bound the depth of the walk.\<close>

definition longer :: "trie \<Rightarrow> nat \<Rightarrow> nat" where
  "longer st l = card {i. \<exists>m. get_node st i = Some m \<and> l < nlength m}"

lemma dom_get_node: "dom (get_node st) = dom (dict_get (tlocal st)) \<union> dom (dict_get (tdb st))"
  by (auto simp: get_node_def dom_def split: option.splits)

lemma finite_longer: "finite {i. \<exists>m. get_node st i = Some m \<and> l < nlength m}"
  by (rule finite_subset [of _ "dom (get_node st)"]) (blast, simp add: dom_get_node finite_dom_map_of)

lemma longer_less:
  assumes "get_node st i = Some m" and "l < nlength m"
  shows "longer st (nlength m) < longer st l"
  unfolding longer_def
proof (rule psubset_card_mono [OF finite_longer], rule psubsetI)
  show "{i. \<exists>m'. get_node st i = Some m' \<and> nlength m < nlength m'}
      \<subseteq> {i. \<exists>m. get_node st i = Some m \<and> l < nlength m}"
    using assms(2) by fastforce
  have "i \<notin> {i. \<exists>m'. get_node st i = Some m' \<and> nlength m < nlength m'}" using assms(1) by auto
  moreover have "i \<in> {i. \<exists>m. get_node st i = Some m \<and> l < nlength m}" using assms by auto
  ultimately show "{i. \<exists>m'. get_node st i = Some m' \<and> nlength m < nlength m'}
      \<noteq> {i. \<exists>m. get_node st i = Some m \<and> l < nlength m}" by blast
qed

lemma longer_fuel: "longer st l < dfs_fuel st"
proof -
  have "longer st l \<le> card (dom (get_node st))"
    unfolding longer_def
    by (rule card_mono) (simp add: dom_get_node finite_dom_map_of, blast)
  also have "\<dots> \<le> card (dom (dict_get (tlocal st))) + card (dom (dict_get (tdb st)))"
    unfolding dom_get_node by (rule card_Un_le)
  also have "\<dots> \<le> length (tlocal st) + length (tdb st)"
    by (intro add_mono) (simp_all add: dom_map_of_conv_image_fst,
        (metis card_image_le card_length finite_set le_trans)+)
  finally show ?thesis by (simp add: dfs_fuel_def)
qed

lemma collect_child_rel:
  assumes "child_rel R xs ys"
    and "\<And>k x y. (k, x) \<in> set xs \<Longrightarrow> (k, y) \<in> set ys \<Longrightarrow> R k x y \<Longrightarrow>
           \<exists>zs. f (k, x) = Inr zs \<and> map h zs = g (k, y)"
  shows "\<exists>zs. collect f xs = Inr zs \<and> map h zs = concat (map g ys)"
  using assms
proof (induction rule: list_all2_induct)
  case (Cons x xs y ys)
  obtain k i u where x: "x = (k, i)" and y: "y = (k, u)" and R: "R k i u"
    using Cons.hyps by (cases x, cases y) auto
  obtain as where "f (k, i) = Inr as" "map h as = g (k, u)"
    using Cons.prems [of k i u] R by (auto simp: x y)
  moreover obtain bs where "collect f xs = Inr bs" "map h bs = concat (map g ys)"
    using Cons.IH Cons.prems by auto
  ultimately show ?case by (simp add: x y)
qed simp

lemma iter_dfs_loop_pdfs:
  "reps (get_node st) p n t \<Longrightarrow> pwf t \<Longrightarrow> longer st (length p) < fuel \<Longrightarrow>
     \<exists>xs. iter_dfs_loop fuel st n d = Inr xs \<and> map (\<lambda>x. (nkey (fst x), ncontent (fst x))) xs = pdfs p t"
proof (induction fuel arbitrary: p n t d)
  case (Suc fuel)
  obtain c cs where t: "t = PNode c cs" by (cases t)
  have n: "nkey n = p" "ncontent n = c" "child_rel (below (get_node st) p) (nchildren n) cs"
    using Suc.prems(1) by (simp_all add: t reps_PNode)
  let ?f = "\<lambda>(_, i). case get_node st i of None \<Rightarrow> Inl KeyError
              | Some m \<Rightarrow> iter_dfs_loop fuel st m (d + 1)"
  have "\<exists>zs. ?f (k, i) = Inr zs \<and> map (\<lambda>x. (nkey (fst x), ncontent (fst x))) zs = pdfs (p @ k) u"
    if ku: "(k, u) \<in> set cs" and R: "below (get_node st) p k i u" for k i u
  proof -
    obtain m where m: "get_node st i = Some m" "reps (get_node st) (p @ k) m u" using R by auto
    have wf: "k \<noteq> []" "pwf u" using Suc.prems(2) ku by (auto simp: t child_keys_ok_def)
    have len: "nlength m = length (p @ k)" using m(2) by (cases u) (simp add: reps_PNode)
    have "longer st (length (p @ k)) < longer st (length p)"
      using longer_less [OF m(1), of "length p"] len wf(1) by auto
    then have "longer st (length (p @ k)) < fuel" using Suc.prems(3) by simp
    from Suc.IH [OF m(2) wf(2) this] m(1) show ?thesis by simp
  qed
  then obtain zs where "collect ?f (nchildren n) = Inr zs"
      "map (\<lambda>x. (nkey (fst x), ncontent (fst x))) zs = concat (map (\<lambda>(key, t). pdfs (p @ key) t) cs)"
    using collect_child_rel [OF n(3), of ?f "\<lambda>x. (nkey (fst x), ncontent (fst x))" "\<lambda>(key, t). pdfs (p @ key) t"]
    by auto
  then show ?case by (simp add: t pdfs.simps n)
qed simp

lemma iter_dfs_pdfs:
  assumes "reps (get_node st) p n t" and "pwf t"
  shows "\<exists>xs. iter_dfs st (Some n) = Inr xs \<and> map (\<lambda>x. (nkey (fst x), ncontent (fst x))) xs = pdfs p t"
  using iter_dfs_loop_pdfs [OF assms longer_fuel] by (simp add: iter_dfs_def)

end
