(* ===== verification/Patricia_Props.thy ===== *)
theory Patricia_Props
  imports Patricia_Walk
begin

text \<open>
  The properties of the Patricia trie object: the states a trie object goes through, what it returns
  in them, and its root id.
\<close>

section \<open>The life of a trie object\<close>

text \<open>
  \<open>trie_run H kvs st\<close>: a trie created over an empty store reaches the state \<open>st\<close> by the updates
  \<open>kvs\<close>, oldest first, with commits and re-openings from the store in between. The hash has no
  collision on the nodes that the updates store.
\<close>

inductive trie_run :: "(bytes \<Rightarrow> bytes) \<Rightarrow> (bytes \<times> bytes) list \<Rightarrow> trie \<Rightarrow> bool" for H where
  run_init: "trie_init H [] None = Inr st \<Longrightarrow> trie_run H [] st"
| run_update: "trie_run H kvs st \<Longrightarrow> collision_free H key content st \<Longrightarrow>
     trie_update H key content st = (r, st') \<Longrightarrow> trie_run H (kvs @ [(key, content)]) st'"
| run_commit: "trie_run H kvs st \<Longrightarrow> trie_commit st = (r, st') \<Longrightarrow> trie_run H kvs st'"
| run_reopen: "trie_run H kvs st \<Longrightarrow> \<not> is_dirty st \<Longrightarrow>
     trie_init H (tdb st) (nid (troot st)) = Inr st' \<Longrightarrow> trie_run H kvs st'"

abbreviation encode_keys :: "(bytes \<times> bytes) list \<Rightarrow> (bytes \<times> bytes) list" where
  "encode_keys kvs \<equiv> map (\<lambda>(k, v). (encode_key k, v)) kvs"

lemma reopen_committed:
  assumes "trie_rel H st t" and "\<not> is_dirty st"
  shows "trie_init H (tdb st) (nid (troot st)) = Inr st"
  using assms by (auto simp: trie_rel_def is_dirty_def trie_init_def get_node_def)

lemma trie_run_rel: "trie_run H kvs st \<Longrightarrow> trie_rel H st (pbuild (encode_keys kvs))"
proof (induction rule: trie_run.induct)
  case (run_init st)
  then show ?case by (simp add: trie_init_rel)
next
  case (run_update kvs st key content r st')
  then show ?case using trie_update_rel [OF run_update.IH] by fastforce
next
  case (run_commit kvs st r st')
  then show ?case using trie_commit_rel [OF run_commit.IH] by fastforce
next
  case (run_reopen kvs st st')
  then show ?case using reopen_committed by fastforce
qed

lemma map_of_encode_keys: "map_of (rev (encode_keys kvs)) (encode_key k) = map_of (rev kvs) k"
proof (induction kvs rule: rev_induct)
  case (snoc kv kvs)
  then show ?case by (cases kv) simp
qed simp

lemma map_of_encode_keys_other:
  "k \<notin> range encode_key \<Longrightarrow> map_of (rev (encode_keys kvs)) k = None"
  by (auto simp: map_of_eq_None_iff)

lemma same_map_encode_keys:
  assumes "map_of (rev kvs) = map_of (rev kvs')"
  shows "map_of (rev (encode_keys kvs)) = map_of (rev (encode_keys kvs'))"
proof
  fix k
  show "map_of (rev (encode_keys kvs)) k = map_of (rev (encode_keys kvs')) k"
    using assms by (cases "k \<in> range encode_key")
      (auto simp: map_of_encode_keys map_of_encode_keys_other)
qed

text \<open>A sequence of updates, executed, and that the hash has no collision on the way.\<close>

fun trie_updates :: "(bytes \<Rightarrow> bytes) \<Rightarrow> trie \<Rightarrow> (bytes \<times> bytes) list \<Rightarrow> trie" where
  "trie_updates H st [] = st"
| "trie_updates H st ((key, content) # kvs) = trie_updates H (snd (trie_update H key content st)) kvs"

fun free_run :: "(bytes \<Rightarrow> bytes) \<Rightarrow> trie \<Rightarrow> (bytes \<times> bytes) list \<Rightarrow> bool" where
  "free_run H st [] = True"
| "free_run H st ((key, content) # kvs) \<longleftrightarrow>
     collision_free H key content st \<and> free_run H (snd (trie_update H key content st)) kvs"

lemma trie_run_updates:
  "trie_run H kvs0 st \<Longrightarrow> free_run H st kvs \<Longrightarrow> trie_run H (kvs0 @ kvs) (trie_updates H st kvs)"
proof (induction kvs arbitrary: kvs0 st)
  case (Cons kv kvs)
  obtain key content where kv: "kv = (key, content)" by (cases kv)
  have "trie_run H (kvs0 @ [(key, content)]) (snd (trie_update H key content st))"
    by (rule run_update [OF Cons.prems(1), where r = "fst (trie_update H key content st)"])
       (use Cons.prems(2) in \<open>simp_all add: kv\<close>)
  from Cons.IH [OF this] Cons.prems(2) show ?case by (simp add: kv)
qed simp

definition empty_trie :: "(bytes \<Rightarrow> bytes) \<Rightarrow> trie" where
  "empty_trie H = projr (trie_init H [] None)"

lemma trie_run_empty: "trie_run H [] (empty_trie H)"
  by (rule run_init) (simp add: empty_trie_def trie_init_def update_id_def new_node_def)

lemmas trie_run_from_empty = trie_run_updates [OF trie_run_empty, unfolded append_Nil]

text \<open>A hash to compute with: the message after its length.\<close>

definition tag_length :: "bytes \<Rightarrow> bytes" where
  "tag_length x = of_nat (length x) # x"

section \<open>Properties\<close>








end
