(* ===== verification/Patricia_Value.thy ===== *)
theory Patricia_Value
  imports Patricia_Props
begin

text \<open>
  The trie as a value. The storages of contracts and blocks are clients of the trie: they see the tree
  that a trie object stands for (\<open>trie_rel\<close>), with the operations below, which the operations of the
  object refine. What the clients rely on is the interface \<open>kv_store\<close>.
\<close>

section \<open>Operations on the value\<close>

definition ptrie_get :: "ptree \<Rightarrow> bytes \<Rightarrow> exc + bytes" where
  "ptrie_get t key =
     (if key = [] then Inl KeyError
      else case plookup t (encode_key key) of None \<Rightarrow> Inl KeyError | Some c \<Rightarrow> Inr c)"

definition ptrie_update :: "ptree \<Rightarrow> bytes \<Rightarrow> bytes \<Rightarrow> ptree" where
  "ptrie_update t key content = pupdate t (encode_key key) content"

definition ptrie_root_id :: "(bytes \<Rightarrow> bytes) \<Rightarrow> ptree \<Rightarrow> node_id" where
  "ptrie_root_id H t = pid H [] t"

text \<open>Well-formed values; every key with a content is an encoded key.\<close>

definition ptrie_ok :: "ptree \<Rightarrow> bool" where
  "ptrie_ok t \<longleftrightarrow> pwf t \<and> compressed t \<and> (\<forall>k. plookup t k \<noteq> None \<longrightarrow> k \<in> range encode_key)"

text \<open>The operations of a trie object refine those on the value.\<close>

lemma trie_get_value: "trie_rel H st t \<Longrightarrow> trie_get key None st = ptrie_get t key"
  by (simp add: trie_get_rel ptrie_get_def)

lemma trie_update_value:
  assumes "trie_rel H st t" and "collision_free H key content st"
  shows "\<exists>st'. trie_update H key content st = (Inr (), st') \<and> trie_rel H st' (ptrie_update t key content)"
  using trie_update_rel [OF assms] by (auto simp: ptrie_update_def)

lemma trie_root_value: "trie_rel H st t \<Longrightarrow> nid (troot st) = Some (ptrie_root_id H t)"
  by (simp add: trie_root_id ptrie_root_id_def)

section \<open>The interface of the clients\<close>

text \<open>
  A store of bytes under non-empty keys. The clients put a tag byte in front of the keys of each kind
  of entry; entries of different kinds do not interfere.
\<close>

locale kv_store =
  fixes get :: "'t \<Rightarrow> bytes \<Rightarrow> exc + bytes"
    and update :: "'t \<Rightarrow> bytes \<Rightarrow> bytes \<Rightarrow> 't"
    and ok :: "'t \<Rightarrow> bool"
  assumes get_update:
      "ok t \<Longrightarrow> get (update t k c) k' = (if k' = k \<and> k \<noteq> [] then Inr c else get t k')"
    and ok_update: "ok t \<Longrightarrow> ok (update t k c)"
    and get_error: "get t k = Inl e \<Longrightarrow> e = KeyError"
begin

lemma get_update_tagged:
  assumes "ok t"
  shows "get (update t (a # k) c) (b # k') = (if b = a \<and> k' = k then Inr c else get t (b # k'))"
  by (simp add: get_update [OF assms])

lemma get_update_other_tag: "ok t \<Longrightarrow> b \<noteq> a \<Longrightarrow> get (update t (a # k) c) (b # k') = get t (b # k')"
  by (simp add: get_update_tagged)

lemma get_cases:
  obtains (missing) "get t k = Inl KeyError" | (found) c where "get t k = Inr c"
  using get_error by (cases "get t k") auto

end

lemma ptrie_get_pupdate:
  "pwf t \<Longrightarrow> ptrie_get (ptrie_update t k c) k' = (if k' = k \<and> k \<noteq> [] then Inr c else ptrie_get t k')"
  by (auto simp: ptrie_get_def ptrie_update_def plookup_pupdate)

interpretation ptrie: kv_store ptrie_get ptrie_update ptrie_ok
proof
  fix t k c k' e
  assume ok: "ptrie_ok t"
  then show "ptrie_get (ptrie_update t k c) k' = (if k' = k \<and> k \<noteq> [] then Inr c else ptrie_get t k')"
    by (simp add: ptrie_ok_def ptrie_get_pupdate)
  show "ptrie_ok (ptrie_update t k c)"
    using ok by (auto simp: ptrie_ok_def ptrie_update_def pwf_pupdate compressed_pupdate plookup_pupdate)
next
  fix t k e
  assume "ptrie_get t k = Inl e"
  then show "e = KeyError" by (auto simp: ptrie_get_def split: if_splits option.splits)
qed

lemma ptrie_ok_empty [simp]: "ptrie_ok pempty"
  by (simp add: ptrie_ok_def)

lemma ptrie_get_empty [simp]: "ptrie_get pempty k = Inl KeyError"
  by (simp add: ptrie_get_def)

section \<open>Walking over the value\<close>

text \<open>The walk meets exactly the contents below its node, each once.\<close>

lemma pdfs_prefix: "(k, c) \<in> set (pdfs p t) \<Longrightarrow> prefix p k"
proof (induction p t rule: pdfs.induct)
  case (1 p c' cs)
  show ?case
  proof (cases "(k, c) = (p, c')")
    case False
    then obtain key t where "(key, t) \<in> set cs" "(k, c) \<in> set (pdfs (p @ key) t)"
      using "1.prems" by (auto simp: pdfs.simps)
    then have "prefix (p @ key) k" using "1.IH" by blast
    then show ?thesis by (rule append_prefixD)
  qed simp
qed

lemma find_prefix_unique:
  assumes "child_keys_ok cs" and "(key, x) \<in> set cs" and "prefix key k"
  shows "find_prefix cs k = Some (key, x)"
proof -
  have "key \<noteq> []" using assms(1,2) by (auto simp: child_keys_ok_def)
  then have "hd key = hd k" using assms(3) by (auto simp: prefix_def)
  then show ?thesis
    using find_prefix_child_for [OF assms(1), of k] child_for_mem [OF assms(1,2)] assms(3) by simp
qed

lemma pdfs_contents:
  "pwf t \<Longrightarrow> (p @ k, Some c) \<in> set (pdfs p t) \<longleftrightarrow> plookup t k = Some c"
proof (induction t k arbitrary: p rule: plookup.induct)
  case (1 c' cs k)
  have ok: "child_keys_ok cs" using "1.prems" by simp
  show ?case
  proof (cases "k = []")
    case True
    have "(p, Some c) \<notin> set (pdfs (p @ key) t)" if "(key, t) \<in> set cs" for key t
    proof
      assume "(p, Some c) \<in> set (pdfs (p @ key) t)"
      then have "prefix (p @ key) p" by (rule pdfs_prefix)
      then have "key = []" by (auto simp: prefix_def)
      then show False using ok that by (auto simp: child_keys_ok_def)
    qed
    then show ?thesis using True by (auto simp: pdfs.simps plookup.simps)
  next
    case k: False
    have below: "(p @ k, Some c) \<in> set (pdfs (p @ key) t) \<longleftrightarrow>
        prefix key k \<and> plookup t (drop (length key) k) = Some c" if mem: "(key, t) \<in> set cs" for key t
    proof (cases "prefix key k")
      case True
      then obtain k1 where k1: "k = key @ k1" by (auto simp: prefix_def)
      have "pwf t" using "1.prems" mem by auto
      from "1.IH" [OF k find_prefix_unique [OF ok mem True] refl this, of "p @ key"]
      show ?thesis by (simp add: k1)
    next
      case False
      then have "\<not> prefix (p @ key) (p @ k)" by simp
      with False show ?thesis using pdfs_prefix by blast
    qed
    have "(p @ k, Some c) \<in> set (pdfs p (PNode c' cs)) \<longleftrightarrow>
        (\<exists>key t. (key, t) \<in> set cs \<and> (p @ k, Some c) \<in> set (pdfs (p @ key) t))"
      using k by (auto simp: pdfs.simps)
    also have "\<dots> \<longleftrightarrow>
        (\<exists>key t. (key, t) \<in> set cs \<and> prefix key k \<and> plookup t (drop (length key) k) = Some c)"
      using below by blast
    also have "\<dots> \<longleftrightarrow> (\<exists>key t. find_prefix cs k = Some (key, t) \<and> plookup t (drop (length key) k) = Some c)"
      using find_prefix_unique [OF ok] find_prefix_SomeD [of cs k] by meson
    also have "\<dots> \<longleftrightarrow> plookup (PNode c' cs) k = Some c"
      using k by (auto simp: plookup.simps split: option.splits)
    finally show ?thesis .
  qed
qed

lemma find_child_key: "find P cs = Some c \<Longrightarrow> c \<in> set cs \<and> P c"
  by (induction cs) (auto split: if_splits)

lemma plookup_through_child:
  assumes "pwf (PNode c cs)" and "(key, t) \<in> set cs"
  shows "plookup (PNode c cs) (key @ k) = plookup t k"
proof -
  have "child_keys_ok cs" "key \<noteq> []" using assms by (auto simp: child_keys_ok_def)
  then show ?thesis
    using find_prefix_unique [of cs key t "key @ k"] assms(2) by (simp add: plookup.simps)
qed

lemma pnearest_spec:
  "pwf t \<Longrightarrow> pnearest p t k = (q, u) \<Longrightarrow>
     \<exists>k' r. k = k' @ r \<and> q = p @ k' \<and> pwf u \<and> (\<forall>s. plookup t (k' @ s) = plookup u s) \<and>
       (r = [] \<or> find_prefix (pchildren u) r = None)"
proof (induction p t k rule: pnearest.induct)
  case (1 p c cs k)
  show ?case
  proof (cases "k = [] \<or> find_prefix cs k = None")
    case True
    then have "q = p" "u = PNode c cs" using "1.prems"(2) by (auto simp: pnearest.simps split: if_splits)
    then show ?thesis using True "1.prems"(1) by (intro exI [of _ "[]"] exI [of _ k]) auto
  next
    case False
    then obtain key t where kt: "find_prefix cs k = Some (key, t)" and k: "k \<noteq> []" by auto
    have mem: "(key, t) \<in> set cs" "prefix key k" using find_prefix_SomeD [OF kt] by auto
    then obtain k1 where k1: "k = key @ k1" by (auto simp: prefix_def)
    have "pwf t" using "1.prems"(1) mem(1) by auto
    moreover have "pnearest (p @ key) t (drop (length key) k) = (q, u)"
      using "1.prems"(2) k kt by (simp add: pnearest.simps)
    ultimately obtain k' r where "k1 = k' @ r" "q = (p @ key) @ k'" "pwf u"
        "\<forall>s. plookup t (k' @ s) = plookup u s" "r = [] \<or> find_prefix (pchildren u) r = None"
      using "1.IH" [OF k kt refl] by (auto simp: k1)
    then show ?thesis
      using plookup_through_child [OF "1.prems"(1) mem(1)]
      by (intro exI [of _ "key @ k'"] exI [of _ r]) (simp add: k1)
  qed
qed

text \<open>
  The node from which all the keys with a given prefix are reached: the nearest node itself, or the
  child of it whose key has the prefix.
\<close>

definition psubtree :: "ptree \<Rightarrow> bytes \<Rightarrow> (bytes \<times> ptree) option" where
  "psubtree t tag =
     (case pnearest [] t tag of
        (key, u) \<Rightarrow>
          if prefix tag key then Some (key, u)
          else map_option (\<lambda>(k, v). (key @ k, v)) (find (\<lambda>(k, v). prefix tag (key @ k)) (pchildren u)))"

lemma psubtree_contents:
  assumes t: "pwf t"
  shows "case psubtree t tag of
           None \<Rightarrow> \<forall>s. plookup t (tag @ s) = None
         | Some (p, u) \<Rightarrow>
             pwf u \<and> (\<forall>k c. (k, Some c) \<in> set (pdfs p u) \<longleftrightarrow> prefix tag k \<and> plookup t k = Some c)"
proof -
  obtain q u where q: "pnearest [] t tag = (q, u)" by (cases "pnearest [] t tag")
  from pnearest_spec [OF t q] obtain r where r: "tag = q @ r" "pwf u"
      "\<And>s. plookup t (q @ s) = plookup u s" "r = [] \<or> find_prefix (pchildren u) r = None"
    by auto
  obtain c0 cs where u: "u = PNode c0 cs" by (cases u)
  have ok: "child_keys_ok cs" using r(2) by (simp add: u)
  have contents: "(k, Some c) \<in> set (pdfs p v) \<longleftrightarrow> prefix p k \<and> plookup v (drop (length p) k) = Some c"
    if "pwf v" for p v k c
  proof (cases "prefix p k")
    case True
    then obtain k1 where "k = p @ k1" by (auto simp: prefix_def)
    then show ?thesis using pdfs_contents [OF that, of p k1 c] by simp
  next
    case False
    then show ?thesis using pdfs_prefix by blast
  qed
  show ?thesis
  proof (cases "r = []")
    case True
    then have "psubtree t tag = Some (q, u)" using q r(1) by (simp add: psubtree_def)
    moreover have "plookup u (drop (length q) k) = plookup t k" if "prefix q k" for k
      using that r(3) [of "drop (length q) k"] by (auto simp: prefix_def)
    ultimately show ?thesis using contents [OF r(2)] r(1,2) True by auto
  next
    case False
    then have none: "find_prefix cs r = None" using r(4) by (simp add: u)
    let ?P = "\<lambda>(k, v). prefix r k"
    have sub: "psubtree t tag = map_option (\<lambda>(k, v). (q @ k, v)) (find ?P cs)"
      using q r(1) False by (simp add: psubtree_def u)
    have look: "plookup t (tag @ s) =
        (case find_prefix cs (r @ s) of None \<Rightarrow> None | Some (k, v) \<Rightarrow> plookup v (drop (length k) (r @ s)))" for s
      using r(3) [of "r @ s"] False by (simp add: r(1) u plookup.simps)
    have child: "prefix r k" if "find_prefix cs (r @ s) = Some (k, v)" for s k v
    proof -
      have "(k, v) \<in> set cs" "prefix k (r @ s)" using find_prefix_SomeD [OF that] by auto
      moreover from this have "\<not> prefix k r" using none by (auto simp: find_prefix_None)
      ultimately show ?thesis by (metis prefix_same_cases prefixI)
    qed
    show ?thesis
    proof (cases "find ?P cs")
      case None
      then have "\<not> prefix r k" if "(k, v) \<in> set cs" for k v using that by (auto simp: find_None_iff)
      then have "find_prefix cs (r @ s) = None" for s
        using child find_prefix_SomeD [of cs "r @ s"] by (cases "find_prefix cs (r @ s)") force+
      then show ?thesis by (simp add: sub None look)
    next
      case (Some kv)
      obtain k v where kv: "kv = (k, v)" by (cases kv)
      have mem: "(k, v) \<in> set cs" "prefix r k" using find_child_key [OF Some] by (simp_all add: kv)
      have v: "pwf v" using r(2) mem(1) by (auto simp: u)
      have key: "k \<noteq> []" using mem False by auto
      have "plookup t (q @ k @ s) = plookup v s" for s
        using r(3) [of "k @ s"] plookup_through_child [of c0 cs k v s] r(2) mem(1) by (simp add: u)
      then have up: "plookup v (drop (length (q @ k)) w) = plookup t w" if "prefix (q @ k) w" for w
        using that by (auto simp: prefix_def)
      have down: "prefix (q @ k) w" if tw: "prefix tag w" "plookup t w \<noteq> None" for w
      proof -
        obtain s where w: "w = tag @ s" using tw(1) by (auto simp: prefix_def)
        have "find_prefix cs (r @ s) \<noteq> None" using tw(2) look [of s] by (cases "find_prefix cs (r @ s)") (simp_all add: w)
        then obtain k' v' where k': "find_prefix cs (r @ s) = Some (k', v')" by auto
        have "(k', v') \<in> set cs" "prefix k' (r @ s)" "prefix r k'"
          using find_prefix_SomeD [OF k'] child [OF k'] by auto
        moreover have "hd k' = hd k"
          by (rule trans [OF prefix_hd [OF calculation(3) False, symmetric] prefix_hd [OF mem(2) False]])
        ultimately have "Some (k', v') = Some (k, v)"
          using child_for_mem [OF ok, of k' v'] child_for_mem [OF ok mem(1)] by metis
        then have "k' = k" by blast
        then show ?thesis using \<open>prefix k' (r @ s)\<close> by (simp add: w r(1))
      qed
      have tag: "prefix tag (q @ k)" using mem(2) by (simp add: r(1))
      have "(w, Some c) \<in> set (pdfs (q @ k) v) \<longleftrightarrow> prefix tag w \<and> plookup t w = Some c" for w c
      proof -
        have "prefix tag w" if "prefix (q @ k) w" using tag that by (rule prefix_order.trans)
        then show ?thesis unfolding contents [OF v] using up [of w] down [of w] by force
      qed
      then show ?thesis using v by (simp add: sub Some kv)
    qed
  qed
qed

end
