(* ===== verification/Contract_Storage.thy ===== *)
theory Contract_Storage
  imports NC_Type_Props Patricia_Value
begin

text \<open>
  The storage of a contract (\<^verbatim>\<open>hathor/nanocontracts/storage/contract_storage.py\<close>): attributes,
  metadata and token balances in one trie, under keys with a tag byte, serialized with the value types
  of \<open>NC_Types\<close>. What the code takes from the Python runtime is the parameter \<open>rt\<close>: the hash
  \<open>sha256\<close>, the iteration order of sets and the conversion of strings to upper case.
\<close>

record runtime =
  sha256 :: "bytes \<Rightarrow> bytes"
  set_order :: set_iter
  str_upper :: "ustring \<Rightarrow> ustring"

definition ustr :: "string \<Rightarrow> ustring" where
  "ustr s = map of_char s"

section \<open>Keys\<close>

datatype trie_key =
    AttrKey bytes bytes
  | BalanceKey bytes bytes
  | MetadataKey bytes bytes

fun trie_key_bytes :: "runtime \<Rightarrow> trie_key \<Rightarrow> bytes" where
  "trie_key_bytes rt (AttrKey nc_id key) = 0 # sha256 rt key"
| "trie_key_bytes rt (BalanceKey nc_id token_uid) = 1 # token_uid"
| "trie_key_bytes rt (MetadataKey nc_id key) = 2 # sha256 rt key"

section \<open>Balances\<close>

text \<open>
  \<open>Balance\<close> and \<open>MutableBalance\<close> have the same attributes; a mutable one is read, changed and
  written back.
\<close>

record balance =
  bal_value :: int
  can_mint :: bool
  can_melt :: bool

definition grant_balance :: "bool \<Rightarrow> bool \<Rightarrow> balance \<Rightarrow> balance" where
  "grant_balance grant_mint grant_melt b =
     b\<lparr>can_mint := can_mint b \<or> grant_mint, can_melt := can_melt b \<or> grant_melt\<rparr>"

definition revoke_balance :: "bool \<Rightarrow> bool \<Rightarrow> balance \<Rightarrow> balance" where
  "revoke_balance revoke_mint revoke_melt b =
     b\<lparr>can_mint := can_mint b \<and> \<not> revoke_mint, can_melt := can_melt b \<and> \<not> revoke_melt\<rparr>"

definition default_balance :: balance where
  "default_balance = \<lparr>bal_value = 0, can_mint = False, can_melt = False\<rparr>"

text \<open>\<open>_BALANCE_NC_TYPE\<close>, and a \<open>MutableBalance\<close> object as a value of it.\<close>

definition BALANCE_NC_TYPE :: nc_type where
  "BALANCE_NC_TYPE =
     DataclassNC (ustr ''MutableBalance'')
       [(ustr ''value'', VarInt32NC), (ustr ''can_mint'', BoolNC), (ustr ''can_melt'', BoolNC)]"

definition of_balance :: "balance \<Rightarrow> nc_value" where
  "of_balance b =
     DataclassV (ustr ''MutableBalance'')
       [(ustr ''value'', IntV (bal_value b)), (ustr ''can_mint'', BoolV (can_mint b)),
        (ustr ''can_melt'', BoolV (can_melt b))]"

fun as_balance :: "nc_value \<Rightarrow> balance option" where
  "as_balance (DataclassV c [(f1, IntV v), (f2, BoolV mint), (f3, BoolV melt)]) =
     (if c = ustr ''MutableBalance'' \<and> f1 = ustr ''value'' \<and> f2 = ustr ''can_mint'' \<and> f3 = ustr ''can_melt''
      then Some \<lparr>bal_value = v, can_mint = mint, can_melt = melt\<rparr> else None)"
| "as_balance _ = None"

section \<open>The storage\<close>

text \<open>The token methods go to the storage of the block; they are with it in \<open>Block_Storage\<close>.\<close>

record contract_storage =
  cs_trie :: ptree
  cs_nc_id :: bytes
  cs_locked :: bool

abbreviation new_contract_storage :: "ptree \<Rightarrow> bytes \<Rightarrow> contract_storage" where
  "new_contract_storage trie nc_id \<equiv> \<lparr>cs_trie = trie, cs_nc_id = nc_id, cs_locked = False\<rparr>"

definition cs_lock :: "contract_storage \<Rightarrow> contract_storage" where
  "cs_lock cs = cs\<lparr>cs_locked := True\<rparr>"

definition cs_unlock :: "contract_storage \<Rightarrow> contract_storage" where
  "cs_unlock cs = cs\<lparr>cs_locked := False\<rparr>"

definition cs_check_if_locked :: "(contract_storage, unit) sm" where
  "cs_check_if_locked cs = sguard (\<not> cs_locked cs) RuntimeError cs"

text \<open>
  \<open>DeletedKey\<close> is \<open>None\<close>. The object is deserialized from the front of the content; nothing checks
  that all of it was read.
\<close>

definition cs_serialize :: "runtime \<Rightarrow> nc_value option \<Rightarrow> nc_type option \<Rightarrow> exc + bytes" where
  "cs_serialize rt obj nc_type =
     (if nc_type = None \<and> obj \<noteq> None then Inl AssertionError
      else maybe_deleted_to_bytes (set_order rt) nc_type obj)"

definition cs_deserialize :: "runtime \<Rightarrow> bytes \<Rightarrow> nc_type \<Rightarrow> exc + nc_value option" where
  "cs_deserialize rt content nc_type =
     fst (maybe_deleted_deserialize (set_order rt) (Some nc_type) (build_bytes_deserializer content))"

definition trie_has_obj :: "runtime \<Rightarrow> trie_key \<Rightarrow> contract_storage \<Rightarrow> exc + bool" where
  "trie_has_obj rt key cs =
     (case ptrie_get (cs_trie cs) (trie_key_bytes rt key) of
        Inl e \<Rightarrow> if e = KeyError then Inr False else Inl e
      | Inr value_bytes \<Rightarrow>
          (case is_deleted_key value_bytes of
             Inl e \<Rightarrow> Inl e
           | Inr deleted \<Rightarrow> Inr (\<not> deleted)))"

text \<open>A default of \<open>None\<close> stands for \<open>_NOT_PROVIDED\<close>.\<close>

definition trie_get_obj ::
    "runtime \<Rightarrow> trie_key \<Rightarrow> nc_type \<Rightarrow> nc_value option \<Rightarrow> contract_storage \<Rightarrow> exc + nc_value" where
  "trie_get_obj rt key nc_type dflt cs =
     (case (case ptrie_get (cs_trie cs) (trie_key_bytes rt key) of
              Inl e \<Rightarrow> if e = KeyError then Inr None else Inl e
            | Inr content \<Rightarrow> cs_deserialize rt content nc_type) of
        Inl e \<Rightarrow> Inl e
      | Inr None \<Rightarrow> (case dflt of None \<Rightarrow> Inl KeyError | Some d \<Rightarrow> Inr d)
      | Inr (Some obj) \<Rightarrow> Inr obj)"

definition trie_update_obj ::
    "runtime \<Rightarrow> trie_key \<Rightarrow> nc_type option \<Rightarrow> nc_value option \<Rightarrow> (contract_storage, unit) sm" where
  "trie_update_obj rt key nc_type obj cs =
     (case cs_serialize rt obj nc_type of
        Inl e \<Rightarrow> (Inl e, cs)
      | Inr content \<Rightarrow>
          (Inr (), cs\<lparr>cs_trie := ptrie_update (cs_trie cs) (trie_key_bytes rt key) content\<rparr>))"

subsection \<open>Attributes\<close>

definition cs_get_obj ::
    "runtime \<Rightarrow> bytes \<Rightarrow> nc_type \<Rightarrow> nc_value option \<Rightarrow> contract_storage \<Rightarrow> exc + nc_value" where
  "cs_get_obj rt key nc_type dflt cs = trie_get_obj rt (AttrKey (cs_nc_id cs) key) nc_type dflt cs"

definition cs_put_obj :: "runtime \<Rightarrow> bytes \<Rightarrow> nc_type \<Rightarrow> nc_value \<Rightarrow> (contract_storage, unit) sm" where
  "cs_put_obj rt key nc_type obj cs =
     sthen cs_check_if_locked
       (trie_update_obj rt (AttrKey (cs_nc_id cs) key) (Some nc_type) (Some obj)) cs"

definition cs_del_obj :: "runtime \<Rightarrow> bytes \<Rightarrow> (contract_storage, unit) sm" where
  "cs_del_obj rt key cs =
     sthen cs_check_if_locked (trie_update_obj rt (AttrKey (cs_nc_id cs) key) None None) cs"

definition cs_has_obj :: "runtime \<Rightarrow> bytes \<Rightarrow> contract_storage \<Rightarrow> exc + bool" where
  "cs_has_obj rt key cs = trie_has_obj rt (AttrKey (cs_nc_id cs) key) cs"

subsection \<open>Metadata\<close>

definition cs_get_metadata :: "runtime \<Rightarrow> bytes \<Rightarrow> contract_storage \<Rightarrow> exc + bytes" where
  "cs_get_metadata rt key cs =
     (case trie_get_obj rt (MetadataKey (cs_nc_id cs) key) (BytesLikeNC PlainBytes) None cs of
        Inl e \<Rightarrow> Inl e
      | Inr v \<Rightarrow> (case as_bytes v of None \<Rightarrow> Inl TypeError | Some b \<Rightarrow> Inr b))"

definition cs_put_metadata :: "runtime \<Rightarrow> bytes \<Rightarrow> bytes \<Rightarrow> (contract_storage, unit) sm" where
  "cs_put_metadata rt key metadata_bytes cs =
     trie_update_obj rt (MetadataKey (cs_nc_id cs) key) (Some (BytesLikeNC PlainBytes))
       (Some (BytesV PlainBytes metadata_bytes)) cs"

text \<open>\<^verbatim>\<open>b'blueprint_id'\<close>\<close>

definition BLUEPRINT_ID_KEY :: bytes where
  "BLUEPRINT_ID_KEY = map of_char ''blueprint_id''"

definition cs_get_blueprint_id :: "runtime \<Rightarrow> contract_storage \<Rightarrow> exc + bytes" where
  "cs_get_blueprint_id rt cs = cs_get_metadata rt BLUEPRINT_ID_KEY cs"

definition cs_set_blueprint_id :: "runtime \<Rightarrow> bytes \<Rightarrow> (contract_storage, unit) sm" where
  "cs_set_blueprint_id rt blueprint_id =
     sthen cs_check_if_locked (cs_put_metadata rt BLUEPRINT_ID_KEY blueprint_id)"

subsection \<open>Balances\<close>

definition cs_get_balance_obj :: "runtime \<Rightarrow> bytes \<Rightarrow> contract_storage \<Rightarrow> exc + balance" where
  "cs_get_balance_obj rt token_uid cs =
     (case trie_get_obj rt (BalanceKey (cs_nc_id cs) token_uid) BALANCE_NC_TYPE
             (Some (of_balance default_balance)) cs of
        Inl e \<Rightarrow> Inl e
      | Inr v \<Rightarrow> (case as_balance v of None \<Rightarrow> Inl AssertionError | Some b \<Rightarrow> Inr b))"

definition cs_get_balance :: "runtime \<Rightarrow> bytes \<Rightarrow> contract_storage \<Rightarrow> exc + balance" where
  "cs_get_balance rt token_uid cs = cs_get_balance_obj rt token_uid cs"

definition cs_change_balance ::
    "runtime \<Rightarrow> bytes \<Rightarrow> (balance \<Rightarrow> exc + balance) \<Rightarrow> (contract_storage, unit) sm" where
  "cs_change_balance rt token_uid change cs =
     (case cs_get_balance_obj rt token_uid cs of
        Inl e \<Rightarrow> (Inl e, cs)
      | Inr b \<Rightarrow>
          (case change b of
             Inl e \<Rightarrow> (Inl e, cs)
           | Inr b' \<Rightarrow>
               trie_update_obj rt (BalanceKey (cs_nc_id cs) token_uid) (Some BALANCE_NC_TYPE)
                 (Some (of_balance b')) cs))"

definition cs_add_balance :: "runtime \<Rightarrow> bytes \<Rightarrow> int \<Rightarrow> (contract_storage, unit) sm" where
  "cs_add_balance rt token_uid amount =
     sthen cs_check_if_locked
       (cs_change_balance rt token_uid (\<lambda>b.
          if 0 \<le> bal_value b + amount then Inr (b\<lparr>bal_value := bal_value b + amount\<rparr>)
          else Inl AssertionError))"

definition cs_grant_authorities :: "runtime \<Rightarrow> bytes \<Rightarrow> bool \<Rightarrow> bool \<Rightarrow> (contract_storage, unit) sm" where
  "cs_grant_authorities rt token_uid grant_mint grant_melt =
     sthen (sassert (token_uid \<noteq> HATHOR_TOKEN_UID))
       (sthen cs_check_if_locked
          (cs_change_balance rt token_uid (\<lambda>b. Inr (grant_balance grant_mint grant_melt b))))"

definition cs_revoke_authorities :: "runtime \<Rightarrow> bytes \<Rightarrow> bool \<Rightarrow> bool \<Rightarrow> (contract_storage, unit) sm" where
  "cs_revoke_authorities rt token_uid revoke_mint revoke_melt =
     sthen (sassert (token_uid \<noteq> HATHOR_TOKEN_UID))
       (sthen cs_check_if_locked
          (cs_change_balance rt token_uid (\<lambda>b. Inr (revoke_balance revoke_mint revoke_melt b))))"

text \<open>
  \<open>get_all_balances\<close>: the node that all the balance keys are below, then a walk from it. The keys of
  nodes with a content decode to the tag and a token.
\<close>

definition balance_item ::
    "runtime \<Rightarrow> bytes \<Rightarrow> bytes \<times> bytes option \<Rightarrow> (trie_key, balance) dict \<Rightarrow> exc + (trie_key, balance) dict" where
  "balance_item rt nc_id item balances =
     (case item of
        (_, None) \<Rightarrow> Inr balances
      | (key, Some content) \<Rightarrow>
          (case cs_deserialize rt content BALANCE_NC_TYPE of
             Inl e \<Rightarrow> Inl e
           | Inr None \<Rightarrow> Inl AssertionError
           | Inr (Some obj) \<Rightarrow>
               (case as_balance obj of
                  None \<Rightarrow> Inl AssertionError
                | Some b \<Rightarrow>
                    (case decode_key key of
                       Inl e \<Rightarrow> Inl e
                     | Inr k \<Rightarrow> Inr (dict_put (BalanceKey nc_id (drop 1 k)) b balances)))))"

fun balance_items ::
    "runtime \<Rightarrow> bytes \<Rightarrow> (bytes \<times> bytes option) list \<Rightarrow> (trie_key, balance) dict \<Rightarrow>
     exc + (trie_key, balance) dict" where
  "balance_items rt nc_id [] balances = Inr balances"
| "balance_items rt nc_id (item # items) balances =
     (case balance_item rt nc_id item balances of
        Inl e \<Rightarrow> Inl e
      | Inr balances' \<Rightarrow> balance_items rt nc_id items balances')"

definition cs_get_all_balances :: "runtime \<Rightarrow> contract_storage \<Rightarrow> exc + (trie_key, balance) dict" where
  "cs_get_all_balances rt cs =
     (case psubtree (cs_trie cs) (encode_key [1]) of
        None \<Rightarrow> Inr []
      | Some (key, t) \<Rightarrow> balance_items rt (cs_nc_id cs) (pdfs key t) [])"

definition cs_get_root_id :: "runtime \<Rightarrow> contract_storage \<Rightarrow> bytes" where
  "cs_get_root_id rt cs = ptrie_root_id (sha256 rt) (cs_trie cs)"

section \<open>Reading back what was written\<close>

lemma cs_serialize_data:
  assumes "cs_serialize rt obj nc_type = Inr content" and "typed_attr (set_order rt) nc_type obj"
  shows "is_deleted_key content = Inr (obj = None)"
    and "obj = None \<or> nc_type = Some t \<Longrightarrow> cs_deserialize rt content t = Inr obj"
proof -
  have ser: "maybe_deleted_to_bytes (set_order rt) nc_type obj = Inr content"
    using assms(1) by (auto simp: cs_serialize_def split: if_splits)
  then show "is_deleted_key content = Inr (obj = None)"
    using maybe_deleted_data(2) [OF assms(2)] by blast
  show "cs_deserialize rt content t = Inr obj" if "obj = None \<or> nc_type = Some t"
  proof (cases obj)
    case None
    then have "maybe_deleted_to_bytes (set_order rt) (Some t) obj = Inr content"
      using ser by (simp add: maybe_deleted_to_bytes_def maybe_deleted_serialize_def maybe_deleted_check_value_def)
    then show ?thesis
      using maybe_deleted_data(3) [of "set_order rt" "Some t" obj content] None
      by (simp add: cs_deserialize_def typed_attr_def)
  next
    case (Some v)
    then show ?thesis using that maybe_deleted_data(3) [OF assms(2) ser] by (simp add: cs_deserialize_def)
  qed
qed

lemma trie_update_obj_Inr:
  "trie_update_obj rt key nc_type obj cs = (Inr u, cs') \<longleftrightarrow>
     (\<exists>content. cs_serialize rt obj nc_type = Inr content \<and>
        cs' = cs\<lparr>cs_trie := ptrie_update (cs_trie cs) (trie_key_bytes rt key) content\<rparr>)"
  by (auto simp: trie_update_obj_def split: sum.splits)

lemma trie_update_obj_Inl: "trie_update_obj rt key nc_type obj cs = (Inl e, cs') \<Longrightarrow> cs' = cs"
  by (auto simp: trie_update_obj_def split: sum.splits)

lemma trie_key_bytes_Cons: "\<exists>b k. trie_key_bytes rt key = b # k"
  by (cases key) auto

text \<open>The two ways to read a slot, after a write to a slot.\<close>

lemma trie_get_update_obj:
  assumes ok: "ptrie_ok (cs_trie cs)" and upd: "trie_update_obj rt key nc_type obj cs = (Inr u, cs')"
    and typed: "typed_attr (set_order rt) nc_type obj"
  shows "trie_key_bytes rt key' \<noteq> trie_key_bytes rt key \<Longrightarrow>
           trie_get_obj rt key' t dflt cs' = trie_get_obj rt key' t dflt cs"
    and "trie_key_bytes rt key' = trie_key_bytes rt key \<Longrightarrow> obj = None \<or> nc_type = Some t \<Longrightarrow>
           trie_get_obj rt key' t dflt cs' =
             (case obj of Some v \<Rightarrow> Inr v | None \<Rightarrow> (case dflt of None \<Rightarrow> Inl KeyError | Some d \<Rightarrow> Inr d))"
    and "trie_has_obj rt key' cs' =
           (if trie_key_bytes rt key' = trie_key_bytes rt key then Inr (obj \<noteq> None) else trie_has_obj rt key' cs)"
    and "ptrie_ok (cs_trie cs')" and "cs_nc_id cs' = cs_nc_id cs" and "cs_locked cs' = cs_locked cs"
proof -
  obtain content where content: "cs_serialize rt obj nc_type = Inr content"
      and cs': "cs' = cs\<lparr>cs_trie := ptrie_update (cs_trie cs) (trie_key_bytes rt key) content\<rparr>"
    using upd by (auto simp: trie_update_obj_Inr)
  obtain b k b' k' where keys: "trie_key_bytes rt key = b # k" "trie_key_bytes rt key' = b' # k'"
    using trie_key_bytes_Cons by metis
  have get: "ptrie_get (cs_trie cs') (trie_key_bytes rt key') =
      (if trie_key_bytes rt key' = trie_key_bytes rt key then Inr content
       else ptrie_get (cs_trie cs) (trie_key_bytes rt key'))"
    unfolding keys cs' using ptrie.get_update_tagged [OF ok] by (simp add: keys)
  show "trie_key_bytes rt key' \<noteq> trie_key_bytes rt key \<Longrightarrow>
      trie_get_obj rt key' t dflt cs' = trie_get_obj rt key' t dflt cs"
    by (simp add: trie_get_obj_def get)
  show "trie_get_obj rt key' t dflt cs' =
      (case obj of Some v \<Rightarrow> Inr v | None \<Rightarrow> (case dflt of None \<Rightarrow> Inl KeyError | Some d \<Rightarrow> Inr d))"
    if "trie_key_bytes rt key' = trie_key_bytes rt key" "obj = None \<or> nc_type = Some t"
  proof -
    have "ptrie_get (cs_trie cs') (trie_key_bytes rt key') = Inr content" using that(1) get by simp
    moreover have "cs_deserialize rt content t = Inr obj" by (rule cs_serialize_data(2) [OF content typed that(2)])
    ultimately show ?thesis by (cases obj) (simp_all add: trie_get_obj_def)
  qed
  show "trie_has_obj rt key' cs' =
      (if trie_key_bytes rt key' = trie_key_bytes rt key then Inr (obj \<noteq> None) else trie_has_obj rt key' cs)"
    using cs_serialize_data(1) [OF content typed] by (auto simp: trie_has_obj_def get)
  show "ptrie_ok (cs_trie cs')" using ok by (simp add: cs' ptrie.ok_update)
  show "cs_nc_id cs' = cs_nc_id cs" "cs_locked cs' = cs_locked cs" by (simp_all add: cs')
qed

lemma cs_check_if_locked_Inr [simp]:
  "cs_check_if_locked cs = (Inr u, cs') \<longleftrightarrow> \<not> cs_locked cs \<and> cs' = cs"
  by (auto simp: cs_check_if_locked_def)

lemma cs_check_if_locked_apply [sm_simps]:
  "cs_check_if_locked cs = (if cs_locked cs then Inl RuntimeError else Inr (), cs)"
  by (simp add: cs_check_if_locked_def sm_simps)

section \<open>Balances\<close>

lemma as_balance_of_balance [simp]: "as_balance (of_balance b) = Some b"
  by (simp add: of_balance_def)

lemma as_balance_Some: "as_balance v = Some b \<longleftrightarrow> v = of_balance b"
  by (induction v rule: as_balance.induct) (auto simp: of_balance_def split: if_splits)

lemma ustr_eq: "ustr a = ustr b \<longleftrightarrow> a = b"
  unfolding ustr_def by (rule inj_map_eq_map) (auto intro: injI)

lemma typed_balance: "typed_attr it (Some BALANCE_NC_TYPE) (Some (of_balance b))"
  by (simp add: typed_attr_def BALANCE_NC_TYPE_def of_balance_def ustr_eq)

text \<open>A balance can be stored exactly when it fits in 32 bytes.\<close>

lemma serialize_varint_free:
  assumes "- (2 ^ 223) \<le> i" "i < 2 ^ 223" and "ser_left s = []"
  shows "\<exists>s'. serialize it VarInt32NC (IntV i) s = (Inr (), s') \<and> ser_left s' = []"
proof -
  have "leb128_fits True i 32" using assms(1,2) by (simp add: leb128_fits_def)
  then have "room [32] (length (leb128_ref True i))"
    using length_leb128_ref [of True i 32] by (simp add: room_def)
  then have "encode_leb128 i True (s\<lparr>ser_left := [32]\<rparr>) = (Inr (), wrote (s\<lparr>ser_left := [32]\<rparr>) (leb128_ref True i))"
    using encode_leb128_ref [of True i "s\<lparr>ser_left := [32]\<rparr>"] by simp
  moreover have "varint_check_value True 32 (IntV i) = check_ok"
    using assms(1,2) by (simp add: varint_check_value_def check_range_def varint_upper_bound_value_def
        varint_lower_bound_value_def)
  ultimately show ?thesis
    using assms(3)
    by (simp add: checked_serialize_def varint_serialize_def catch_too_long_def with_max_bytes_def
        wrote_def sm_simps)
qed

lemma encode_bool_free: "ser_left s = [] \<Longrightarrow> \<exists>s'. encode_bool b s = (Inr (), s') \<and> ser_left s' = []"
  by (simp add: encode_bool_def write_byte_eq write_bytes_ok room_def wrote_def)

lemma serialize_bool_free:
  "ser_left s = [] \<Longrightarrow> \<exists>s'. serialize it BoolNC (BoolV b) s = (Inr (), s') \<and> ser_left s' = []"
  using encode_bool_free [of s b]
  by (simp add: checked_serialize_def bool_check_value_def bool_serialize_def sm_simps)

lemma cs_serialize_balance_less:
  assumes "cs_serialize rt (Some (of_balance b)) (Some BALANCE_NC_TYPE) = Inr content"
  shows "bal_value b < 2 ^ 223"
proof (rule ccontr)
  assume "\<not> bal_value b < 2 ^ 223"
  then have "varint_check_value True 32 (IntV (bal_value b)) = Inl ValueError"
    by (simp add: varint_check_value_def check_range_def varint_upper_bound_value_def)
  then have "serialize it VarInt32NC (IntV (bal_value b)) s = (Inl ValueError, s)" for it s
    by (simp add: checked_serialize_def raise_check_def sm_simps)
  then have "serialize it BALANCE_NC_TYPE (of_balance b) s = (Inl ValueError, s)" for it s
    by (simp add: BALANCE_NC_TYPE_def of_balance_def checked_serialize_def dataclass_check_value_def
        check_if_def dataclass_serialize_def ustr_eq sm_simps del: serialize.simps(3))
  then show False
    using assms by (auto simp: cs_serialize_def maybe_deleted_to_bytes_def maybe_deleted_serialize_def
        maybe_deleted_check_value_def sm_simps split: sum.splits prod.splits)
qed

lemma cs_serialize_balance:
  assumes "- (2 ^ 223) \<le> bal_value b" "bal_value b < 2 ^ 223"
  shows "\<exists>content. cs_serialize rt (Some (of_balance b)) (Some BALANCE_NC_TYPE) = Inr content"
proof -
  let ?ser = "serialize (set_order rt)"
  obtain s0 where s0: "encode_bool True build_bytes_serializer = (Inr (), s0)" "ser_left s0 = []"
    using encode_bool_free [of build_bytes_serializer True] by (auto simp: build_bytes_serializer_def)
  obtain s1 where s1: "?ser VarInt32NC (IntV (bal_value b)) s0 = (Inr (), s1)" "ser_left s1 = []"
    using serialize_varint_free [OF assms s0(2)] by blast
  obtain s2 where s2: "?ser BoolNC (BoolV (can_mint b)) s1 = (Inr (), s2)" "ser_left s2 = []"
    using serialize_bool_free [OF s1(2)] by blast
  obtain s3 where s3: "?ser BoolNC (BoolV (can_melt b)) s2 = (Inr (), s3)" "ser_left s3 = []"
    using serialize_bool_free [OF s2(2)] by blast
  have "?ser BALANCE_NC_TYPE (of_balance b) s0 = (Inr (), s3)"
    using s1(1) s2(1) s3(1)
    by (simp add: BALANCE_NC_TYPE_def of_balance_def checked_serialize_def dataclass_check_value_def
        check_if_def dataclass_serialize_def ustr_eq sm_simps del: serialize.simps(2,3))
  then show ?thesis
    using s0(1) by (simp add: cs_serialize_def maybe_deleted_to_bytes_def maybe_deleted_serialize_def
        maybe_deleted_check_value_def sm_simps)
qed

text \<open>
  A storage in order: every stored balance can be read, is not negative and fits in its place.
\<close>

definition cs_ok :: "runtime \<Rightarrow> contract_storage \<Rightarrow> bool" where
  "cs_ok rt cs \<longleftrightarrow>
     ptrie_ok (cs_trie cs) \<and>
     (\<forall>token_uid content. ptrie_get (cs_trie cs) (1 # token_uid) = Inr content \<longrightarrow>
        (\<exists>b. cs_deserialize rt content BALANCE_NC_TYPE = Inr (Some (of_balance b)) \<and>
           0 \<le> bal_value b \<and> bal_value b < 2 ^ 223))"

text \<open>The balance in a storage in order, as a value.\<close>

definition balance_of :: "runtime \<Rightarrow> contract_storage \<Rightarrow> bytes \<Rightarrow> balance" where
  "balance_of rt cs token_uid = projr (cs_get_balance rt token_uid cs)"

lemma cs_get_balance_ok:
  assumes "cs_ok rt cs"
  shows "cs_get_balance rt token_uid cs = Inr (balance_of rt cs token_uid)"
    and "0 \<le> bal_value (balance_of rt cs token_uid)" and "bal_value (balance_of rt cs token_uid) < 2 ^ 223"
proof -
  have "\<exists>b. cs_get_balance rt token_uid cs = Inr b \<and> 0 \<le> bal_value b \<and> bal_value b < 2 ^ 223"
  proof (cases rule: ptrie.get_cases [of "cs_trie cs" "1 # token_uid"])
    case missing
    then show ?thesis
      by (simp add: cs_get_balance_def cs_get_balance_obj_def trie_get_obj_def default_balance_def)
  next
    case (found c)
    then obtain b where "cs_deserialize rt c BALANCE_NC_TYPE = Inr (Some (of_balance b))" "0 \<le> bal_value b"
        "bal_value b < 2 ^ 223"
      using assms unfolding cs_ok_def by blast
    with found show ?thesis
      by (simp add: cs_get_balance_def cs_get_balance_obj_def trie_get_obj_def)
  qed
  then show "cs_get_balance rt token_uid cs = Inr (balance_of rt cs token_uid)"
      "0 \<le> bal_value (balance_of rt cs token_uid)" "bal_value (balance_of rt cs token_uid) < 2 ^ 223"
    by (auto simp: balance_of_def)
qed

text \<open>What a client can observe of the attributes, and of the metadata.\<close>

definition attrs_of ::
    "runtime \<Rightarrow> contract_storage \<Rightarrow>
     (bytes \<Rightarrow> nc_type \<Rightarrow> nc_value option \<Rightarrow> exc + nc_value) \<times> (bytes \<Rightarrow> exc + bool)" where
  "attrs_of rt cs = (\<lambda>key t dflt. cs_get_obj rt key t dflt cs, \<lambda>key. cs_has_obj rt key cs)"

lemma attrs_of_eqD:
  assumes "attrs_of rt cs' = attrs_of rt cs"
  shows "cs_get_obj rt key t dflt cs' = cs_get_obj rt key t dflt cs" "cs_has_obj rt key cs' = cs_has_obj rt key cs"
  using assms by (auto simp: attrs_of_def fun_eq_iff)

abbreviation same_header :: "contract_storage \<Rightarrow> contract_storage \<Rightarrow> bool" where
  "same_header cs cs' \<equiv> cs_nc_id cs' = cs_nc_id cs \<and> cs_locked cs' = cs_locked cs"

lemma cs_ok_trie: "cs_ok rt cs \<Longrightarrow> ptrie_ok (cs_trie cs)"
  by (simp add: cs_ok_def)

text \<open>A write to an attribute or to the metadata does not touch the balances.\<close>

lemma cs_ok_update_other:
  assumes ok: "cs_ok rt cs" and upd: "trie_update_obj rt key nc_type obj cs = (Inr u, cs')"
    and other: "hd (trie_key_bytes rt key) \<noteq> 1"
  shows "cs_ok rt cs' \<and> balance_of rt cs' = balance_of rt cs"
proof -
  obtain b k where k: "trie_key_bytes rt key = b # k" using trie_key_bytes_Cons by blast
  obtain content where
      cs': "cs' = cs\<lparr>cs_trie := ptrie_update (cs_trie cs) (trie_key_bytes rt key) content\<rparr>"
    using upd by (auto simp: trie_update_obj_Inr)
  have "ptrie_get (cs_trie cs') (1 # token_uid) = ptrie_get (cs_trie cs) (1 # token_uid)" for token_uid
    using ptrie.get_update_other_tag [OF cs_ok_trie [OF ok]] other by (simp add: cs' k)
  then show ?thesis
    using ok cs' by (simp add: cs_ok_def ptrie.ok_update fun_eq_iff balance_of_def cs_get_balance_def
        cs_get_balance_obj_def trie_get_obj_def)
qed

text \<open>The balance of one token was written, and nothing else.\<close>

definition balance_written :: "runtime \<Rightarrow> bytes \<Rightarrow> balance \<Rightarrow> contract_storage \<Rightarrow> contract_storage \<Rightarrow> bool" where
  "balance_written rt token_uid b cs cs' \<longleftrightarrow>
     cs_ok rt cs' \<and> balance_of rt cs' = (balance_of rt cs)(token_uid := b) \<and>
     attrs_of rt cs' = attrs_of rt cs \<and> cs_get_blueprint_id rt cs' = cs_get_blueprint_id rt cs \<and>
     same_header cs cs'"

lemma cs_change_balance_Inr:
  assumes ok: "cs_ok rt cs" and chg: "cs_change_balance rt token_uid f cs = (Inr u, cs')"
    and f: "\<And>b'. f (balance_of rt cs token_uid) = Inr b' \<Longrightarrow> 0 \<le> bal_value b'"
  shows "\<exists>b'. f (balance_of rt cs token_uid) = Inr b' \<and> balance_written rt token_uid b' cs cs'"
proof -
  let ?key = "BalanceKey (cs_nc_id cs) token_uid"
  obtain b' where b': "f (balance_of rt cs token_uid) = Inr b'"
      and upd: "trie_update_obj rt ?key (Some BALANCE_NC_TYPE) (Some (of_balance b')) cs = (Inr u, cs')"
    using chg cs_get_balance_ok(1) [OF ok, of token_uid]
    by (auto simp: cs_change_balance_def cs_get_balance_def split: sum.splits)
  note get = trie_get_update_obj [OF cs_ok_trie [OF ok] upd typed_balance]
  have bal: "cs_get_balance rt tok cs' = (if tok = token_uid then Inr b' else cs_get_balance rt tok cs)" for tok
    using get(1) [of "BalanceKey (cs_nc_id cs) tok" BALANCE_NC_TYPE]
      get(2) [of "BalanceKey (cs_nc_id cs) tok" BALANCE_NC_TYPE] get(5)
    by (simp add: cs_get_balance_def cs_get_balance_obj_def)
  obtain content where content: "cs_serialize rt (Some (of_balance b')) (Some BALANCE_NC_TYPE) = Inr content"
      and cs': "cs' = cs\<lparr>cs_trie := ptrie_update (cs_trie cs) (1 # token_uid) content\<rparr>"
    using upd by (auto simp: trie_update_obj_Inr)
  have "cs_ok rt cs'"
    unfolding cs_ok_def
  proof (intro conjI allI impI)
    fix tok c
    assume "ptrie_get (cs_trie cs') (1 # tok) = Inr c"
    then show "\<exists>b. cs_deserialize rt c BALANCE_NC_TYPE = Inr (Some (of_balance b)) \<and>
        0 \<le> bal_value b \<and> bal_value b < 2 ^ 223"
      using ptrie.get_update_tagged [OF cs_ok_trie [OF ok]] f [OF b'] ok cs_serialize_balance_less [OF content]
        cs_serialize_data(2) [OF content typed_balance]
      unfolding cs' cs_ok_def by (auto split: if_splits)
  qed (rule get(4))
  moreover have "balance_of rt cs' = (balance_of rt cs)(token_uid := b')"
    by (auto simp: fun_eq_iff balance_of_def bal)
  moreover have "attrs_of rt cs' = attrs_of rt cs"
    using get(1,3,5) by (simp add: attrs_of_def cs_get_obj_def cs_has_obj_def fun_eq_iff)
  moreover have "cs_get_blueprint_id rt cs' = cs_get_blueprint_id rt cs"
    using get(1,5) by (simp add: cs_get_blueprint_id_def cs_get_metadata_def)
  ultimately show ?thesis using b' get(5,6) unfolding balance_written_def by blast
qed

lemma cs_change_balance_succeeds:
  assumes "cs_ok rt cs" and "f (balance_of rt cs token_uid) = Inr b" and "0 \<le> bal_value b" "bal_value b < 2 ^ 223"
  shows "\<exists>cs'. cs_change_balance rt token_uid f cs = (Inr (), cs')"
proof -
  have "- (2 ^ 223) \<le> bal_value b" using assms(3) by (rule order_trans [rotated]) simp
  from cs_serialize_balance [OF this assms(4)] obtain content where
      "cs_serialize rt (Some (of_balance b)) (Some BALANCE_NC_TYPE) = Inr content"
    by blast
  then show ?thesis
    using cs_get_balance_ok(1) [OF assms(1), of token_uid] assms(2)
    by (auto simp: cs_change_balance_def cs_get_balance_def trie_update_obj_def)
qed

text \<open>When the three changes of a balance succeed.\<close>

lemma cs_balance_changes_succeed:
  assumes "cs_ok rt cs" and "\<not> cs_locked cs"
  shows "0 \<le> bal_value (balance_of rt cs token_uid) + amount \<Longrightarrow>
           bal_value (balance_of rt cs token_uid) + amount < 2 ^ 223 \<Longrightarrow>
           \<exists>cs'. cs_add_balance rt token_uid amount cs = (Inr (), cs')"
    and "token_uid \<noteq> HATHOR_TOKEN_UID \<Longrightarrow> \<exists>cs'. cs_grant_authorities rt token_uid mint melt cs = (Inr (), cs')"
    and "token_uid \<noteq> HATHOR_TOKEN_UID \<Longrightarrow> \<exists>cs'. cs_revoke_authorities rt token_uid mint melt cs = (Inr (), cs')"
proof -
  note chg = cs_change_balance_succeeds [OF assms(1)]
  show "\<exists>cs'. cs_add_balance rt token_uid amount cs = (Inr (), cs')"
    if "0 \<le> bal_value (balance_of rt cs token_uid) + amount"
       "bal_value (balance_of rt cs token_uid) + amount < 2 ^ 223"
    using chg [of "\<lambda>b. if 0 \<le> bal_value b + amount then Inr (b\<lparr>bal_value := bal_value b + amount\<rparr>)
        else Inl AssertionError" token_uid] that assms(2)
    by (simp add: cs_add_balance_def sm_simps)
  show "\<exists>cs'. cs_grant_authorities rt token_uid mint melt cs = (Inr (), cs')" if "token_uid \<noteq> HATHOR_TOKEN_UID"
    using chg [of "\<lambda>b. Inr (grant_balance mint melt b)" token_uid] that assms(2) cs_get_balance_ok [OF assms(1)]
    by (simp add: cs_grant_authorities_def grant_balance_def sm_simps)
  show "\<exists>cs'. cs_revoke_authorities rt token_uid mint melt cs = (Inr (), cs')" if "token_uid \<noteq> HATHOR_TOKEN_UID"
    using chg [of "\<lambda>b. Inr (revoke_balance mint melt b)" token_uid] that assms(2) cs_get_balance_ok [OF assms(1)]
    by (simp add: cs_revoke_authorities_def revoke_balance_def sm_simps)
qed

lemma cs_add_balance_Inr:
  assumes "cs_ok rt cs" and "cs_add_balance rt token_uid amount cs = (Inr u, cs')"
  shows "0 \<le> bal_value (balance_of rt cs token_uid) + amount"
    and "balance_written rt token_uid ((balance_of rt cs token_uid)
           \<lparr>bal_value := bal_value (balance_of rt cs token_uid) + amount\<rparr>) cs cs'"
proof -
  let ?f = "\<lambda>b :: balance. if 0 \<le> bal_value b + amount
      then Inr (b\<lparr>bal_value := bal_value b + amount\<rparr>) else Inl AssertionError"
  have "cs_change_balance rt token_uid ?f cs = (Inr u, cs')"
    using assms(2) by (auto simp: cs_add_balance_def sthen_Inr)
  moreover have "0 \<le> bal_value b'" if "?f (balance_of rt cs token_uid) = Inr b'" for b'
    using that by (auto split: if_splits)
  ultimately obtain b' where b': "?f (balance_of rt cs token_uid) = Inr b'" "balance_written rt token_uid b' cs cs'"
    using cs_change_balance_Inr [OF assms(1)] by blast
  then show "0 \<le> bal_value (balance_of rt cs token_uid) + amount" by (simp split: if_splits)
  with b' show "balance_written rt token_uid ((balance_of rt cs token_uid)
           \<lparr>bal_value := bal_value (balance_of rt cs token_uid) + amount\<rparr>) cs cs'" by simp
qed

lemma cs_grant_authorities_Inr:
  assumes "cs_ok rt cs" and "cs_grant_authorities rt token_uid mint melt cs = (Inr u, cs')"
  shows "token_uid \<noteq> HATHOR_TOKEN_UID"
    and "balance_written rt token_uid (grant_balance mint melt (balance_of rt cs token_uid)) cs cs'"
proof -
  have "cs_change_balance rt token_uid (\<lambda>b. Inr (grant_balance mint melt b)) cs = (Inr u, cs')"
    using assms(2) by (auto simp: cs_grant_authorities_def sthen_Inr)
  then show "balance_written rt token_uid (grant_balance mint melt (balance_of rt cs token_uid)) cs cs'"
    using cs_change_balance_Inr [OF assms(1), of token_uid "\<lambda>b. Inr (grant_balance mint melt b)"]
      cs_get_balance_ok(2) [OF assms(1)] by (simp add: grant_balance_def)
  show "token_uid \<noteq> HATHOR_TOKEN_UID"
    using assms(2) by (auto simp: cs_grant_authorities_def sthen_Inr)
qed

lemma cs_revoke_authorities_Inr:
  assumes "cs_ok rt cs" and "cs_revoke_authorities rt token_uid mint melt cs = (Inr u, cs')"
  shows "token_uid \<noteq> HATHOR_TOKEN_UID"
    and "balance_written rt token_uid (revoke_balance mint melt (balance_of rt cs token_uid)) cs cs'"
proof -
  have "cs_change_balance rt token_uid (\<lambda>b. Inr (revoke_balance mint melt b)) cs = (Inr u, cs')"
    using assms(2) by (auto simp: cs_revoke_authorities_def sthen_Inr)
  then show "balance_written rt token_uid (revoke_balance mint melt (balance_of rt cs token_uid)) cs cs'"
    using cs_change_balance_Inr [OF assms(1), of token_uid "\<lambda>b. Inr (revoke_balance mint melt b)"]
      cs_get_balance_ok(2) [OF assms(1)] by (simp add: revoke_balance_def)
  show "token_uid \<noteq> HATHOR_TOKEN_UID"
    using assms(2) by (auto simp: cs_revoke_authorities_def sthen_Inr)
qed

section \<open>Attributes\<close>

text \<open>
  One attribute was written (\<open>None\<close>: deleted), and nothing else. Attributes with the same hash share
  their place.
\<close>

definition attr_written ::
    "runtime \<Rightarrow> bytes \<Rightarrow> nc_type option \<Rightarrow> nc_value option \<Rightarrow> contract_storage \<Rightarrow> contract_storage \<Rightarrow> bool" where
  "attr_written rt key nc_type obj cs cs' \<longleftrightarrow>
     cs_ok rt cs' \<and> balance_of rt cs' = balance_of rt cs \<and>
     cs_get_blueprint_id rt cs' = cs_get_blueprint_id rt cs \<and> same_header cs cs' \<and>
     (\<forall>k. cs_has_obj rt k cs' =
        (if sha256 rt k = sha256 rt key then Inr (obj \<noteq> None) else cs_has_obj rt k cs)) \<and>
     (\<forall>k t dflt. sha256 rt k \<noteq> sha256 rt key \<longrightarrow> cs_get_obj rt k t dflt cs' = cs_get_obj rt k t dflt cs) \<and>
     (\<forall>k t dflt. sha256 rt k = sha256 rt key \<longrightarrow> obj = None \<or> nc_type = Some t \<longrightarrow>
        cs_get_obj rt k t dflt cs' =
          (case obj of Some v \<Rightarrow> Inr v | None \<Rightarrow> (case dflt of None \<Rightarrow> Inl KeyError | Some d \<Rightarrow> Inr d)))"

lemma trie_update_attr:
  assumes ok: "cs_ok rt cs" and upd: "trie_update_obj rt (AttrKey (cs_nc_id cs) key) nc_type obj cs = (Inr u, cs')"
    and typed: "typed_attr (set_order rt) nc_type obj"
  shows "attr_written rt key nc_type obj cs cs'"
proof -
  note get = trie_get_update_obj [OF cs_ok_trie [OF ok] upd typed]
  have "cs_ok rt cs' \<and> balance_of rt cs' = balance_of rt cs" by (rule cs_ok_update_other [OF ok upd]) simp
  moreover have "cs_get_blueprint_id rt cs' = cs_get_blueprint_id rt cs"
    using get(1,5) by (simp add: cs_get_blueprint_id_def cs_get_metadata_def)
  moreover have "cs_get_obj rt k t dflt cs' =
      (case obj of Some v \<Rightarrow> Inr v | None \<Rightarrow> (case dflt of None \<Rightarrow> Inl KeyError | Some d \<Rightarrow> Inr d))"
    if "sha256 rt k = sha256 rt key" "obj = None \<or> nc_type = Some t" for k t dflt
    unfolding cs_get_obj_def get(5) by (rule get(2)) (use that in simp_all)
  ultimately show ?thesis
    unfolding attr_written_def using get(1,3,5,6) by (simp add: cs_get_obj_def cs_has_obj_def)
qed

lemma cs_put_obj_Inr:
  assumes "cs_ok rt cs" and "cs_put_obj rt key t v cs = (Inr u, cs')" and "typed (set_order rt) t v"
  shows "attr_written rt key (Some t) (Some v) cs cs'"
  by (rule trie_update_attr [OF assms(1)])
     (use assms(2,3) in \<open>auto simp: cs_put_obj_def sthen_Inr typed_attr_def\<close>)

lemma cs_del_obj_Inr:
  assumes "cs_ok rt cs" and "cs_del_obj rt key cs = (Inr u, cs')"
  shows "attr_written rt key None None cs cs'"
  by (rule trie_update_attr [OF assms(1)])
     (use assms(2) in \<open>auto simp: cs_del_obj_def sthen_Inr typed_attr_def\<close>)

lemma cs_set_blueprint_id_Inr:
  assumes ok: "cs_ok rt cs" and set: "cs_set_blueprint_id rt blueprint_id cs = (Inr u, cs')"
  shows "cs_ok rt cs' \<and> balance_of rt cs' = balance_of rt cs \<and> attrs_of rt cs' = attrs_of rt cs \<and>
         cs_get_blueprint_id rt cs' = Inr blueprint_id \<and> same_header cs cs'"
proof -
  let ?key = "MetadataKey (cs_nc_id cs) BLUEPRINT_ID_KEY"
  have upd: "trie_update_obj rt ?key (Some (BytesLikeNC PlainBytes)) (Some (BytesV PlainBytes blueprint_id)) cs
      = (Inr u, cs')"
    using set by (auto simp: cs_set_blueprint_id_def cs_put_metadata_def sthen_Inr)
  have "typed_attr (set_order rt) (Some (BytesLikeNC PlainBytes)) (Some (BytesV PlainBytes blueprint_id))"
    by (simp add: typed_attr_def)
  note get = trie_get_update_obj [OF cs_ok_trie [OF ok] upd this]
  have "cs_ok rt cs' \<and> balance_of rt cs' = balance_of rt cs" by (rule cs_ok_update_other [OF ok upd]) simp
  moreover have "attrs_of rt cs' = attrs_of rt cs"
    using get(1,3,5) by (simp add: attrs_of_def cs_get_obj_def cs_has_obj_def fun_eq_iff)
  moreover have "cs_get_blueprint_id rt cs' = Inr blueprint_id"
    using get(2) [of ?key] get(5) by (simp add: cs_get_blueprint_id_def cs_get_metadata_def)
  ultimately show ?thesis using get(5,6) by blast
qed

section \<open>Errors\<close>

text \<open>A method that raises leaves the storage as it was; a locked storage refuses every change.\<close>

lemma cs_change_balance_Inl: "cs_change_balance rt token_uid f cs = (Inl e, cs') \<Longrightarrow> cs' = cs"
  by (auto simp: cs_change_balance_def dest: trie_update_obj_Inl split: sum.splits)

lemma cs_error_unchanged:
  "cs_put_obj rt key t v cs = (Inl e, cs') \<Longrightarrow> cs' = cs"
  "cs_del_obj rt key cs = (Inl e, cs') \<Longrightarrow> cs' = cs"
  "cs_set_blueprint_id rt blueprint_id cs = (Inl e, cs') \<Longrightarrow> cs' = cs"
  "cs_add_balance rt token_uid amount cs = (Inl e, cs') \<Longrightarrow> cs' = cs"
  "cs_grant_authorities rt token_uid mint melt cs = (Inl e, cs') \<Longrightarrow> cs' = cs"
  "cs_revoke_authorities rt token_uid mint melt cs = (Inl e, cs') \<Longrightarrow> cs' = cs"
  by (auto simp: cs_put_obj_def cs_del_obj_def cs_set_blueprint_id_def cs_put_metadata_def
      cs_add_balance_def cs_grant_authorities_def cs_revoke_authorities_def sm_simps
      dest: trie_update_obj_Inl cs_change_balance_Inl split: if_splits)

section \<open>All balances\<close>

lemma encode_key_Cons: "encode_key (b # k) = hex_digit (b div 16) # hex_digit (b mod 16) # encode_key k"
  by (simp add: encode_key_def)

lemma encode_key_tagged: "encode_key [b] @ encode_key k = encode_key (b # k)"
  by (simp add: encode_key_def)

lemma encode_key_prefix: "prefix (encode_key [b]) (encode_key k) \<longleftrightarrow> (\<exists>k'. k = b # k')"
proof
  assume pre: "prefix (encode_key [b]) (encode_key k)"
  then obtain c k' where k: "k = c # k'" by (cases k) (simp_all add: encode_key_def)
  have "hex_digit (b div 16) = hex_digit (c div 16)" "hex_digit (b mod 16) = hex_digit (c mod 16)"
    using pre by (simp_all add: k encode_key_Cons)
  then have "b = c" by (blast intro: byte_eqI hex_digit_inj nibbles_less)
  then show "\<exists>k'. k = b # k'" using k by blast
qed (metis encode_key_tagged prefixI)

lemma balance_items_collect:
  assumes "\<And>k content. (k, Some content) \<in> set items \<Longrightarrow>
             \<exists>token_uid. k = encode_key (1 # token_uid) \<and>
               cs_deserialize rt content BALANCE_NC_TYPE = Inr (Some (of_balance (f token_uid)))"
  shows "\<exists>balances. balance_items rt nc_id items acc = Inr balances \<and>
           (\<forall>key. dict_get balances key =
              (if \<exists>token_uid content. key = BalanceKey nc_id token_uid \<and>
                    (encode_key (1 # token_uid), Some content) \<in> set items
               then (case key of BalanceKey _ token_uid \<Rightarrow> Some (f token_uid) | _ \<Rightarrow> None)
               else dict_get acc key))"
  using assms
proof (induction items arbitrary: acc)
  case (Cons item items)
  obtain k c where item: "item = (k, c)" by (cases item)
  show ?case
  proof (cases c)
    case None
    then show ?thesis using Cons.IH [of acc] Cons.prems by (auto simp: item balance_item_def)
  next
    case (Some content)
    then obtain token_uid where k: "k = encode_key (1 # token_uid)"
        and b: "cs_deserialize rt content BALANCE_NC_TYPE = Inr (Some (of_balance (f token_uid)))"
      using Cons.prems by (auto simp: item)
    let ?acc = "dict_put (BalanceKey nc_id token_uid) (f token_uid) acc"
    have step: "balance_item rt nc_id item acc = Inr ?acc"
      by (simp add: item Some balance_item_def b k decode_key_encode_key)
    obtain balances where "balance_items rt nc_id items ?acc = Inr balances"
        "\<forall>key. dict_get balances key =
              (if \<exists>token_uid content. key = BalanceKey nc_id token_uid \<and>
                    (encode_key (1 # token_uid), Some content) \<in> set items
               then (case key of BalanceKey _ token_uid \<Rightarrow> Some (f token_uid) | _ \<Rightarrow> None)
               else dict_get ?acc key)"
      using Cons.IH [of ?acc] Cons.prems by auto
    then show ?thesis by (auto simp: step) (auto simp: item Some k)
  qed
qed simp

lemma cs_get_all_balances_ok:
  assumes ok: "cs_ok rt cs"
  shows "\<exists>balances. cs_get_all_balances rt cs = Inr balances \<and>
           (\<forall>key. dict_get balances key =
              (case key of
                 BalanceKey nc_id token_uid \<Rightarrow>
                   if nc_id = cs_nc_id cs \<and> ptrie_get (cs_trie cs) (1 # token_uid) \<noteq> Inl KeyError
                   then Some (balance_of rt cs token_uid) else None
               | _ \<Rightarrow> None))"
proof -
  have trie: "pwf (cs_trie cs)" "\<And>k. plookup (cs_trie cs) k \<noteq> None \<Longrightarrow> k \<in> range encode_key"
    using cs_ok_trie [OF ok] by (auto simp: ptrie_ok_def)
  have get: "ptrie_get (cs_trie cs) (1 # token_uid) =
      (case plookup (cs_trie cs) (encode_key (1 # token_uid)) of None \<Rightarrow> Inl KeyError | Some c \<Rightarrow> Inr c)" for token_uid
    by (simp add: ptrie_get_def)
  have none: "ptrie_get (cs_trie cs) (1 # token_uid) = Inl KeyError \<longleftrightarrow>
      plookup (cs_trie cs) (encode_key (1 # token_uid)) = None" for token_uid
    by (simp add: get split: option.splits)
  show ?thesis
  proof (cases "psubtree (cs_trie cs) (encode_key [1])")
    case None
    then have "plookup (cs_trie cs) (encode_key [1] @ s) = None" for s
      using psubtree_contents [OF trie(1), of "encode_key [1]"] by simp
    then have "plookup (cs_trie cs) (encode_key (1 # token_uid)) = None" for token_uid
      unfolding encode_key_tagged [symmetric, of 1 token_uid] .
    then show ?thesis using None by (auto simp: cs_get_all_balances_def get split: trie_key.splits)
  next
    case (Some pu)
    obtain p u where pu: "pu = (p, u)" by (cases pu)
    have mem: "(k, Some c) \<in> set (pdfs p u) \<longleftrightarrow> prefix (encode_key [1]) k \<and> plookup (cs_trie cs) k = Some c" for k c
      using psubtree_contents [OF trie(1), of "encode_key [1]"] by (simp add: Some pu)
    have mem_tok: "(\<exists>c. (encode_key (1 # token_uid), Some c) \<in> set (pdfs p u)) \<longleftrightarrow>
        ptrie_get (cs_trie cs) (1 # token_uid) \<noteq> Inl KeyError" for token_uid
      by (simp add: mem encode_key_prefix none)
    have "\<exists>token_uid. k = encode_key (1 # token_uid) \<and>
        cs_deserialize rt c BALANCE_NC_TYPE = Inr (Some (of_balance (balance_of rt cs token_uid)))"
      if "(k, Some c) \<in> set (pdfs p u)" for k c
    proof -
      have look: "prefix (encode_key [1]) k" "plookup (cs_trie cs) k = Some c" using that by (simp_all add: mem)
      moreover obtain k0 where "k = encode_key k0" using trie(2) [of k] look(2) by auto
      ultimately obtain token_uid where k: "k = encode_key (1 # token_uid)" by (auto simp: encode_key_prefix)
      then have c: "ptrie_get (cs_trie cs) (1 # token_uid) = Inr c" using look by (simp add: get)
      then obtain b where b: "cs_deserialize rt c BALANCE_NC_TYPE = Inr (Some (of_balance b))"
        using ok unfolding cs_ok_def by blast
      then have "balance_of rt cs token_uid = b"
        using c by (simp add: balance_of_def cs_get_balance_def cs_get_balance_obj_def trie_get_obj_def)
      with b k show ?thesis by blast
    qed
    from balance_items_collect [where items = "pdfs p u" and nc_id = "cs_nc_id cs" and acc = "[]", OF this] obtain balances where
      all: "balance_items rt (cs_nc_id cs) (pdfs p u) [] = Inr balances"
        and bal: "\<And>key. dict_get balances key =
           (if \<exists>token_uid content. key = BalanceKey (cs_nc_id cs) token_uid \<and>
                 (encode_key (1 # token_uid), Some content) \<in> set (pdfs p u)
            then (case key of BalanceKey _ token_uid \<Rightarrow> Some (balance_of rt cs token_uid) | _ \<Rightarrow> None)
            else None)"
      unfolding map_of.simps(1) by blast
    have "dict_get balances (BalanceKey nc_id token_uid) =
        (if nc_id = cs_nc_id cs \<and> ptrie_get (cs_trie cs) (1 # token_uid) \<noteq> Inl KeyError
         then Some (balance_of rt cs token_uid) else None)" for nc_id token_uid
      unfolding bal mem_tok [symmetric] by simp
    moreover have "dict_get balances (AttrKey nc_id k) = None" "dict_get balances (MetadataKey nc_id k) = None"
      for nc_id k
      unfolding bal by simp_all
    ultimately show ?thesis using all by (simp add: cs_get_all_balances_def Some pu split: trie_key.split)
  qed
qed

end
