(* ===== verification/Block_Storage.thy ===== *)
theory Block_Storage
  imports Contract_Storage
begin

text \<open>
  The storage of a block (\<^verbatim>\<open>hathor/nanocontracts/storage/block_storage.py\<close>): one trie with the root
  ids of the contracts, the tokens created by contracts and the sequence numbers of the addresses; the
  token proxy (\<^verbatim>\<open>token_proxy.py\<close>) and the factory of block storages (\<^verbatim>\<open>factory.py\<close>).

  The node store is shared by the trie of the block and the tries of the contracts. It is seen here as
  the tries that have been stored in it, each under its root id.
\<close>

section \<open>Tokens\<close>

datatype token_version = NATIVE | DEPOSIT | FEE

fun token_version_value :: "token_version \<Rightarrow> int" where
  "token_version_value NATIVE = 0"
| "token_version_value DEPOSIT = 1"
| "token_version_value FEE = 2"

definition as_token_version :: "nc_value \<Rightarrow> token_version option" where
  "as_token_version v =
     (if v = IntV 0 then Some NATIVE else if v = IntV 1 then Some DEPOSIT
      else if v = IntV 2 then Some FEE else None)"

record token_description =
  td_token_id :: bytes
  td_token_name :: ustring
  td_token_symbol :: ustring
  td_token_version :: token_version

definition TOKEN_DESCRIPTION_NC_TYPE :: nc_type where
  "TOKEN_DESCRIPTION_NC_TYPE =
     DataclassNC (ustr ''TokenDescription'')
       [(ustr ''token_id'', BytesLikeNC PlainBytes), (ustr ''token_name'', StrNC),
        (ustr ''token_symbol'', StrNC), (ustr ''token_version'', TokenVersionNC)]"

definition of_token_description :: "token_description \<Rightarrow> nc_value" where
  "of_token_description td =
     DataclassV (ustr ''TokenDescription'')
       [(ustr ''token_id'', BytesV PlainBytes (td_token_id td)), (ustr ''token_name'', StrV (td_token_name td)),
        (ustr ''token_symbol'', StrV (td_token_symbol td)),
        (ustr ''token_version'', IntV (token_version_value (td_token_version td)))]"

text \<open>The attributes of a deserialized token description (its \<open>__post_init__\<close> checks the version).\<close>

fun as_token_description :: "nc_value \<Rightarrow> token_description option" where
  "as_token_description (DataclassV c [(_, BytesV PlainBytes i), (_, StrV n), (_, StrV s), (_, v)]) =
     (case as_token_version v of
        None \<Rightarrow> None
      | Some tv \<Rightarrow> Some \<lparr>td_token_id = i, td_token_name = n, td_token_symbol = s, td_token_version = tv\<rparr>)"
| "as_token_description _ = None"

section \<open>The storage\<close>

record block_storage =
  bs_trie :: ptree
  bs_store :: "(bytes, ptree) dict"

datatype block_key = ContractKey bytes | TokenKey bytes | AddressKey bytes

fun block_key_bytes :: "block_key \<Rightarrow> bytes" where
  "block_key_bytes (ContractKey nc_id) = 0 # nc_id"
| "block_key_bytes (TokenKey token_id) = 1 # token_id"
| "block_key_bytes (AddressKey address) = 2 # address"

abbreviation bs_get :: "block_storage \<Rightarrow> block_key \<Rightarrow> exc + bytes" where
  "bs_get bs key \<equiv> ptrie_get (bs_trie bs) (block_key_bytes key)"

abbreviation bs_update :: "block_storage \<Rightarrow> block_key \<Rightarrow> bytes \<Rightarrow> block_storage" where
  "bs_update bs key content \<equiv> bs\<lparr>bs_trie := ptrie_update (bs_trie bs) (block_key_bytes key) content\<rparr>"

subsection \<open>Contracts\<close>

definition bs_get_contract_root_id :: "bytes \<Rightarrow> block_storage \<Rightarrow> exc + bytes" where
  "bs_get_contract_root_id contract_id bs = bs_get bs (ContractKey contract_id)"

definition bs_has_contract :: "bytes \<Rightarrow> block_storage \<Rightarrow> exc + bool" where
  "bs_has_contract contract_id bs =
     (case bs_get_contract_root_id contract_id bs of
        Inl e \<Rightarrow> if e = KeyError then Inr False else Inl e
      | Inr _ \<Rightarrow> Inr True)"

definition bs_update_contract_trie :: "bytes \<Rightarrow> bytes \<Rightarrow> (block_storage, unit) sm" where
  "bs_update_contract_trie nc_id root_id = smod (\<lambda>bs. bs_update bs (ContractKey nc_id) root_id)"

definition bs_get_root_id :: "runtime \<Rightarrow> block_storage \<Rightarrow> bytes" where
  "bs_get_root_id rt bs = ptrie_root_id (sha256 rt) (bs_trie bs)"

text \<open>\<open>PatriciaTrie.commit\<close> on a trie over the store.\<close>

definition store_trie :: "runtime \<Rightarrow> ptree \<Rightarrow> block_storage \<Rightarrow> block_storage" where
  "store_trie rt t bs = bs\<lparr>bs_store := dict_put (ptrie_root_id (sha256 rt) t) t (bs_store bs)\<rparr>"

definition bs_commit :: "runtime \<Rightarrow> (block_storage, unit) sm" where
  "bs_commit rt = smod (\<lambda>bs. store_trie rt (bs_trie bs) bs)"

text \<open>\<open>_get_trie\<close>: without a root id a new trie, whose root is put in the store.\<close>

definition bs_get_trie :: "runtime \<Rightarrow> bytes option \<Rightarrow> (block_storage, ptree) sm" where
  "bs_get_trie rt root_id bs =
     (case root_id of
        None \<Rightarrow> (Inr pempty, store_trie rt pempty bs)
      | Some i \<Rightarrow> (case dict_get (bs_store bs) i of None \<Rightarrow> Inl KeyError | Some t \<Rightarrow> Inr t, bs))"

definition bs_get_contract_storage :: "runtime \<Rightarrow> bytes \<Rightarrow> (block_storage, contract_storage) sm" where
  "bs_get_contract_storage rt contract_id bs =
     (case bs_get_contract_root_id contract_id bs of
        Inl e \<Rightarrow> (Inl (if e = KeyError then NanoContractDoesNotExist else e), bs)
      | Inr nc_root_id \<Rightarrow>
          (case bs_get_trie rt (Some nc_root_id) bs of
             (Inl e, bs') \<Rightarrow> (Inl (if e = KeyError then NanoContractDoesNotExist else e), bs')
           | (Inr trie, bs') \<Rightarrow> (Inr (new_contract_storage trie contract_id), bs')))"

definition bs_get_empty_contract_storage :: "runtime \<Rightarrow> bytes \<Rightarrow> (block_storage, contract_storage) sm" where
  "bs_get_empty_contract_storage rt contract_id =
     sbind (bs_get_trie rt None) (\<lambda>trie. sret (new_contract_storage trie contract_id))"

text \<open>\<open>NCContractStorage.commit\<close>.\<close>

definition cs_commit :: "runtime \<Rightarrow> contract_storage \<Rightarrow> (block_storage, unit) sm" where
  "cs_commit rt cs = sthen (sguard (\<not> cs_locked cs) RuntimeError) (smod (store_trie rt (cs_trie cs)))"

subsection \<open>Tokens\<close>

definition bs_get_token_description :: "runtime \<Rightarrow> bytes \<Rightarrow> block_storage \<Rightarrow> exc + token_description" where
  "bs_get_token_description rt token_id bs =
     (case bs_get bs (TokenKey token_id) of
        Inl e \<Rightarrow> Inl e
      | Inr token_description_bytes \<Rightarrow>
          (case from_bytes (set_order rt) TOKEN_DESCRIPTION_NC_TYPE token_description_bytes of
             Inl e \<Rightarrow> Inl e
           | Inr v \<Rightarrow> (case as_token_description v of None \<Rightarrow> Inl AssertionError | Some td \<Rightarrow> Inr td)))"

definition bs_has_token :: "bytes \<Rightarrow> block_storage \<Rightarrow> exc + bool" where
  "bs_has_token token_id bs =
     (case bs_get bs (TokenKey token_id) of
        Inl e \<Rightarrow> if e = KeyError then Inr False else Inl e
      | Inr _ \<Rightarrow> Inr True)"

definition bs_create_token :: "runtime \<Rightarrow> token_description \<Rightarrow> (block_storage, unit) sm" where
  "bs_create_token rt td bs =
     (case to_bytes (set_order rt) TOKEN_DESCRIPTION_NC_TYPE (of_token_description td) of
        Inl e \<Rightarrow> (Inl e, bs)
      | Inr token_description_bytes \<Rightarrow>
          (Inr (), bs_update bs (TokenKey (td_token_id td)) token_description_bytes))"

subsection \<open>Sequence numbers\<close>

abbreviation ADDRESS_SEQNUM_SIZE :: nat where "ADDRESS_SEQNUM_SIZE \<equiv> 8"

definition bs_get_address_seqnum :: "bytes \<Rightarrow> block_storage \<Rightarrow> exc + int" where
  "bs_get_address_seqnum address bs =
     (case bs_get bs (AddressKey address) of
        Inl e \<Rightarrow> if e = KeyError then Inr (- 1) else Inl e
      | Inr seqnum_bytes \<Rightarrow>
          (case leb128_decode False seqnum_bytes (Some ADDRESS_SEQNUM_SIZE) of
             Inl e \<Rightarrow> Inl e
           | Inr (seqnum, buf) \<Rightarrow> if buf = [] then Inr seqnum else Inl AssertionError))"

definition bs_set_address_seqnum :: "bytes \<Rightarrow> int \<Rightarrow> (block_storage, unit) sm" where
  "bs_set_address_seqnum address seqnum bs =
     (if \<not> 0 \<le> seqnum then (Inl AssertionError, bs)
      else case bs_get_address_seqnum address bs of
             Inl e \<Rightarrow> (Inl e, bs)
           | Inr old_seqnum \<Rightarrow>
               if \<not> old_seqnum < seqnum then (Inl AssertionError, bs)
               else (case leb128_encode False seqnum (Some ADDRESS_SEQNUM_SIZE) of
                       Inl e \<Rightarrow> (Inl e, bs)
                     | Inr seqnum_bytes \<Rightarrow> (Inr (), bs_update bs (AddressKey address) seqnum_bytes)))"

section \<open>The factory\<close>

text \<open>
  A block storage for the root id in the metadata of a block; the genesis block has none and gets an
  empty storage. The state is the store of the factory.
\<close>

definition factory_get_trie :: "runtime \<Rightarrow> bytes option \<Rightarrow> ((bytes, ptree) dict, ptree) sm" where
  "factory_get_trie rt root_id store =
     (case bs_get_trie rt root_id \<lparr>bs_trie = pempty, bs_store = store\<rparr> of
        (r, bs) \<Rightarrow> (r, bs_store bs))"

definition get_block_storage :: "runtime \<Rightarrow> bytes \<Rightarrow> ((bytes, ptree) dict, block_storage) sm" where
  "get_block_storage rt block_root_id =
     sbind (factory_get_trie rt (Some block_root_id)) (\<lambda>trie.
     sbind (sget (\<lambda>store. store)) (\<lambda>store. sret \<lparr>bs_trie = trie, bs_store = store\<rparr>))"

definition get_empty_block_storage :: "runtime \<Rightarrow> ((bytes, ptree) dict, block_storage) sm" where
  "get_empty_block_storage rt =
     sbind (factory_get_trie rt None) (\<lambda>trie.
     sbind (sget (\<lambda>store. store)) (\<lambda>store. sret \<lparr>bs_trie = trie, bs_store = store\<rparr>))"

definition get_block_storage_from_block ::
    "runtime \<Rightarrow> bool \<Rightarrow> bytes option \<Rightarrow> ((bytes, ptree) dict, block_storage) sm" where
  "get_block_storage_from_block rt is_genesis nc_block_root_id =
     (if is_genesis
      then sthen (sassert (nc_block_root_id = None)) (get_empty_block_storage rt)
      else case nc_block_root_id of
             None \<Rightarrow> sraise AssertionError
           | Some root_id \<Rightarrow> get_block_storage rt root_id)"

section \<open>Laws\<close>

lemma block_key_bytes_eq [simp]: "block_key_bytes a = block_key_bytes b \<longleftrightarrow> a = b"
  by (cases a; cases b) auto

lemma block_key_bytes_Nil [simp]: "block_key_bytes a \<noteq> []"
  by (cases a) auto

lemma bs_get_update:
  "ptrie_ok (bs_trie bs) \<Longrightarrow> bs_get (bs_update bs key c) key' = (if key' = key then Inr c else bs_get bs key')"
  by (simp add: ptrie.get_update)

lemma typed_token_description: "typed it TOKEN_DESCRIPTION_NC_TYPE (of_token_description td)"
  by (cases "td_token_version td")
     (simp_all add: TOKEN_DESCRIPTION_NC_TYPE_def of_token_description_def ustr_eq)

lemma as_token_description_of [simp]: "as_token_description (of_token_description td) = Some td"
  by (cases "td_token_version td") (simp_all add: of_token_description_def as_token_version_def)

text \<open>Every entry of the block trie can be read.\<close>

definition bs_ok :: "runtime \<Rightarrow> block_storage \<Rightarrow> bool" where
  "bs_ok rt bs \<longleftrightarrow>
     ptrie_ok (bs_trie bs) \<and>
     (\<forall>address c. bs_get bs (AddressKey address) = Inr c \<longrightarrow>
        (\<exists>n\<ge>0. leb128_decode False c (Some ADDRESS_SEQNUM_SIZE) = Inr (n, []))) \<and>
     (\<forall>token_id c. bs_get bs (TokenKey token_id) = Inr c \<longrightarrow>
        (\<exists>td. from_bytes (set_order rt) TOKEN_DESCRIPTION_NC_TYPE c = Inr (of_token_description td)))"

definition seqnum_of :: "block_storage \<Rightarrow> bytes \<Rightarrow> int" where
  "seqnum_of bs address = projr (bs_get_address_seqnum address bs)"

lemma bs_get_address_seqnum_ok:
  assumes "bs_ok rt bs"
  shows "bs_get_address_seqnum address bs = Inr (seqnum_of bs address)" "- 1 \<le> seqnum_of bs address"
proof -
  have "\<exists>n\<ge>-1. bs_get_address_seqnum address bs = Inr n"
  proof (cases rule: ptrie.get_cases [of "bs_trie bs" "block_key_bytes (AddressKey address)"])
    case missing
    then show ?thesis by (simp add: bs_get_address_seqnum_def)
  next
    case (found c)
    then obtain n where "0 \<le> n" "leb128_decode False c (Some ADDRESS_SEQNUM_SIZE) = Inr (n, [])"
      using assms unfolding bs_ok_def by blast
    then show ?thesis using found by (intro exI [of _ n]) (simp add: bs_get_address_seqnum_def)
  qed
  then show "bs_get_address_seqnum address bs = Inr (seqnum_of bs address)" "- 1 \<le> seqnum_of bs address"
    by (auto simp: seqnum_of_def)
qed

lemma bs_set_address_seqnum_eq:
  assumes "bs_ok rt bs"
  shows "bs_set_address_seqnum address seqnum bs =
           (if 0 \<le> seqnum \<and> seqnum_of bs address < seqnum
            then if seqnum < 2 ^ 56
                 then (Inr (), bs_update bs (AddressKey address) (leb128_ref False seqnum))
                 else (Inl ValueError, bs)
            else (Inl AssertionError, bs))"
proof -
  have "leb128_fits False seqnum ADDRESS_SEQNUM_SIZE \<longleftrightarrow> seqnum < 2 ^ 56"
    by (simp add: leb128_fits_def)
  then show ?thesis
    by (auto simp: bs_set_address_seqnum_def bs_get_address_seqnum_ok [OF assms] leb128_encode_range)
qed

lemma seqnum_decode:
  assumes "0 \<le> seqnum" "seqnum < 2 ^ 56"
  shows "leb128_decode False (leb128_ref False seqnum) (Some ADDRESS_SEQNUM_SIZE) = Inr (seqnum, [])"
  using leb128_decode_data [of False seqnum "Some ADDRESS_SEQNUM_SIZE" "leb128_ref False seqnum" "[]"] assms
  by (simp add: leb128_encode_range leb128_fits_def)

lemma bs_set_address_seqnum_ok:
  assumes ok: "bs_ok rt bs" and set: "bs_set_address_seqnum address seqnum bs = (Inr u, bs')"
  shows "bs_ok rt bs'" and "seqnum_of bs' = (seqnum_of bs)(address := seqnum)"
    and "seqnum_of bs address < seqnum" and "bs_store bs' = bs_store bs"
    and "\<And>key. (\<forall>a. key \<noteq> AddressKey a) \<Longrightarrow> bs_get bs' key = bs_get bs key"
proof -
  have range: "0 \<le> seqnum" "seqnum < 2 ^ 56" "seqnum_of bs address < seqnum"
      and bs': "bs' = bs_update bs (AddressKey address) (leb128_ref False seqnum)"
    using set unfolding bs_set_address_seqnum_eq [OF ok] by (auto split: if_splits)
  have trie: "ptrie_ok (bs_trie bs)" using ok by (simp add: bs_ok_def)
  note get = bs_get_update [OF trie, of "AddressKey address" "leb128_ref False seqnum", folded bs']
  show "bs_ok rt bs'"
    unfolding bs_ok_def
  proof (intro conjI allI impI)
    show "ptrie_ok (bs_trie bs')" using trie by (simp add: bs' ptrie.ok_update)
    show "\<exists>n\<ge>0. leb128_decode False c (Some ADDRESS_SEQNUM_SIZE) = Inr (n, [])"
      if "bs_get bs' (AddressKey a) = Inr c" for a c
      using that ok seqnum_decode [OF range(1,2)] range(1) unfolding get bs_ok_def by (auto split: if_splits)
    show "\<exists>td. from_bytes (set_order rt) TOKEN_DESCRIPTION_NC_TYPE c = Inr (of_token_description td)"
      if "bs_get bs' (TokenKey t) = Inr c" for t c
      using that ok unfolding get bs_ok_def by (auto split: if_splits)
  qed
  show "seqnum_of bs' = (seqnum_of bs)(address := seqnum)"
    by (auto simp: fun_eq_iff seqnum_of_def bs_get_address_seqnum_def get seqnum_decode [OF range(1,2)]
        simp del: block_key_bytes.simps)
  show "seqnum_of bs address < seqnum" by (rule range)
  show "bs_store bs' = bs_store bs" by (simp add: bs')
  show "bs_get bs' key = bs_get bs key" if "\<forall>a. key \<noteq> AddressKey a" for key
    using that by (simp add: get)
qed

lemma bs_ok_trie: "bs_ok rt bs \<Longrightarrow> ptrie_ok (bs_trie bs)"
  by (simp add: bs_ok_def)

lemma bs_update_contract_trie_ok:
  assumes ok: "bs_ok rt bs" and upd: "bs_update_contract_trie nc_id root_id bs = (r, bs')"
  shows "bs_ok rt bs'" and "r = Inr ()" and "bs_store bs' = bs_store bs"
    and "bs_get bs' key = (if key = ContractKey nc_id then Inr root_id else bs_get bs key)"
proof -
  have bs': "bs' = bs_update bs (ContractKey nc_id) root_id" and r: "r = Inr ()"
    using upd by (auto simp: bs_update_contract_trie_def sm_simps)
  have get: "bs_get bs' key = (if key = ContractKey nc_id then Inr root_id else bs_get bs key)" for key
    unfolding bs' by (rule bs_get_update [OF bs_ok_trie [OF ok]])
  show "r = Inr ()" by (rule r)
  show "bs_store bs' = bs_store bs" by (simp add: bs')
  show "bs_get bs' key = (if key = ContractKey nc_id then Inr root_id else bs_get bs key)" by (rule get)
  have "ptrie_ok (bs_trie bs')" using bs_ok_trie [OF ok] by (simp add: bs' ptrie.ok_update)
  then show "bs_ok rt bs'"
    using ok unfolding bs_ok_def get by (simp del: block_key_bytes.simps)
qed

lemma bs_create_token_ok:
  assumes ok: "bs_ok rt bs" and crt: "bs_create_token rt td bs = (Inr u, bs')"
  shows "bs_ok rt bs'" and "bs_store bs' = bs_store bs"
    and "bs_has_token token_id bs' = (if token_id = td_token_id td then Inr True else bs_has_token token_id bs)"
    and "bs_get_token_description rt token_id bs' =
           (if token_id = td_token_id td then Inr td else bs_get_token_description rt token_id bs)"
    and "\<And>key. (\<forall>t. key \<noteq> TokenKey t) \<Longrightarrow> bs_get bs' key = bs_get bs key"
proof -
  obtain c where c: "to_bytes (set_order rt) TOKEN_DESCRIPTION_NC_TYPE (of_token_description td) = Inr c"
      and bs': "bs' = bs_update bs (TokenKey (td_token_id td)) c"
    using crt by (auto simp: bs_create_token_def split: sum.splits)
  have read: "from_bytes (set_order rt) TOKEN_DESCRIPTION_NC_TYPE c = Inr (of_token_description td)"
    by (rule nc_type_read_back [OF typed_token_description c])
  have get: "bs_get bs' key = (if key = TokenKey (td_token_id td) then Inr c else bs_get bs key)" for key
    unfolding bs' by (rule bs_get_update [OF bs_ok_trie [OF ok]])
  show "bs_store bs' = bs_store bs" by (simp add: bs')
  show "bs_has_token token_id bs' = (if token_id = td_token_id td then Inr True else bs_has_token token_id bs)"
    by (auto simp: bs_has_token_def get simp del: block_key_bytes.simps)
  show "bs_get_token_description rt token_id bs' =
      (if token_id = td_token_id td then Inr td else bs_get_token_description rt token_id bs)"
    by (auto simp: bs_get_token_description_def get read simp del: block_key_bytes.simps)
  show "bs_get bs' key = bs_get bs key" if "\<forall>t. key \<noteq> TokenKey t" for key
    using that by (simp add: get)
  have "ptrie_ok (bs_trie bs')" using bs_ok_trie [OF ok] by (simp add: bs' ptrie.ok_update)
  then show "bs_ok rt bs'"
    using ok read unfolding bs_ok_def get by (auto simp del: block_key_bytes.simps split: if_splits)
qed

lemma bs_token_ok:
  assumes "bs_ok rt bs"
  shows "\<exists>b. bs_has_token token_id bs = Inr b \<and>
           (b \<longleftrightarrow> (\<exists>td. bs_get_token_description rt token_id bs = Inr td))"
proof (cases rule: ptrie.get_cases [of "bs_trie bs" "block_key_bytes (TokenKey token_id)"])
  case missing
  then show ?thesis by (intro exI [of _ False]) (simp add: bs_has_token_def bs_get_token_description_def)
next
  case (found c)
  then obtain td where "from_bytes (set_order rt) TOKEN_DESCRIPTION_NC_TYPE c = Inr (of_token_description td)"
    using assms unfolding bs_ok_def by blast
  then show ?thesis using found by (intro exI [of _ True]) (simp add: bs_has_token_def bs_get_token_description_def)
qed

lemma store_trie_simps [simp]:
  "bs_trie (store_trie rt t bs) = bs_trie bs"
  "dict_get (bs_store (store_trie rt t bs)) i =
     (if i = ptrie_root_id (sha256 rt) t then Some t else dict_get (bs_store bs) i)"
  by (simp_all add: store_trie_def)

lemma bs_ok_store_trie [simp]: "bs_ok rt (store_trie rt t bs) \<longleftrightarrow> bs_ok rt bs"
  by (simp add: bs_ok_def)

end
