(* ===== verification/Changes_Tracker.thy ===== *)
theory Changes_Tracker
  imports Block_Storage
begin

text \<open>
  The changes tracker (\<^verbatim>\<open>hathor/nanocontracts/storage/changes_tracker.py\<close>): the layer that collects
  what one call changes in a contract. It has the methods of the contract storage; it reads through to
  the storage below it, which is a tracker or the contract storage itself, and writes down to it when it
  is committed.
\<close>

section \<open>Trackers\<close>

datatype authority_state = NONE | GRANTED | REVOKED

record authority_diff =
  ad_mint :: authority_state
  ad_melt :: authority_state

abbreviation no_authority_diff :: authority_diff where
  "no_authority_diff \<equiv> \<lparr>ad_mint = NONE, ad_melt = NONE\<rparr>"

abbreviation "ad_grant_mint d \<equiv> ad_mint d = GRANTED"
abbreviation "ad_grant_melt d \<equiv> ad_melt d = GRANTED"
abbreviation "ad_revoke_mint d \<equiv> ad_mint d = REVOKED"
abbreviation "ad_revoke_melt d \<equiv> ad_melt d = REVOKED"

text \<open>The object stored in \<open>data\<close> is \<open>None\<close> for \<open>DeletedKey\<close>.\<close>

record tracker =
  ct_nc_id :: bytes
  ct_data :: "(trie_key, nc_value option \<times> nc_type option) dict"
  ct_balance_diff :: "(trie_key, int) dict"
  ct_authorities_diff :: "(trie_key, authority_diff) dict"
  ct_created_tokens :: "(bytes, token_description) dict"
  ct_blueprint_id :: "bytes option"
  ct_commited :: bool
  ct_blocked :: bool

definition new_tracker :: "bytes \<Rightarrow> tracker" where
  "new_tracker nc_id =
     \<lparr>ct_nc_id = nc_id, ct_data = [], ct_balance_diff = [], ct_authorities_diff = [],
      ct_created_tokens = [], ct_blueprint_id = None, ct_commited = False, ct_blocked = False\<rparr>"

text \<open>The key and the token of a trie key.\<close>

fun attr_key_key :: "trie_key \<Rightarrow> bytes" where
  "attr_key_key (AttrKey nc_id key) = key"
| "attr_key_key _ = []"

fun balance_key_token :: "trie_key \<Rightarrow> bytes" where
  "balance_key_token (BalanceKey nc_id token_uid) = token_uid"
| "balance_key_token _ = []"

definition ct_check_if_locked :: "(tracker, unit) sm" where
  "ct_check_if_locked t =
     (if ct_commited t then (Inl RuntimeError, t)
      else if ct_blocked t then (Inl RuntimeError, t)
      else (Inr (), t))"

definition ct_block :: "(tracker, unit) sm" where
  "ct_block = sthen ct_check_if_locked (smod (\<lambda>t. t\<lparr>ct_blocked := True\<rparr>))"

definition ct_put_obj :: "runtime \<Rightarrow> bytes \<Rightarrow> nc_type \<Rightarrow> nc_value \<Rightarrow> (tracker, unit) sm" where
  "ct_put_obj rt key nc_type obj =
     sthen ct_check_if_locked
       (sthen (raise_check (check_value (set_order rt) nc_type obj))
          (smod (\<lambda>t. t\<lparr>ct_data := dict_put (AttrKey (ct_nc_id t) key) (Some obj, Some nc_type) (ct_data t)\<rparr>)))"

definition ct_del_obj :: "bytes \<Rightarrow> (tracker, unit) sm" where
  "ct_del_obj key =
     sthen ct_check_if_locked
       (smod (\<lambda>t. t\<lparr>ct_data := dict_put (AttrKey (ct_nc_id t) key) (None, None) (ct_data t)\<rparr>))"

definition balance_diff_of :: "tracker \<Rightarrow> bytes \<Rightarrow> int" where
  "balance_diff_of t token_uid =
     (case dict_get (ct_balance_diff t) (BalanceKey (ct_nc_id t) token_uid) of None \<Rightarrow> 0 | Some d \<Rightarrow> d)"

definition authority_diff_of :: "tracker \<Rightarrow> bytes \<Rightarrow> authority_diff" where
  "authority_diff_of t token_uid =
     (case dict_get (ct_authorities_diff t) (BalanceKey (ct_nc_id t) token_uid) of
        None \<Rightarrow> no_authority_diff | Some d \<Rightarrow> d)"

definition ct_add_balance :: "bytes \<Rightarrow> int \<Rightarrow> (tracker, unit) sm" where
  "ct_add_balance token_uid amount =
     sthen ct_check_if_locked
       (smod (\<lambda>t. t\<lparr>ct_balance_diff :=
          dict_put (BalanceKey (ct_nc_id t) token_uid) (balance_diff_of t token_uid + amount) (ct_balance_diff t)\<rparr>))"

definition ct_set_authority_diff :: "bytes \<Rightarrow> authority_state \<Rightarrow> bool \<Rightarrow> bool \<Rightarrow> tracker \<Rightarrow> tracker" where
  "ct_set_authority_diff token_uid state mint melt t =
     (let d = authority_diff_of t token_uid
      in t\<lparr>ct_authorities_diff := dict_put (BalanceKey (ct_nc_id t) token_uid)
             \<lparr>ad_mint = (if mint then state else ad_mint d), ad_melt = (if melt then state else ad_melt d)\<rparr>
             (ct_authorities_diff t)\<rparr>)"

definition ct_grant_authorities :: "bytes \<Rightarrow> bool \<Rightarrow> bool \<Rightarrow> (tracker, unit) sm" where
  "ct_grant_authorities token_uid grant_mint grant_melt =
     sthen (sassert (token_uid \<noteq> HATHOR_TOKEN_UID))
       (sthen ct_check_if_locked (smod (ct_set_authority_diff token_uid GRANTED grant_mint grant_melt)))"

definition ct_revoke_authorities :: "bytes \<Rightarrow> bool \<Rightarrow> bool \<Rightarrow> (tracker, unit) sm" where
  "ct_revoke_authorities token_uid revoke_mint revoke_melt =
     sthen (sassert (token_uid \<noteq> HATHOR_TOKEN_UID))
       (sthen ct_check_if_locked (smod (ct_set_authority_diff token_uid REVOKED revoke_mint revoke_melt)))"

definition ct_set_blueprint_id :: "bytes \<Rightarrow> (tracker, unit) sm" where
  "ct_set_blueprint_id value =
     sthen ct_check_if_locked (smod (\<lambda>t. t\<lparr>ct_blueprint_id := Some value\<rparr>))"

definition ct_is_empty :: "tracker \<Rightarrow> exc + bool" where
  "ct_is_empty t =
     (if ct_balance_diff t \<noteq> [] \<or> ct_authorities_diff t \<noteq> [] \<or> ct_created_tokens t \<noteq> [] \<or>
         (case ct_blueprint_id t of None \<Rightarrow> False | Some b \<Rightarrow> b \<noteq> [])
      then Inl AssertionError else Inr (ct_data t = []))"

section \<open>Storages\<close>

text \<open>
  A storage object of a contract: trackers, the newest first, over the contract storage. The contract
  storage reaches the tokens of the block through its token proxy, so the storage of the block is part
  of the state. Reading:
\<close>

record nc_chain =
  ch_layers :: "tracker list"
  ch_base :: contract_storage
  ch_block :: block_storage

fun ct_get_obj ::
    "runtime \<Rightarrow> bytes \<Rightarrow> nc_type \<Rightarrow> nc_value option \<Rightarrow> tracker list \<Rightarrow> contract_storage \<Rightarrow> exc + nc_value" where
  "ct_get_obj rt key nc_type dflt [] cs = cs_get_obj rt key nc_type dflt cs"
| "ct_get_obj rt key nc_type dflt (t # ts) cs =
     (case (case dict_get (ct_data t) (AttrKey (ct_nc_id t) key) of
              Some (obj, _) \<Rightarrow> Inr obj
            | None \<Rightarrow> (case ct_get_obj rt key nc_type dflt ts cs of Inl e \<Rightarrow> Inl e | Inr v \<Rightarrow> Inr (Some v))) of
        Inl e \<Rightarrow> Inl e
      | Inr None \<Rightarrow> (case dflt of Some d \<Rightarrow> Inr d | None \<Rightarrow> Inl KeyError)
      | Inr (Some v) \<Rightarrow> Inr v)"

fun ct_has_obj :: "runtime \<Rightarrow> bytes \<Rightarrow> tracker list \<Rightarrow> contract_storage \<Rightarrow> exc + bool" where
  "ct_has_obj rt key [] cs = cs_has_obj rt key cs"
| "ct_has_obj rt key (t # ts) cs =
     (case dict_get (ct_data t) (AttrKey (ct_nc_id t) key) of
        Some (obj, _) \<Rightarrow> Inr (obj \<noteq> None)
      | None \<Rightarrow> ct_has_obj rt key ts cs)"

definition apply_diffs :: "tracker \<Rightarrow> bytes \<Rightarrow> balance \<Rightarrow> balance" where
  "apply_diffs t token_uid b =
     (let d = authority_diff_of t token_uid
      in revoke_balance (ad_revoke_mint d) (ad_revoke_melt d)
           (grant_balance (ad_grant_mint d) (ad_grant_melt d)
              (b\<lparr>bal_value := bal_value b + balance_diff_of t token_uid\<rparr>)))"

fun ct_get_balance :: "runtime \<Rightarrow> bytes \<Rightarrow> tracker list \<Rightarrow> contract_storage \<Rightarrow> exc + balance" where
  "ct_get_balance rt token_uid [] cs = cs_get_balance rt token_uid cs"
| "ct_get_balance rt token_uid (t # ts) cs =
     (case ct_get_balance rt token_uid ts cs of
        Inl e \<Rightarrow> Inl e
      | Inr b \<Rightarrow> Inr (apply_diffs t token_uid b))"

fun ct_has_token :: "bytes \<Rightarrow> tracker list \<Rightarrow> block_storage \<Rightarrow> exc + bool" where
  "ct_has_token token_id [] bs = bs_has_token token_id bs"
| "ct_has_token token_id (t # ts) bs =
     (if dict_has (ct_created_tokens t) token_id then Inr True else ct_has_token token_id ts bs)"

fun ct_get_token :: "runtime \<Rightarrow> bytes \<Rightarrow> tracker list \<Rightarrow> block_storage \<Rightarrow> exc + token_description" where
  "ct_get_token rt token_id [] bs = bs_get_token_description rt token_id bs"
| "ct_get_token rt token_id (t # ts) bs =
     (case dict_get (ct_created_tokens t) token_id of
        Some td \<Rightarrow> Inr td
      | None \<Rightarrow> ct_get_token rt token_id ts bs)"

fun ct_get_blueprint_id :: "runtime \<Rightarrow> tracker list \<Rightarrow> contract_storage \<Rightarrow> exc + bytes" where
  "ct_get_blueprint_id rt [] cs = cs_get_blueprint_id rt cs"
| "ct_get_blueprint_id rt (t # ts) cs =
     (case ct_blueprint_id t of Some b \<Rightarrow> Inr b | None \<Rightarrow> ct_get_blueprint_id rt ts cs)"

text \<open>
  \<open>get_all_balances\<close> builds its result from a set of keys; the order of the items of the result is not
  that of the code.
\<close>

fun ct_get_all_balances ::
    "runtime \<Rightarrow> tracker list \<Rightarrow> contract_storage \<Rightarrow> exc + (trie_key, balance) dict" where
  "ct_get_all_balances rt [] cs = cs_get_all_balances rt cs"
| "ct_get_all_balances rt (t # ts) cs =
     (case ct_get_all_balances rt ts cs of
        Inl e \<Rightarrow> Inl e
      | Inr stored \<Rightarrow>
          collect (\<lambda>key. case ct_get_balance rt (balance_key_token key) (t # ts) cs of
                      Inl e \<Rightarrow> Inl e | Inr b \<Rightarrow> Inr [(key, b)])
            (remdups (map fst stored @ map fst (ct_balance_diff t) @ map fst (ct_authorities_diff t))))"

primrec check_positive ::
    "runtime \<Rightarrow> trie_key list \<Rightarrow> tracker list \<Rightarrow> contract_storage \<Rightarrow> exc + unit" where
  "check_positive rt [] ts cs = Inr ()"
| "check_positive rt (key # keys) ts cs =
     (case ct_get_balance rt (balance_key_token key) ts cs of
        Inl e \<Rightarrow> Inl e
      | Inr b \<Rightarrow> if bal_value b < 0 then Inl NCInsufficientFunds else check_positive rt keys ts cs)"

definition validate_balances_are_positive ::
    "runtime \<Rightarrow> tracker \<Rightarrow> tracker list \<Rightarrow> contract_storage \<Rightarrow> exc + unit" where
  "validate_balances_are_positive rt t ts cs = check_positive rt (map fst (ct_balance_diff t)) (t # ts) cs"

subsection \<open>Writing\<close>

text \<open>A method that both classes implement: the newest object decides.\<close>

definition ch_on_top ::
    "(tracker, unit) sm \<Rightarrow> (contract_storage, unit) sm \<Rightarrow> (nc_chain, unit) sm" where
  "ch_on_top f g ch =
     (case ch_layers ch of
        [] \<Rightarrow> (case g (ch_base ch) of (r, cs) \<Rightarrow> (r, ch\<lparr>ch_base := cs\<rparr>))
      | t # ts \<Rightarrow> (case f t of (r, t') \<Rightarrow> (r, ch\<lparr>ch_layers := t' # ts\<rparr>)))"

definition ch_create_token :: "runtime \<Rightarrow> token_description \<Rightarrow> (nc_chain, unit) sm" where
  "ch_create_token rt td ch =
     (case ch_layers ch of
        [] \<Rightarrow> (case bs_create_token rt td (ch_block ch) of (r, bs) \<Rightarrow> (r, ch\<lparr>ch_block := bs\<rparr>))
      | t # ts \<Rightarrow>
          (case ct_has_token (td_token_id td) (t # ts) (ch_block ch) of
             Inl e \<Rightarrow> (Inl e, ch)
           | Inr True \<Rightarrow> (Inl NCTokenAlreadyExists, ch)
           | Inr False \<Rightarrow>
               (Inr (), ch\<lparr>ch_layers :=
                  t\<lparr>ct_created_tokens := dict_put (td_token_id td) td (ct_created_tokens t)\<rparr> # ts\<rparr>)))"

text \<open>The methods of a storage that the commit of a tracker above it calls.\<close>

record 's storage_methods =
  m_put_obj :: "bytes \<Rightarrow> nc_type \<Rightarrow> nc_value \<Rightarrow> ('s, unit) sm"
  m_del_obj :: "bytes \<Rightarrow> ('s, unit) sm"
  m_add_balance :: "bytes \<Rightarrow> int \<Rightarrow> ('s, unit) sm"
  m_grant_authorities :: "bytes \<Rightarrow> bool \<Rightarrow> bool \<Rightarrow> ('s, unit) sm"
  m_revoke_authorities :: "bytes \<Rightarrow> bool \<Rightarrow> bool \<Rightarrow> ('s, unit) sm"
  m_create_token :: "token_description \<Rightarrow> ('s, unit) sm"
  m_set_blueprint_id :: "bytes \<Rightarrow> ('s, unit) sm"

definition chain_methods :: "runtime \<Rightarrow> nc_chain storage_methods" where
  "chain_methods rt =
     \<lparr>m_put_obj = (\<lambda>key t v. ch_on_top (ct_put_obj rt key t v) (cs_put_obj rt key t v)),
      m_del_obj = (\<lambda>key. ch_on_top (ct_del_obj key) (cs_del_obj rt key)),
      m_add_balance = (\<lambda>tok n. ch_on_top (ct_add_balance tok n) (cs_add_balance rt tok n)),
      m_grant_authorities = (\<lambda>tok a b. ch_on_top (ct_grant_authorities tok a b) (cs_grant_authorities rt tok a b)),
      m_revoke_authorities = (\<lambda>tok a b. ch_on_top (ct_revoke_authorities tok a b) (cs_revoke_authorities rt tok a b)),
      m_create_token = ch_create_token rt,
      m_set_blueprint_id = (\<lambda>b. ch_on_top (ct_set_blueprint_id b) (cs_set_blueprint_id rt b))\<rparr>"

text \<open>The body of \<open>commit\<close>: what the tracker \<open>t\<close> holds goes to the storage below.\<close>

definition flush_data :: "'s storage_methods \<Rightarrow> trie_key \<times> nc_value option \<times> nc_type option \<Rightarrow> ('s, unit) sm" where
  "flush_data m item =
     (case item of
        (key, Some obj, nc_type) \<Rightarrow>
          (case nc_type of
             None \<Rightarrow> sraise AssertionError
           | Some t \<Rightarrow> m_put_obj m (attr_key_key key) t obj)
      | (key, None, _) \<Rightarrow> m_del_obj m (attr_key_key key))"

definition flush_authorities :: "'s storage_methods \<Rightarrow> trie_key \<times> authority_diff \<Rightarrow> ('s, unit) sm" where
  "flush_authorities m item =
     (case item of
        (key, d) \<Rightarrow>
          sthen (m_grant_authorities m (balance_key_token key) (ad_grant_mint d) (ad_grant_melt d))
            (m_revoke_authorities m (balance_key_token key) (ad_revoke_mint d) (ad_revoke_melt d)))"

definition flush_tracker :: "'s storage_methods \<Rightarrow> tracker \<Rightarrow> ('s, unit) sm" where
  "flush_tracker m t =
     sthen (sfor (ct_data t) (flush_data m))
     (sthen (sfor (ct_balance_diff t) (\<lambda>(key, amount). m_add_balance m (balance_key_token key) amount))
     (sthen (sfor (ct_authorities_diff t) (flush_authorities m))
     (sthen (sfor (ct_created_tokens t) (\<lambda>(_, td). m_create_token m td))
       (case ct_blueprint_id t of None \<Rightarrow> sret () | Some b \<Rightarrow> m_set_blueprint_id m b))))"

text \<open>\<open>commit\<close> of the newest object of the chain.\<close>

definition ch_commit :: "runtime \<Rightarrow> (nc_chain, unit) sm" where
  "ch_commit rt ch =
     (case ch_layers ch of
        [] \<Rightarrow> (case cs_commit rt (ch_base ch) (ch_block ch) of (r, bs) \<Rightarrow> (r, ch\<lparr>ch_block := bs\<rparr>))
      | t # ts \<Rightarrow>
          (case fst (ct_check_if_locked t) of
             Inl e \<Rightarrow> (Inl e, ch)
           | Inr _ \<Rightarrow>
               (case flush_tracker (chain_methods rt) t (ch\<lparr>ch_layers := ts\<rparr>) of
                  (Inl e, ch') \<Rightarrow> (Inl e, ch'\<lparr>ch_layers := t # ch_layers ch'\<rparr>)
                | (Inr _, ch') \<Rightarrow> (Inr (), ch'\<lparr>ch_layers := t\<lparr>ct_commited := True\<rparr> # ch_layers ch'\<rparr>))))"

end
