(* ===== verification/Tracker_Commit.thy ===== *)
theory Tracker_Commit
  imports Changes_Tracker
begin

text \<open>
  What the commit of a changes tracker does to the storage below it. The interface \<open>contract_state\<close> is
  what a tracker relies on: the methods of the storage below and what a client can observe of it. The
  commit is analysed once against the interface; the storages of the model, the contract storage and the
  trackers over it, implement it.
\<close>

section \<open>The interface\<close>

text \<open>The value a reader gets for an object or \<open>DeletedKey\<close>.\<close>

definition or_default :: "nc_value option \<Rightarrow> nc_value option \<Rightarrow> exc + nc_value" where
  "or_default obj dflt =
     (case obj of Some v \<Rightarrow> Inr v | None \<Rightarrow> (case dflt of None \<Rightarrow> Inl KeyError | Some d \<Rightarrow> Inr d))"

text \<open>The tables of a tracker: keys of the right kind, each once.\<close>

definition tracker_wf :: "tracker \<Rightarrow> bool" where
  "tracker_wf t \<longleftrightarrow>
     list_all (\<lambda>i. fst i = AttrKey (ct_nc_id t) (attr_key_key (fst i)) \<and> (snd (snd i) = None \<longrightarrow> fst (snd i) = None))
       (ct_data t) \<and>
     list_all (\<lambda>i. fst i = BalanceKey (ct_nc_id t) (balance_key_token (fst i))) (ct_balance_diff t) \<and>
     list_all (\<lambda>i. fst i = BalanceKey (ct_nc_id t) (balance_key_token (fst i)) \<and>
                   balance_key_token (fst i) \<noteq> HATHOR_TOKEN_UID) (ct_authorities_diff t) \<and>
     list_all (\<lambda>i. td_token_id (snd i) = fst i) (ct_created_tokens t) \<and>
     distinct (map fst (ct_data t)) \<and> distinct (map fst (ct_balance_diff t)) \<and>
     distinct (map fst (ct_authorities_diff t)) \<and> distinct (map fst (ct_created_tokens t))"

text \<open>The keys of the attributes a tracker has written, and the values that it holds.\<close>

definition written_keys :: "tracker \<Rightarrow> bytes set" where
  "written_keys t = (\<lambda>i. attr_key_key (fst i)) ` set (ct_data t)"

definition written_ok :: "(nc_type \<Rightarrow> nc_value \<Rightarrow> bool) \<Rightarrow> tracker \<Rightarrow> bool" where
  "written_ok val_ok t \<longleftrightarrow>
     list_all (\<lambda>(_, obj, ty). case (obj, ty) of (Some v, Some nt) \<Rightarrow> val_ok nt v | _ \<Rightarrow> True) (ct_data t)"

lemma dict_get_mem: "distinct (map fst d) \<Longrightarrow> dict_get d k = Some v \<longleftrightarrow> (k, v) \<in> set d"
  by (auto dest: map_of_SomeD)

lemma dict_get_None: "dict_get d k = None \<longleftrightarrow> k \<notin> fst ` set d"
  by (simp add: map_of_eq_None_iff)

lemma distinct_balance_tokens:
  assumes "list_all (\<lambda>i. fst i = BalanceKey nc_id (balance_key_token (fst i))) items" and "distinct (map fst items)"
  shows "distinct (map (\<lambda>i. balance_key_token (fst i)) items)"
proof -
  have "distinct (map (BalanceKey nc_id) (map (\<lambda>i. balance_key_token (fst i)) items))"
    using assms by (simp add: list_all_iff comp_def cong: map_cong)
  then show ?thesis by (simp only: distinct_map)
qed

lemma tracker_wf_data:
  assumes "tracker_wf t"
  shows "distinct (map fst (ct_data t))"
    and "i \<in> set (ct_data t) \<Longrightarrow> fst i = AttrKey (ct_nc_id t) (attr_key_key (fst i))"
  using assms by (auto simp: tracker_wf_def list_all_iff)

lemma written_slots_distinct:
  assumes wf: "tracker_wf t" and inj: "inj_on slot (written_keys t)"
  shows "distinct (map (\<lambda>i. slot (attr_key_key (fst i))) (ct_data t))"
proof -
  have "inj_on (\<lambda>i. attr_key_key (fst i)) (set (ct_data t))"
  proof (rule inj_onI)
    fix i j
    assume ij: "i \<in> set (ct_data t)" "j \<in> set (ct_data t)" "attr_key_key (fst i) = attr_key_key (fst j)"
    then have "fst i = fst j" using tracker_wf_data(2) [OF wf] by metis
    then show "i = j" using tracker_wf_data(1) [OF wf] ij(1,2) by (auto simp: distinct_map dest: inj_onD)
  qed
  then have "inj_on (slot \<circ> (\<lambda>i. attr_key_key (fst i))) (set (ct_data t))"
    using inj unfolding written_keys_def by (rule comp_inj_on)
  then show ?thesis using tracker_wf_data(1) [OF wf] by (simp add: distinct_map comp_def)
qed

lemma tracker_wf_tokens:
  assumes "tracker_wf t"
  shows "distinct (map (\<lambda>i. balance_key_token (fst i)) (ct_balance_diff t))"
    and "distinct (map (\<lambda>i. balance_key_token (fst i)) (ct_authorities_diff t))"
    and "dict_get (ct_balance_diff t) (BalanceKey (ct_nc_id t) tok) = None \<Longrightarrow>
           tok \<notin> (\<lambda>i. balance_key_token (fst i)) ` set (ct_balance_diff t)"
    and "dict_get (ct_authorities_diff t) (BalanceKey (ct_nc_id t) tok) = None \<Longrightarrow>
           tok \<notin> (\<lambda>i. balance_key_token (fst i)) ` set (ct_authorities_diff t)"
proof -
  show "distinct (map (\<lambda>i. balance_key_token (fst i)) (ct_balance_diff t))"
      "distinct (map (\<lambda>i. balance_key_token (fst i)) (ct_authorities_diff t))"
    using assms by (auto intro!: distinct_balance_tokens [of "ct_nc_id t"] simp: tracker_wf_def list_all_iff)
  show "tok \<notin> (\<lambda>i. balance_key_token (fst i)) ` set (ct_balance_diff t)"
    if "dict_get (ct_balance_diff t) (BalanceKey (ct_nc_id t) tok) = None"
    using assms that by (force simp: dict_get_None tracker_wf_def list_all_iff)
  show "tok \<notin> (\<lambda>i. balance_key_token (fst i)) ` set (ct_authorities_diff t)"
    if "dict_get (ct_authorities_diff t) (BalanceKey (ct_nc_id t) tok) = None"
    using assms that by (force simp: dict_get_None tracker_wf_def list_all_iff)
qed

locale contract_state =
  fixes m :: "'s storage_methods"
    and get :: "'s \<Rightarrow> bytes \<Rightarrow> nc_type \<Rightarrow> nc_value option \<Rightarrow> exc + nc_value"
    and has :: "'s \<Rightarrow> bytes \<Rightarrow> exc + bool"
    and bals :: "'s \<Rightarrow> bytes \<Rightarrow> balance"
    and toks :: "'s \<Rightarrow> bytes \<Rightarrow> token_description option"
    and bpid :: "'s \<Rightarrow> exc + bytes"
    and inv :: "'s \<Rightarrow> bool"
    and slot :: "bytes \<Rightarrow> bytes"
    and val_ok :: "nc_type \<Rightarrow> nc_value \<Rightarrow> bool"
  assumes put: "inv s \<Longrightarrow> val_ok t v \<Longrightarrow> m_put_obj m k t v s = (Inr u, s') \<Longrightarrow>
      inv s' \<and> bals s' = bals s \<and> toks s' = toks s \<and> bpid s' = bpid s \<and>
      has s' k = Inr True \<and> get s' k t d = Inr v \<and>
      (slot k' \<noteq> slot k \<longrightarrow> has s' k' = has s k' \<and> get s' k' t' d = get s k' t' d)"
    and del: "inv s \<Longrightarrow> m_del_obj m k s = (Inr u, s') \<Longrightarrow>
      inv s' \<and> bals s' = bals s \<and> toks s' = toks s \<and> bpid s' = bpid s \<and>
      has s' k = Inr False \<and> get s' k t d = or_default None d \<and>
      (slot k' \<noteq> slot k \<longrightarrow> has s' k' = has s k' \<and> get s' k' t' d = get s k' t' d)"
    and add: "inv s \<Longrightarrow> m_add_balance m tok n s = (Inr u, s') \<Longrightarrow>
      inv s' \<and> get s' = get s \<and> has s' = has s \<and> toks s' = toks s \<and> bpid s' = bpid s \<and>
      bals s' = (bals s)(tok := (bals s tok)\<lparr>bal_value := bal_value (bals s tok) + n\<rparr>)"
    and grant: "inv s \<Longrightarrow> m_grant_authorities m tok a b s = (Inr u, s') \<Longrightarrow>
      inv s' \<and> get s' = get s \<and> has s' = has s \<and> toks s' = toks s \<and> bpid s' = bpid s \<and>
      bals s' = (bals s)(tok := grant_balance a b (bals s tok))"
    and revoke: "inv s \<Longrightarrow> m_revoke_authorities m tok a b s = (Inr u, s') \<Longrightarrow>
      inv s' \<and> get s' = get s \<and> has s' = has s \<and> toks s' = toks s \<and> bpid s' = bpid s \<and>
      bals s' = (bals s)(tok := revoke_balance a b (bals s tok))"
    and create: "inv s \<Longrightarrow> m_create_token m td s = (Inr u, s') \<Longrightarrow>
      inv s' \<and> get s' = get s \<and> has s' = has s \<and> bals s' = bals s \<and> bpid s' = bpid s \<and>
      toks s' = (toks s)(td_token_id td := Some td)"
    and set_bp: "inv s \<Longrightarrow> m_set_blueprint_id m bp s = (Inr u, s') \<Longrightarrow>
      inv s' \<and> get s' = get s \<and> has s' = has s \<and> bals s' = bals s \<and> toks s' = toks s \<and> bpid s' = Inr bp"
begin

text \<open>An item of \<open>data\<close> that can be flushed.\<close>

lemma flush_data_step:
  assumes "inv s" and "flush_data m (key, obj, ty) s = (Inr u, s')"
    and "\<And>v t. obj = Some v \<Longrightarrow> ty = Some t \<Longrightarrow> val_ok t v"
  shows "inv s'" and "bals s' = bals s" "toks s' = toks s" "bpid s' = bpid s"
    and "has s' (attr_key_key key) = Inr (obj \<noteq> None)"
    and "obj = None \<or> ty = Some t \<Longrightarrow> get s' (attr_key_key key) t d = or_default obj d"
    and "slot k \<noteq> slot (attr_key_key key) \<Longrightarrow> has s' k = has s k \<and> get s' k t d = get s k t d"
proof -
  have "inv s' \<and> bals s' = bals s \<and> toks s' = toks s \<and> bpid s' = bpid s \<and>
      has s' (attr_key_key key) = Inr (obj \<noteq> None) \<and>
      (obj = None \<or> ty = Some t \<longrightarrow> get s' (attr_key_key key) t d = or_default obj d) \<and>
      (slot k \<noteq> slot (attr_key_key key) \<longrightarrow> has s' k = has s k \<and> get s' k t d = get s k t d)" for k t d
  proof (cases obj)
    case None
    then have "m_del_obj m (attr_key_key key) s = (Inr u, s')" using assms(2) by (simp add: flush_data_def)
    from del [OF assms(1) this, of t d k t] None show ?thesis by simp
  next
    case (Some v)
    then obtain t0 where ty: "ty = Some t0" and "m_put_obj m (attr_key_key key) t0 v s = (Inr u, s')"
      using assms(2) by (auto simp: flush_data_def split: option.splits)
    from put [OF assms(1) assms(3) [OF Some ty] this(2), of d k t] Some ty show ?thesis
      by (auto simp: or_default_def)
  qed
  then show "inv s'" "bals s' = bals s" "toks s' = toks s" "bpid s' = bpid s"
    "has s' (attr_key_key key) = Inr (obj \<noteq> None)"
    "obj = None \<or> ty = Some t \<Longrightarrow> get s' (attr_key_key key) t d = or_default obj d"
    "slot k \<noteq> slot (attr_key_key key) \<Longrightarrow> has s' k = has s k \<and> get s' k t d = get s k t d"
    by blast+
qed

lemma flush_data_items:
  assumes "inv s" and "sfor items (flush_data m) s = (Inr u, s')"
    and "distinct (map (\<lambda>i. slot (attr_key_key (fst i))) items)"
    and "\<forall>key v t. (key, Some v, Some t) \<in> set items \<longrightarrow> val_ok t v"
  shows "inv s' \<and> bals s' = bals s \<and> toks s' = toks s \<and> bpid s' = bpid s \<and>
    (\<forall>key obj ty. (key, obj, ty) \<in> set items \<longrightarrow>
       has s' (attr_key_key key) = Inr (obj \<noteq> None) \<and>
       (\<forall>t d. obj = None \<or> ty = Some t \<longrightarrow> get s' (attr_key_key key) t d = or_default obj d)) \<and>
    (\<forall>k t d. slot k \<notin> (\<lambda>i. slot (attr_key_key (fst i))) ` set items \<longrightarrow>
       has s' k = has s k \<and> get s' k t d = get s k t d)"
  using assms
proof (induction items arbitrary: s)
  case Nil
  then show ?case by simp
next
  case (Cons item items)
  obtain key obj ty where item: "item = (key, obj, ty)" by (cases item)
  obtain s1 where s1: "flush_data m (key, obj, ty) s = (Inr (), s1)" "sfor items (flush_data m) s1 = (Inr u, s')"
    using Cons.prems(2) by (auto simp: item sthen_Inr)
  have val: "\<And>v t. obj = Some v \<Longrightarrow> ty = Some t \<Longrightarrow> val_ok t v"
    using Cons.prems(4) by (auto simp: item)
  note step = flush_data_step [OF Cons.prems(1) s1(1) val]
  have new: "slot (attr_key_key key) \<notin> (\<lambda>i. slot (attr_key_key (fst i))) ` set items"
    using Cons.prems(3) by (simp add: item)
  have IH: "inv s' \<and> bals s' = bals s1 \<and> toks s' = toks s1 \<and> bpid s' = bpid s1 \<and>
    (\<forall>key obj ty. (key, obj, ty) \<in> set items \<longrightarrow>
       has s' (attr_key_key key) = Inr (obj \<noteq> None) \<and>
       (\<forall>t d. obj = None \<or> ty = Some t \<longrightarrow> get s' (attr_key_key key) t d = or_default obj d)) \<and>
    (\<forall>k t d. slot k \<notin> (\<lambda>i. slot (attr_key_key (fst i))) ` set items \<longrightarrow>
       has s' k = has s1 k \<and> get s' k t d = get s1 k t d)"
    by (rule Cons.IH [OF step(1) s1(2)]) (use Cons.prems(3,4) in \<open>auto simp: item\<close>)
  have kept: "has s' (attr_key_key key) = has s1 (attr_key_key key)"
      "get s' (attr_key_key key) t d = get s1 (attr_key_key key) t d" for t d
    using IH new by blast+
  show ?case
  proof (intro conjI allI impI)
    fix key' obj' ty'
    assume mem: "(key', obj', ty') \<in> set (item # items)"
    show "has s' (attr_key_key key') = Inr (obj' \<noteq> None)"
      using mem IH kept(1) step(5) by (auto simp: item)
    show "get s' (attr_key_key key') t d = or_default obj' d" if "obj' = None \<or> ty' = Some t" for t d
      using mem IH kept(2) step(6) that unfolding item by auto
  qed (use IH step(1-4,7) in \<open>auto simp: item\<close>)
qed

lemma flush_balances:
  assumes "inv s"
    and "sfor items (\<lambda>(key, n). m_add_balance m (balance_key_token key) n) s = (Inr u, s')"
    and "distinct (map (\<lambda>i. balance_key_token (fst i)) items)"
  shows "inv s' \<and> get s' = get s \<and> has s' = has s \<and> toks s' = toks s \<and> bpid s' = bpid s \<and>
    (\<forall>key n. (key, n) \<in> set items \<longrightarrow> bals s' (balance_key_token key) =
       (bals s (balance_key_token key))\<lparr>bal_value := bal_value (bals s (balance_key_token key)) + n\<rparr>) \<and>
    (\<forall>tok. tok \<notin> (\<lambda>i. balance_key_token (fst i)) ` set items \<longrightarrow> bals s' tok = bals s tok)"
  using assms
proof (induction items arbitrary: s)
  case (Cons item items)
  obtain key n where item: "item = (key, n)" by (cases item)
  obtain s1 where s1: "m_add_balance m (balance_key_token key) n s = (Inr (), s1)"
      "sfor items (\<lambda>(key, n). m_add_balance m (balance_key_token key) n) s1 = (Inr u, s')"
    using Cons.prems(2) by (auto simp: item sthen_Inr)
  note step = add [OF Cons.prems(1) s1(1)]
  have new: "balance_key_token key \<notin> (\<lambda>i. balance_key_token (fst i)) ` set items"
    using Cons.prems(3) by (simp add: item)
  have IH: "inv s' \<and> get s' = get s1 \<and> has s' = has s1 \<and> toks s' = toks s1 \<and> bpid s' = bpid s1 \<and>
    (\<forall>key n. (key, n) \<in> set items \<longrightarrow> bals s' (balance_key_token key) =
       (bals s1 (balance_key_token key))\<lparr>bal_value := bal_value (bals s1 (balance_key_token key)) + n\<rparr>) \<and>
    (\<forall>tok. tok \<notin> (\<lambda>i. balance_key_token (fst i)) ` set items \<longrightarrow> bals s' tok = bals s1 tok)"
    using Cons.IH [OF _ s1(2)] step Cons.prems(3) by (simp add: item)
  have other: "balance_key_token key' \<noteq> balance_key_token key" if "(key', n') \<in> set items" for key' n'
    using new that by force
  show ?case
  proof (intro conjI allI impI)
    fix key' n'
    assume "(key', n') \<in> set (item # items)"
    then consider "key' = key" "n' = n" | "(key', n') \<in> set items" by (auto simp: item)
    then show "bals s' (balance_key_token key') =
       (bals s (balance_key_token key'))\<lparr>bal_value := bal_value (bals s (balance_key_token key')) + n'\<rparr>"
    proof cases
      case 1
      then show ?thesis using IH new step by simp
    next
      case 2
      then show ?thesis using IH other [OF 2] step by simp
    qed
  qed (use IH step in \<open>auto simp: item\<close>)
qed simp

lemma flush_authorities_items:
  assumes "inv s" and "sfor items (flush_authorities m) s = (Inr u, s')"
    and "distinct (map (\<lambda>i. balance_key_token (fst i)) items)"
  shows "inv s' \<and> get s' = get s \<and> has s' = has s \<and> toks s' = toks s \<and> bpid s' = bpid s \<and>
    (\<forall>key d. (key, d) \<in> set items \<longrightarrow> bals s' (balance_key_token key) =
       revoke_balance (ad_revoke_mint d) (ad_revoke_melt d)
         (grant_balance (ad_grant_mint d) (ad_grant_melt d) (bals s (balance_key_token key)))) \<and>
    (\<forall>tok. tok \<notin> (\<lambda>i. balance_key_token (fst i)) ` set items \<longrightarrow> bals s' tok = bals s tok)"
  using assms
proof (induction items arbitrary: s)
  case (Cons item items)
  obtain key d where item: "item = (key, d)" by (cases item)
  let ?tok = "balance_key_token key"
  obtain s1 where rest: "flush_authorities m (key, d) s = (Inr (), s1)" "sfor items (flush_authorities m) s1 = (Inr u, s')"
    using Cons.prems(2) by (auto simp: item sthen_Inr)
  then obtain s0 where s1: "m_grant_authorities m ?tok (ad_grant_mint d) (ad_grant_melt d) s = (Inr (), s0)"
      "m_revoke_authorities m ?tok (ad_revoke_mint d) (ad_revoke_melt d) s0 = (Inr (), s1)"
    by (auto simp: sthen_Inr flush_authorities_def)
  note g = grant [OF Cons.prems(1) s1(1)]
  then have r: "inv s1 \<and> get s1 = get s0 \<and> has s1 = has s0 \<and> toks s1 = toks s0 \<and> bpid s1 = bpid s0 \<and>
      bals s1 = (bals s0)(?tok := revoke_balance (ad_revoke_mint d) (ad_revoke_melt d) (bals s0 ?tok))"
    using revoke [OF _ s1(2)] by blast
  have new: "?tok \<notin> (\<lambda>i. balance_key_token (fst i)) ` set items"
    using Cons.prems(3) by (simp add: item)
  have IH: "inv s' \<and> get s' = get s1 \<and> has s' = has s1 \<and> toks s' = toks s1 \<and> bpid s' = bpid s1 \<and>
    (\<forall>key d. (key, d) \<in> set items \<longrightarrow> bals s' (balance_key_token key) =
       revoke_balance (ad_revoke_mint d) (ad_revoke_melt d)
         (grant_balance (ad_grant_mint d) (ad_grant_melt d) (bals s1 (balance_key_token key)))) \<and>
    (\<forall>tok. tok \<notin> (\<lambda>i. balance_key_token (fst i)) ` set items \<longrightarrow> bals s' tok = bals s1 tok)"
    using Cons.IH [OF _ rest(2)] r Cons.prems(3) by (simp add: item)
  have other: "balance_key_token key' \<noteq> ?tok" if "(key', d') \<in> set items" for key' d'
    using new that by force
  show ?case
  proof (intro conjI allI impI)
    fix key' d'
    assume "(key', d') \<in> set (item # items)"
    then consider "key' = key" "d' = d" | "(key', d') \<in> set items" by (auto simp: item)
    then show "bals s' (balance_key_token key') =
       revoke_balance (ad_revoke_mint d') (ad_revoke_melt d')
         (grant_balance (ad_grant_mint d') (ad_grant_melt d') (bals s (balance_key_token key')))"
    proof cases
      case 1
      then show ?thesis using IH new r g by simp
    next
      case 2
      then show ?thesis using IH other [OF 2] r g by simp
    qed
  qed (use IH r g in \<open>auto simp: item\<close>)
qed simp

lemma flush_tokens:
  assumes "inv s" and "sfor items (\<lambda>(_, td). m_create_token m td) s = (Inr u, s')"
    and "distinct (map fst items)" and "\<And>k td. (k, td) \<in> set items \<Longrightarrow> td_token_id td = k"
  shows "inv s' \<and> get s' = get s \<and> has s' = has s \<and> bals s' = bals s \<and> bpid s' = bpid s \<and>
         toks s' = toks s ++ map_of items"
  using assms
proof (induction items arbitrary: s)
  case (Cons item items)
  obtain k td where item: "item = (k, td)" by (cases item)
  obtain s1 where s1: "m_create_token m td s = (Inr (), s1)" "sfor items (\<lambda>(_, td). m_create_token m td) s1 = (Inr u, s')"
    using Cons.prems(2) by (auto simp: item sthen_Inr)
  note step = create [OF Cons.prems(1) s1(1)]
  have k: "td_token_id td = k" "k \<notin> fst ` set items"
    using Cons.prems(3) Cons.prems(4) [of k td] by (simp_all add: item)
  have "inv s' \<and> get s' = get s1 \<and> has s' = has s1 \<and> bals s' = bals s1 \<and> bpid s' = bpid s1 \<and>
      toks s' = toks s1 ++ map_of items"
  proof (rule Cons.IH [OF _ s1(2)])
    show "inv s1" using step by blast
    show "distinct (map fst items)" using Cons.prems(3) by simp
    show "td_token_id td' = k'" if "(k', td') \<in> set items" for k' td'
      by (rule Cons.prems(4)) (use that in simp)
  qed
  moreover have "(toks s)(k \<mapsto> td) ++ map_of items = toks s ++ (map_of items)(k \<mapsto> td)"
    using k(2) by (simp add: map_add_upd_left dom_map_of_conv_image_fst)
  moreover have "toks s1 = (toks s)(k \<mapsto> td)" using step k(1) by blast
  moreover have "toks s ++ map_of (item # items) = toks s ++ (map_of items)(k \<mapsto> td)"
    by (simp add: item fun_eq_iff map_add_def)
  ultimately show ?case using step by metis
qed simp

lemma flush_tracker_balances:
  assumes "inv s" and wf: "tracker_wf t"
    and "sfor (ct_balance_diff t) (\<lambda>(key, amount). m_add_balance m (balance_key_token key) amount) s = (Inr u, s')"
  shows "inv s' \<and> get s' = get s \<and> has s' = has s \<and> toks s' = toks s \<and> bpid s' = bpid s \<and>
    bals s' tok = (bals s tok)\<lparr>bal_value := bal_value (bals s tok) + balance_diff_of t tok\<rparr>"
proof -
  note b = flush_balances [OF assms(1,3) tracker_wf_tokens(1) [OF wf]]
  let ?key = "BalanceKey (ct_nc_id t) tok"
  have "bals s' tok = (bals s tok)\<lparr>bal_value := bal_value (bals s tok) + balance_diff_of t tok\<rparr>"
  proof (cases "dict_get (ct_balance_diff t) ?key")
    case None
    then show ?thesis using b tracker_wf_tokens(3) [OF wf None] by (simp add: balance_diff_of_def)
  next
    case (Some n)
    then have "(?key, n) \<in> set (ct_balance_diff t)" by (rule map_of_SomeD)
    then have "bals s' (balance_key_token ?key) =
        (bals s (balance_key_token ?key))\<lparr>bal_value := bal_value (bals s (balance_key_token ?key)) + n\<rparr>"
      using b by blast
    then show ?thesis using Some by (simp add: balance_diff_of_def)
  qed
  with b show ?thesis by blast
qed

lemma flush_tracker_authorities:
  assumes "inv s" and wf: "tracker_wf t"
    and "sfor (ct_authorities_diff t) (flush_authorities m) s = (Inr u, s')"
  shows "inv s' \<and> get s' = get s \<and> has s' = has s \<and> toks s' = toks s \<and> bpid s' = bpid s \<and>
    bals s' tok =
      revoke_balance (ad_revoke_mint (authority_diff_of t tok)) (ad_revoke_melt (authority_diff_of t tok))
        (grant_balance (ad_grant_mint (authority_diff_of t tok)) (ad_grant_melt (authority_diff_of t tok)) (bals s tok))"
proof -
  note a = flush_authorities_items [OF assms(1,3) tracker_wf_tokens(2) [OF wf]]
  let ?key = "BalanceKey (ct_nc_id t) tok" and ?d = "authority_diff_of t tok"
  have "bals s' tok = revoke_balance (ad_revoke_mint ?d) (ad_revoke_melt ?d)
      (grant_balance (ad_grant_mint ?d) (ad_grant_melt ?d) (bals s tok))"
  proof (cases "dict_get (ct_authorities_diff t) ?key")
    case None
    then show ?thesis
      using a tracker_wf_tokens(4) [OF wf None]
      by (simp add: authority_diff_of_def grant_balance_def revoke_balance_def)
  next
    case (Some n)
    then have "(?key, n) \<in> set (ct_authorities_diff t)" by (rule map_of_SomeD)
    then have "bals s' (balance_key_token ?key) =
        revoke_balance (ad_revoke_mint n) (ad_revoke_melt n)
          (grant_balance (ad_grant_mint n) (ad_grant_melt n) (bals s (balance_key_token ?key)))"
      using a by blast
    then show ?thesis using Some by (simp add: authority_diff_of_def)
  qed
  with a show ?thesis by blast
qed

text \<open>After the commit, the storage below shows what the tracker showed over it.\<close>

lemma flush_tracker_overlay:
  assumes inv: "inv s" and flush: "flush_tracker m t s = (Inr u, s')" and wf: "tracker_wf t"
    and inj: "inj_on slot (written_keys t)" and vals: "written_ok val_ok t"
  shows "inv s'"
    and "bals s' tok = apply_diffs t tok (bals s tok)"
    and "toks s' = toks s ++ map_of (ct_created_tokens t)"
    and "bpid s' = (case ct_blueprint_id t of Some b \<Rightarrow> Inr b | None \<Rightarrow> bpid s)"
    and "dict_get (ct_data t) (AttrKey (ct_nc_id t) k) = Some (obj, ty) \<Longrightarrow>
           has s' k = Inr (obj \<noteq> None) \<and> (obj = None \<or> ty = Some nt \<longrightarrow> get s' k nt d = or_default obj d)"
    and "slot k \<notin> slot ` written_keys t \<Longrightarrow> has s' k = has s k \<and> get s' k nt d = get s k nt d"
proof -
  obtain s1 s2 s3 s4 where
      1: "sfor (ct_data t) (flush_data m) s = (Inr (), s1)" and
      2: "sfor (ct_balance_diff t) (\<lambda>(key, amount). m_add_balance m (balance_key_token key) amount) s1 = (Inr (), s2)" and
      3: "sfor (ct_authorities_diff t) (flush_authorities m) s2 = (Inr (), s3)" and
      4: "sfor (ct_created_tokens t) (\<lambda>(_, td). m_create_token m td) s3 = (Inr (), s4)" and
      5: "(case ct_blueprint_id t of None \<Rightarrow> sret () | Some b \<Rightarrow> m_set_blueprint_id m b) s4 = (Inr u, s')"
    using flush unfolding flush_tracker_def sthen_Inr by auto
  have val: "\<forall>key v nt. (key, Some v, Some nt) \<in> set (ct_data t) \<longrightarrow> val_ok nt v"
    using vals by (force simp: written_ok_def list_all_iff)
  note data = flush_data_items [OF inv 1 written_slots_distinct [OF wf inj] val]
  then have inv1: "inv s1" by blast
  note b = flush_tracker_balances [OF inv1 wf 2]
  then have inv2: "inv s2" by blast
  note a = flush_tracker_authorities [OF inv2 wf 3]
  then have inv3: "inv s3" by blast
  have c: "inv s4 \<and> get s4 = get s3 \<and> has s4 = has s3 \<and> bals s4 = bals s3 \<and> bpid s4 = bpid s3 \<and>
      toks s4 = toks s3 ++ map_of (ct_created_tokens t)"
    by (rule flush_tokens [OF inv3 4]) (use wf in \<open>auto simp: tracker_wf_def list_all_iff\<close>)
  have e: "inv s' \<and> get s' = get s4 \<and> has s' = has s4 \<and> bals s' = bals s4 \<and> toks s' = toks s4 \<and>
      bpid s' = (case ct_blueprint_id t of Some b \<Rightarrow> Inr b | None \<Rightarrow> bpid s4)"
    using 5 c set_bp [of s4] by (auto split: option.splits)
  have gh: "get s' = get s1" "has s' = has s1" using b a c e by simp_all
  have s1: "bals s1 = bals s" "toks s1 = toks s" "bpid s1 = bpid s" using data by blast+
  have s4: "toks s4 = toks s ++ map_of (ct_created_tokens t)" "bpid s4 = bpid s"
      "bals s4 tok = apply_diffs t tok (bals s tok)"
    using b [of tok] a [of tok] c s1 by (simp_all add: apply_diffs_def Let_def)
  show "inv s'" using e by blast
  show "toks s' = toks s ++ map_of (ct_created_tokens t)" using e s4(1) by metis
  show "bpid s' = (case ct_blueprint_id t of Some b \<Rightarrow> Inr b | None \<Rightarrow> bpid s)" using e s4(2) by metis
  show "bals s' tok = apply_diffs t tok (bals s tok)" using e s4(3) by metis
  show "has s' k = has s k \<and> get s' k nt d = get s k nt d" if "slot k \<notin> slot ` written_keys t"
    using data that unfolding gh written_keys_def image_image by blast
  show "has s' k = Inr (obj \<noteq> None) \<and> (obj = None \<or> ty = Some nt \<longrightarrow> get s' k nt d = or_default obj d)"
    if "dict_get (ct_data t) (AttrKey (ct_nc_id t) k) = Some (obj, ty)"
  proof -
    have "(AttrKey (ct_nc_id t) k, obj, ty) \<in> set (ct_data t)" using that by (rule map_of_SomeD)
    then have "has s1 (attr_key_key (AttrKey (ct_nc_id t) k)) = Inr (obj \<noteq> None)"
        "\<forall>nt d. obj = None \<or> ty = Some nt \<longrightarrow> get s1 (attr_key_key (AttrKey (ct_nc_id t) k)) nt d = or_default obj d"
      using data by blast+
    then show ?thesis by (simp add: gh)
  qed
qed

end

end
