(* ===== verification/Storage_Chain.thy ===== *)
theory Storage_Chain
  imports Tracker_Commit
begin

text \<open>
  The storages of the model, a contract storage with trackers over it, implement the interface on which
  the commit of a tracker relies; and the properties of the contract storage and of the trackers.
\<close>

section \<open>What a client observes\<close>

definition ch_get :: "runtime \<Rightarrow> nc_chain \<Rightarrow> bytes \<Rightarrow> nc_type \<Rightarrow> nc_value option \<Rightarrow> exc + nc_value" where
  "ch_get rt ch key t dflt = ct_get_obj rt key t dflt (ch_layers ch) (ch_base ch)"

definition ch_has :: "runtime \<Rightarrow> nc_chain \<Rightarrow> bytes \<Rightarrow> exc + bool" where
  "ch_has rt ch key = ct_has_obj rt key (ch_layers ch) (ch_base ch)"

definition ch_balance :: "runtime \<Rightarrow> nc_chain \<Rightarrow> bytes \<Rightarrow> balance" where
  "ch_balance rt ch token_uid = projr (ct_get_balance rt token_uid (ch_layers ch) (ch_base ch))"

definition ch_token :: "runtime \<Rightarrow> nc_chain \<Rightarrow> bytes \<Rightarrow> token_description option" where
  "ch_token rt ch token_id =
     (if ct_has_token token_id (ch_layers ch) (ch_block ch) = Inr True
      then Some (projr (ct_get_token rt token_id (ch_layers ch) (ch_block ch))) else None)"

definition ch_blueprint :: "runtime \<Rightarrow> nc_chain \<Rightarrow> exc + bytes" where
  "ch_blueprint rt ch = ct_get_blueprint_id rt (ch_layers ch) (ch_base ch)"

definition ch_ok :: "runtime \<Rightarrow> nc_chain \<Rightarrow> bool" where
  "ch_ok rt ch \<longleftrightarrow> cs_ok rt (ch_base ch) \<and> bs_ok rt (ch_block ch) \<and> list_all tracker_wf (ch_layers ch)"

lemmas ch_obs_defs = ch_get_def ch_has_def ch_balance_def ch_token_def ch_blueprint_def

lemma ct_get_obj_Cons:
  "ct_get_obj rt key nc_type dflt (t # ts) cs =
     (case dict_get (ct_data t) (AttrKey (ct_nc_id t) key) of
        Some (obj, _) \<Rightarrow> or_default obj dflt
      | None \<Rightarrow> ct_get_obj rt key nc_type dflt ts cs)"
  by (auto simp: or_default_def split: option.splits sum.splits)

declare ct_get_obj.simps(2) [simp del] ct_get_obj_Cons [simp]

lemma ct_get_balance_chain:
  assumes "cs_ok rt cs"
  shows "ct_get_balance rt token_uid ts cs = Inr (foldr (\<lambda>t. apply_diffs t token_uid) ts (balance_of rt cs token_uid))"
  using assms by (induction ts) (simp_all add: cs_get_balance_ok)

lemma ch_balance_eq:
  "cs_ok rt (ch_base ch) \<Longrightarrow>
     ch_balance rt ch token_uid =
       foldr (\<lambda>t. apply_diffs t token_uid) (ch_layers ch) (balance_of rt (ch_base ch) token_uid)"
  by (simp add: ch_balance_def ct_get_balance_chain)

section \<open>The methods of a tracker\<close>

lemma ct_check_if_locked_Inr [simp]:
  "ct_check_if_locked t = (Inr u, t') \<longleftrightarrow> \<not> ct_commited t \<and> \<not> ct_blocked t \<and> t' = t"
  by (auto simp: ct_check_if_locked_def)

lemma ct_put_obj_Inr:
  "ct_put_obj rt key nt v t = (Inr u, t') \<longleftrightarrow>
     \<not> ct_commited t \<and> \<not> ct_blocked t \<and> check_value (set_order rt) nt v = check_ok \<and>
     t' = t\<lparr>ct_data := dict_put (AttrKey (ct_nc_id t) key) (Some v, Some nt) (ct_data t)\<rparr>"
  by (auto simp: ct_put_obj_def sthen_Inr)

lemma ct_del_obj_Inr:
  "ct_del_obj key t = (Inr u, t') \<longleftrightarrow>
     \<not> ct_commited t \<and> \<not> ct_blocked t \<and>
     t' = t\<lparr>ct_data := dict_put (AttrKey (ct_nc_id t) key) (None, None) (ct_data t)\<rparr>"
  by (auto simp: ct_del_obj_def sthen_Inr)

lemma ct_add_balance_Inr:
  "ct_add_balance tok n t = (Inr u, t') \<longleftrightarrow>
     \<not> ct_commited t \<and> \<not> ct_blocked t \<and>
     t' = t\<lparr>ct_balance_diff :=
       dict_put (BalanceKey (ct_nc_id t) tok) (balance_diff_of t tok + n) (ct_balance_diff t)\<rparr>"
  by (auto simp: ct_add_balance_def sthen_Inr)

lemma ct_grant_authorities_Inr:
  "ct_grant_authorities tok a b t = (Inr u, t') \<longleftrightarrow>
     tok \<noteq> HATHOR_TOKEN_UID \<and> \<not> ct_commited t \<and> \<not> ct_blocked t \<and> t' = ct_set_authority_diff tok GRANTED a b t"
  by (auto simp: ct_grant_authorities_def sthen_Inr)

lemma ct_revoke_authorities_Inr:
  "ct_revoke_authorities tok a b t = (Inr u, t') \<longleftrightarrow>
     tok \<noteq> HATHOR_TOKEN_UID \<and> \<not> ct_commited t \<and> \<not> ct_blocked t \<and> t' = ct_set_authority_diff tok REVOKED a b t"
  by (auto simp: ct_revoke_authorities_def sthen_Inr)

lemma ct_set_blueprint_id_Inr:
  "ct_set_blueprint_id b t = (Inr u, t') \<longleftrightarrow>
     \<not> ct_commited t \<and> \<not> ct_blocked t \<and> t' = t\<lparr>ct_blueprint_id := Some b\<rparr>"
  by (auto simp: ct_set_blueprint_id_def sthen_Inr)

lemmas ct_methods_Inr =
  ct_put_obj_Inr ct_del_obj_Inr ct_add_balance_Inr ct_grant_authorities_Inr ct_revoke_authorities_Inr
  ct_set_blueprint_id_Inr

lemma list_all_dict_put:
  "P (k, v) \<Longrightarrow> list_all P d \<Longrightarrow> list_all P (dict_put k v d)"
  by (induction d) auto

lemma tracker_wf_updates:
  assumes "tracker_wf t"
  shows "ty = None \<longrightarrow> obj = None \<Longrightarrow>
           tracker_wf (t\<lparr>ct_data := dict_put (AttrKey (ct_nc_id t) key) (obj, ty) (ct_data t)\<rparr>)"
    and "tracker_wf (t\<lparr>ct_balance_diff := dict_put (BalanceKey (ct_nc_id t) tok) n (ct_balance_diff t)\<rparr>)"
    and "tok \<noteq> HATHOR_TOKEN_UID \<Longrightarrow> tracker_wf (ct_set_authority_diff tok st a b t)"
    and "tracker_wf (t\<lparr>ct_created_tokens := dict_put (td_token_id td) td (ct_created_tokens t)\<rparr>)"
    and "tracker_wf (t\<lparr>ct_blueprint_id := bp\<rparr>)"
    and "tracker_wf (t\<lparr>ct_commited := c\<rparr>)"
    and "tracker_wf (t\<lparr>ct_blocked := c\<rparr>)"
  using assms by (simp_all add: tracker_wf_def ct_set_authority_diff_def Let_def list_all_dict_put)

text \<open>The effect of the updates on what the tracker shows.\<close>

lemma balance_diff_of_update [simp]:
  "balance_diff_of (t\<lparr>ct_balance_diff := dict_put (BalanceKey (ct_nc_id t) tok) n (ct_balance_diff t)\<rparr>) tok' =
     (if tok' = tok then n else balance_diff_of t tok')"
  by (simp add: balance_diff_of_def)

lemma authority_diff_of_update [simp]:
  "authority_diff_of (ct_set_authority_diff tok st a b t) tok' =
     (if tok' = tok
      then \<lparr>ad_mint = (if a then st else ad_mint (authority_diff_of t tok)),
            ad_melt = (if b then st else ad_melt (authority_diff_of t tok))\<rparr>
      else authority_diff_of t tok')"
  by (simp add: authority_diff_of_def ct_set_authority_diff_def Let_def)

lemma authority_diff_of_other [simp]:
  "authority_diff_of (t\<lparr>ct_balance_diff := d\<rparr>) = authority_diff_of t"
  by (simp add: fun_eq_iff authority_diff_of_def)

lemma apply_diffs_other [simp]:
  "apply_diffs (t\<lparr>ct_data := x\<rparr>) = apply_diffs t"
  "apply_diffs (t\<lparr>ct_created_tokens := y\<rparr>) = apply_diffs t"
  "apply_diffs (t\<lparr>ct_blueprint_id := z\<rparr>) = apply_diffs t"
  by (simp_all add: fun_eq_iff apply_diffs_def authority_diff_of_def balance_diff_of_def)

lemma ct_set_authority_diff_other [simp]:
  "ct_nc_id (ct_set_authority_diff tok st a b t) = ct_nc_id t"
  "ct_data (ct_set_authority_diff tok st a b t) = ct_data t"
  "ct_balance_diff (ct_set_authority_diff tok st a b t) = ct_balance_diff t"
  "ct_created_tokens (ct_set_authority_diff tok st a b t) = ct_created_tokens t"
  "ct_blueprint_id (ct_set_authority_diff tok st a b t) = ct_blueprint_id t"
  by (simp_all add: ct_set_authority_diff_def Let_def)

lemma apply_diffs_add:
  "apply_diffs (t\<lparr>ct_balance_diff := dict_put (BalanceKey (ct_nc_id t) tok) (balance_diff_of t tok + n)
       (ct_balance_diff t)\<rparr>) tok' bal =
     (if tok' = tok then (apply_diffs t tok bal)\<lparr>bal_value := bal_value (apply_diffs t tok bal) + n\<rparr>
      else apply_diffs t tok' bal)"
  by (simp add: apply_diffs_def Let_def grant_balance_def revoke_balance_def)

lemma apply_diffs_authorities:
  "apply_diffs (ct_set_authority_diff tok GRANTED a b t) tok' bal =
     (if tok' = tok then grant_balance a b (apply_diffs t tok bal) else apply_diffs t tok' bal)"
  "apply_diffs (ct_set_authority_diff tok REVOKED a b t) tok' bal =
     (if tok' = tok then revoke_balance a b (apply_diffs t tok bal) else apply_diffs t tok' bal)"
proof -
  have d: "balance_diff_of (ct_set_authority_diff tok st a b t) tok' = balance_diff_of t tok'" for st
    by (simp add: balance_diff_of_def ct_set_authority_diff_def Let_def)
  show "apply_diffs (ct_set_authority_diff tok GRANTED a b t) tok' bal =
     (if tok' = tok then grant_balance a b (apply_diffs t tok bal) else apply_diffs t tok' bal)"
    by (auto simp: apply_diffs_def Let_def grant_balance_def revoke_balance_def d)
  show "apply_diffs (ct_set_authority_diff tok REVOKED a b t) tok' bal =
     (if tok' = tok then revoke_balance a b (apply_diffs t tok bal) else apply_diffs t tok' bal)"
    by (auto simp: apply_diffs_def Let_def grant_balance_def revoke_balance_def d)
qed

section \<open>The storages implement the interface\<close>

lemma ch_on_top_cases:
  assumes "ch_on_top f g ch = (Inr u, ch')"
  obtains (base) cs where "ch_layers ch = []" "g (ch_base ch) = (Inr u, cs)" "ch' = ch\<lparr>ch_base := cs\<rparr>"
    | (layer) t ts t' where "ch_layers ch = t # ts" "f t = (Inr u, t')" "ch' = ch\<lparr>ch_layers := t' # ts\<rparr>"
  using assms by (cases "ch_layers ch") (auto simp: ch_on_top_def split: prod.splits)

text \<open>What is observed of a contract storage alone, and through one more tracker.\<close>

lemma ch_obs_base:
  assumes "ch_layers ch = []"
  shows "ch_get rt ch k nt d = cs_get_obj rt k nt d (ch_base ch)"
    and "ch_has rt ch k = cs_has_obj rt k (ch_base ch)"
    and "ch_balance rt ch = balance_of rt (ch_base ch)"
    and "ch_token rt ch tok = (if bs_has_token tok (ch_block ch) = Inr True
           then Some (projr (bs_get_token_description rt tok (ch_block ch))) else None)"
    and "ch_blueprint rt ch = cs_get_blueprint_id rt (ch_base ch)"
  using assms by (simp_all add: ch_obs_defs fun_eq_iff balance_of_def)

lemma ch_obs_layer:
  assumes "ch_layers ch = t # ts"
  shows "ch_get rt ch k nt d =
           (case dict_get (ct_data t) (AttrKey (ct_nc_id t) k) of
              Some (obj, _) \<Rightarrow> or_default obj d | None \<Rightarrow> ch_get rt (ch\<lparr>ch_layers := ts\<rparr>) k nt d)"
    and "ch_has rt ch k =
           (case dict_get (ct_data t) (AttrKey (ct_nc_id t) k) of
              Some (obj, _) \<Rightarrow> Inr (obj \<noteq> None) | None \<Rightarrow> ch_has rt (ch\<lparr>ch_layers := ts\<rparr>) k)"
    and "ch_token rt ch tok =
           (case dict_get (ct_created_tokens t) tok of
              Some td \<Rightarrow> Some td | None \<Rightarrow> ch_token rt (ch\<lparr>ch_layers := ts\<rparr>) tok)"
    and "ch_blueprint rt ch =
           (case ct_blueprint_id t of Some b \<Rightarrow> Inr b | None \<Rightarrow> ch_blueprint rt (ch\<lparr>ch_layers := ts\<rparr>))"
  using assms by (auto simp: ch_obs_defs dict_has_def split: option.splits)

lemma ch_balance_layer:
  assumes "ch_layers ch = t # ts" and "cs_ok rt (ch_base ch)"
  shows "ch_balance rt ch tok = apply_diffs t tok (ch_balance rt (ch\<lparr>ch_layers := ts\<rparr>) tok)"
  using assms by (simp add: ch_balance_eq)

lemma ch_okD:
  assumes "ch_ok rt ch"
  shows "cs_ok rt (ch_base ch)" "bs_ok rt (ch_block ch)" "ch_layers ch = t # ts \<Longrightarrow> tracker_wf t"
  using assms by (auto simp: ch_ok_def)

lemma ch_ok_base_update: "ch_ok rt ch \<Longrightarrow> cs_ok rt cs \<Longrightarrow> ch_ok rt (ch\<lparr>ch_base := cs\<rparr>)"
  by (simp add: ch_ok_def)

lemma ch_ok_layer_update:
  "ch_ok rt ch \<Longrightarrow> ch_layers ch = t # ts \<Longrightarrow> tracker_wf t' \<Longrightarrow> ch_ok rt (ch\<lparr>ch_layers := t' # ts\<rparr>)"
  by (simp add: ch_ok_def)

text \<open>Replacing the newest tracker: everything is observed through the new one.\<close>

lemma ch_layer_change:
  assumes ok: "ch_ok rt ch" and layers: "ch_layers ch = t # ts" and wf: "tracker_wf t'"
    and ch': "ch' = ch\<lparr>ch_layers := t' # ts\<rparr>"
  shows "ch_ok rt ch'"
    and "ch_get rt ch' k nt d =
           (case dict_get (ct_data t') (AttrKey (ct_nc_id t') k) of
              Some (obj, _) \<Rightarrow> or_default obj d | None \<Rightarrow> ch_get rt (ch\<lparr>ch_layers := ts\<rparr>) k nt d)"
    and "ch_has rt ch' k =
           (case dict_get (ct_data t') (AttrKey (ct_nc_id t') k) of
              Some (obj, _) \<Rightarrow> Inr (obj \<noteq> None) | None \<Rightarrow> ch_has rt (ch\<lparr>ch_layers := ts\<rparr>) k)"
    and "ch_token rt ch' tok =
           (case dict_get (ct_created_tokens t') tok of
              Some td \<Rightarrow> Some td | None \<Rightarrow> ch_token rt (ch\<lparr>ch_layers := ts\<rparr>) tok)"
    and "ch_blueprint rt ch' =
           (case ct_blueprint_id t' of Some b \<Rightarrow> Inr b | None \<Rightarrow> ch_blueprint rt (ch\<lparr>ch_layers := ts\<rparr>))"
    and "ch_balance rt ch' tok = apply_diffs t' tok (ch_balance rt (ch\<lparr>ch_layers := ts\<rparr>) tok)"
proof -
  have l': "ch_layers ch' = t' # ts" and rest: "ch'\<lparr>ch_layers := ts\<rparr> = ch\<lparr>ch_layers := ts\<rparr>"
    using ch' by simp_all
  show ok': "ch_ok rt ch'" using ch_ok_layer_update [OF ok layers wf] ch' by simp
  note o = ch_obs_layer [OF l', of rt, unfolded rest]
    and b = ch_balance_layer [OF l' ch_okD(1) [OF ok'], unfolded rest]
  show "ch_get rt ch' k nt d =
      (case dict_get (ct_data t') (AttrKey (ct_nc_id t') k) of
         Some (obj, _) \<Rightarrow> or_default obj d | None \<Rightarrow> ch_get rt (ch\<lparr>ch_layers := ts\<rparr>) k nt d)" by (rule o(1))
  show "ch_has rt ch' k =
      (case dict_get (ct_data t') (AttrKey (ct_nc_id t') k) of
         Some (obj, _) \<Rightarrow> Inr (obj \<noteq> None) | None \<Rightarrow> ch_has rt (ch\<lparr>ch_layers := ts\<rparr>) k)" by (rule o(2))
  show "ch_token rt ch' tok =
      (case dict_get (ct_created_tokens t') tok of
         Some td \<Rightarrow> Some td | None \<Rightarrow> ch_token rt (ch\<lparr>ch_layers := ts\<rparr>) tok)" by (rule o(3))
  show "ch_blueprint rt ch' =
      (case ct_blueprint_id t' of Some b \<Rightarrow> Inr b | None \<Rightarrow> ch_blueprint rt (ch\<lparr>ch_layers := ts\<rparr>))" by (rule o(4))
  show "ch_balance rt ch' tok = apply_diffs t' tok (ch_balance rt (ch\<lparr>ch_layers := ts\<rparr>) tok)" by (rule b)
qed

lemma chain_put:
  assumes ok: "ch_ok rt ch" and v: "typed (set_order rt) nt v" and put: "m_put_obj (chain_methods rt) k nt v ch = (Inr u, ch')"
  shows "ch_ok rt ch' \<and> ch_balance rt ch' = ch_balance rt ch \<and> ch_token rt ch' = ch_token rt ch \<and>
      ch_blueprint rt ch' = ch_blueprint rt ch \<and> ch_has rt ch' k = Inr True \<and> ch_get rt ch' k nt d = Inr v \<and>
      (sha256 rt k' \<noteq> sha256 rt k \<longrightarrow> ch_has rt ch' k' = ch_has rt ch k' \<and> ch_get rt ch' k' nt' d = ch_get rt ch k' nt' d)"
proof -
  have "ch_on_top (ct_put_obj rt k nt v) (cs_put_obj rt k nt v) ch = (Inr u, ch')"
    using put by (simp add: chain_methods_def)
  then show ?thesis
  proof (cases rule: ch_on_top_cases)
    case (base cs)
    note w = cs_put_obj_Inr [OF ch_okD(1) [OF ok] base(2) v, unfolded attr_written_def]
    have layers: "ch_layers ch' = []" using base by simp
    show ?thesis
      unfolding ch_obs_base [OF base(1)] ch_obs_base [OF layers] fun_eq_iff
      using w ch_ok_base_update [OF ok] base(3) by simp
  next
    case (layer t ts t')
    then have t': "t' = t\<lparr>ct_data := dict_put (AttrKey (ct_nc_id t) k) (Some v, Some nt) (ct_data t)\<rparr>"
      by (simp add: ct_put_obj_Inr)
    have wf: "tracker_wf t'" unfolding t' by (rule tracker_wf_updates) (use ch_okD(3) [OF ok layer(1)] in auto)
    show ?thesis
      unfolding ch_layer_change [OF ok layer(1) wf layer(3)] ch_obs_layer [OF layer(1)]
        ch_balance_layer [OF layer(1) ch_okD(1) [OF ok]] fun_eq_iff
      using ch_layer_change(1) [OF ok layer(1) wf layer(3)] by (auto simp: t' or_default_def)
  qed
qed


lemma chain_del:
  assumes ok: "ch_ok rt ch" and op: "m_del_obj (chain_methods rt) k ch = (Inr u, ch')"
  shows "ch_ok rt ch' \<and> ch_balance rt ch' = ch_balance rt ch \<and> ch_token rt ch' = ch_token rt ch \<and>
      ch_blueprint rt ch' = ch_blueprint rt ch \<and> ch_has rt ch' k = Inr False \<and> ch_get rt ch' k nt d = or_default None d \<and>
      (sha256 rt k' \<noteq> sha256 rt k \<longrightarrow> ch_has rt ch' k' = ch_has rt ch k' \<and> ch_get rt ch' k' nt' d = ch_get rt ch k' nt' d)"
proof -
  have "ch_on_top (ct_del_obj k) (cs_del_obj rt k) ch = (Inr u, ch')"
    using op by (simp add: chain_methods_def)
  then show ?thesis
  proof (cases rule: ch_on_top_cases)
    case (base cs)
    note w = cs_del_obj_Inr [OF ch_okD(1) [OF ok] base(2), unfolded attr_written_def]
    have layers: "ch_layers ch' = []" using base by simp
    show ?thesis
      unfolding ch_obs_base [OF base(1)] ch_obs_base [OF layers] fun_eq_iff
      using w ch_ok_base_update [OF ok] base(3) by (simp add: or_default_def)
  next
    case (layer t ts t')
    then have t': "t' = t\<lparr>ct_data := dict_put (AttrKey (ct_nc_id t) k) (None, None) (ct_data t)\<rparr>" and nh: "True"
      by (simp_all add: ct_methods_Inr)
    have wf: "tracker_wf t'" unfolding t' by (rule tracker_wf_updates) (use ch_okD(3) [OF ok layer(1)] nh in auto)
    show ?thesis
      unfolding ch_layer_change [OF ok layer(1) wf layer(3)] ch_obs_layer [OF layer(1)]
        ch_balance_layer [OF layer(1) ch_okD(1) [OF ok]] fun_eq_iff
      using ch_layer_change(1) [OF ok layer(1) wf layer(3)] by (auto simp: t' or_default_def)
  qed
qed

lemma chain_add:
  assumes ok: "ch_ok rt ch" and op: "m_add_balance (chain_methods rt) tok n ch = (Inr u, ch')"
  shows "ch_ok rt ch' \<and> ch_get rt ch' = ch_get rt ch \<and> ch_has rt ch' = ch_has rt ch \<and> ch_token rt ch' = ch_token rt ch \<and>
      ch_blueprint rt ch' = ch_blueprint rt ch \<and>
      ch_balance rt ch' = (ch_balance rt ch)(tok := (ch_balance rt ch tok)\<lparr>bal_value := bal_value (ch_balance rt ch tok) + n\<rparr>)"
proof -
  have "ch_on_top (ct_add_balance tok n) (cs_add_balance rt tok n) ch = (Inr u, ch')"
    using op by (simp add: chain_methods_def)
  then show ?thesis
  proof (cases rule: ch_on_top_cases)
    case (base cs)
    note w = cs_add_balance_Inr(2) [OF ch_okD(1) [OF ok] base(2), unfolded balance_written_def]
    have layers: "ch_layers ch' = []" using base by simp
    show ?thesis
      unfolding ch_obs_base [OF base(1)] ch_obs_base [OF layers] fun_eq_iff
      using w ch_ok_base_update [OF ok] base(3) by (simp add: attrs_of_eqD [of rt cs])
  next
    case (layer t ts t')
    then have t': "t' = t\<lparr>ct_balance_diff := dict_put (BalanceKey (ct_nc_id t) tok) (balance_diff_of t tok + n) (ct_balance_diff t)\<rparr>" and nh: "True"
      by (simp_all add: ct_methods_Inr)
    have wf: "tracker_wf t'" unfolding t' by (rule tracker_wf_updates) (use ch_okD(3) [OF ok layer(1)] nh in auto)
    show ?thesis
      unfolding ch_layer_change [OF ok layer(1) wf layer(3)] ch_obs_layer [OF layer(1)]
        ch_balance_layer [OF layer(1) ch_okD(1) [OF ok]] fun_eq_iff
      using ch_layer_change(1) [OF ok layer(1) wf layer(3)] by (auto simp: t' apply_diffs_add)
  qed
qed

lemma chain_grant:
  assumes ok: "ch_ok rt ch" and op: "m_grant_authorities (chain_methods rt) tok a b ch = (Inr u, ch')"
  shows "ch_ok rt ch' \<and> ch_get rt ch' = ch_get rt ch \<and> ch_has rt ch' = ch_has rt ch \<and> ch_token rt ch' = ch_token rt ch \<and>
      ch_blueprint rt ch' = ch_blueprint rt ch \<and>
      ch_balance rt ch' = (ch_balance rt ch)(tok := grant_balance a b (ch_balance rt ch tok))"
proof -
  have "ch_on_top (ct_grant_authorities tok a b) (cs_grant_authorities rt tok a b) ch = (Inr u, ch')"
    using op by (simp add: chain_methods_def)
  then show ?thesis
  proof (cases rule: ch_on_top_cases)
    case (base cs)
    note w = cs_grant_authorities_Inr(2) [OF ch_okD(1) [OF ok] base(2), unfolded balance_written_def]
    have layers: "ch_layers ch' = []" using base by simp
    show ?thesis
      unfolding ch_obs_base [OF base(1)] ch_obs_base [OF layers] fun_eq_iff
      using w ch_ok_base_update [OF ok] base(3) by (simp add: attrs_of_eqD [of rt cs])
  next
    case (layer t ts t')
    then have t': "t' = ct_set_authority_diff tok GRANTED a b t" and nh: "tok \<noteq> HATHOR_TOKEN_UID"
      by (simp_all add: ct_methods_Inr)
    have wf: "tracker_wf t'" unfolding t' by (rule tracker_wf_updates) (use ch_okD(3) [OF ok layer(1)] nh in auto)
    show ?thesis
      unfolding ch_layer_change [OF ok layer(1) wf layer(3)] ch_obs_layer [OF layer(1)]
        ch_balance_layer [OF layer(1) ch_okD(1) [OF ok]] fun_eq_iff
      using ch_layer_change(1) [OF ok layer(1) wf layer(3)] by (auto simp: t' apply_diffs_authorities)
  qed
qed

lemma chain_revoke:
  assumes ok: "ch_ok rt ch" and op: "m_revoke_authorities (chain_methods rt) tok a b ch = (Inr u, ch')"
  shows "ch_ok rt ch' \<and> ch_get rt ch' = ch_get rt ch \<and> ch_has rt ch' = ch_has rt ch \<and> ch_token rt ch' = ch_token rt ch \<and>
      ch_blueprint rt ch' = ch_blueprint rt ch \<and>
      ch_balance rt ch' = (ch_balance rt ch)(tok := revoke_balance a b (ch_balance rt ch tok))"
proof -
  have "ch_on_top (ct_revoke_authorities tok a b) (cs_revoke_authorities rt tok a b) ch = (Inr u, ch')"
    using op by (simp add: chain_methods_def)
  then show ?thesis
  proof (cases rule: ch_on_top_cases)
    case (base cs)
    note w = cs_revoke_authorities_Inr(2) [OF ch_okD(1) [OF ok] base(2), unfolded balance_written_def]
    have layers: "ch_layers ch' = []" using base by simp
    show ?thesis
      unfolding ch_obs_base [OF base(1)] ch_obs_base [OF layers] fun_eq_iff
      using w ch_ok_base_update [OF ok] base(3) by (simp add: attrs_of_eqD [of rt cs])
  next
    case (layer t ts t')
    then have t': "t' = ct_set_authority_diff tok REVOKED a b t" and nh: "tok \<noteq> HATHOR_TOKEN_UID"
      by (simp_all add: ct_methods_Inr)
    have wf: "tracker_wf t'" unfolding t' by (rule tracker_wf_updates) (use ch_okD(3) [OF ok layer(1)] nh in auto)
    show ?thesis
      unfolding ch_layer_change [OF ok layer(1) wf layer(3)] ch_obs_layer [OF layer(1)]
        ch_balance_layer [OF layer(1) ch_okD(1) [OF ok]] fun_eq_iff
      using ch_layer_change(1) [OF ok layer(1) wf layer(3)] by (auto simp: t' apply_diffs_authorities)
  qed
qed

lemma chain_set_bp:
  assumes ok: "ch_ok rt ch" and op: "m_set_blueprint_id (chain_methods rt) bp ch = (Inr u, ch')"
  shows "ch_ok rt ch' \<and> ch_get rt ch' = ch_get rt ch \<and> ch_has rt ch' = ch_has rt ch \<and> ch_balance rt ch' = ch_balance rt ch \<and>
      ch_token rt ch' = ch_token rt ch \<and> ch_blueprint rt ch' = Inr bp"
proof -
  have "ch_on_top (ct_set_blueprint_id bp) (cs_set_blueprint_id rt bp) ch = (Inr u, ch')"
    using op by (simp add: chain_methods_def)
  then show ?thesis
  proof (cases rule: ch_on_top_cases)
    case (base cs)
    note w = cs_set_blueprint_id_Inr [OF ch_okD(1) [OF ok] base(2)]
    have layers: "ch_layers ch' = []" using base by simp
    show ?thesis
      unfolding ch_obs_base [OF base(1)] ch_obs_base [OF layers] fun_eq_iff
      using w ch_ok_base_update [OF ok] base(3) by (simp add: attrs_of_eqD [of rt cs])
  next
    case (layer t ts t')
    then have t': "t' = t\<lparr>ct_blueprint_id := Some bp\<rparr>" and nh: "True"
      by (simp_all add: ct_methods_Inr)
    have wf: "tracker_wf t'" unfolding t' by (rule tracker_wf_updates) (use ch_okD(3) [OF ok layer(1)] nh in auto)
    show ?thesis
      unfolding ch_layer_change [OF ok layer(1) wf layer(3)] ch_obs_layer [OF layer(1)]
        ch_balance_layer [OF layer(1) ch_okD(1) [OF ok]] fun_eq_iff
      using ch_layer_change(1) [OF ok layer(1) wf layer(3)] by (auto simp: t' or_default_def)
  qed
qed


lemma chain_create:
  assumes ok: "ch_ok rt ch" and op: "m_create_token (chain_methods rt) td ch = (Inr u, ch')"
  shows "ch_ok rt ch' \<and> ch_get rt ch' = ch_get rt ch \<and> ch_has rt ch' = ch_has rt ch \<and>
      ch_balance rt ch' = ch_balance rt ch \<and> ch_blueprint rt ch' = ch_blueprint rt ch \<and>
      ch_token rt ch' = (ch_token rt ch)(td_token_id td := Some td)"
proof (cases "ch_layers ch")
  case Nil
  then obtain bs where bs: "bs_create_token rt td (ch_block ch) = (Inr u, bs)" "ch' = ch\<lparr>ch_block := bs\<rparr>"
    using op by (auto simp: chain_methods_def ch_create_token_def split: prod.splits)
  have layers: "ch_layers ch' = []" using bs Nil by simp
  note w = bs_create_token_ok [OF ch_okD(2) [OF ok] bs(1)]
  have "ch_ok rt ch'" using ok bs(2) w(1) by (simp add: ch_ok_def)
  then show ?thesis
    unfolding ch_obs_base [OF Nil] ch_obs_base [OF layers] fun_eq_iff using w bs(2) by simp
next
  case (Cons t ts)
  define t' where "t' = t\<lparr>ct_created_tokens := dict_put (td_token_id td) td (ct_created_tokens t)\<rparr>"
  have ch': "ch' = ch\<lparr>ch_layers := t' # ts\<rparr>"
    using op Cons by (auto simp: chain_methods_def ch_create_token_def t'_def split: sum.splits bool.splits)
  have wf: "tracker_wf t'" unfolding t'_def by (rule tracker_wf_updates(4) [OF ch_okD(3) [OF ok Cons]])
  show ?thesis
    unfolding ch_layer_change [OF ok Cons wf ch'] ch_obs_layer [OF Cons]
      ch_balance_layer [OF Cons ch_okD(1) [OF ok]] fun_eq_iff
    using ch_layer_change(1) [OF ok Cons wf ch'] by (auto simp: t'_def apply_diffs_def)
qed

interpretation chain: contract_state "chain_methods rt" "ch_get rt" "ch_has rt" "ch_balance rt" "ch_token rt"
    "ch_blueprint rt" "ch_ok rt" "sha256 rt" "typed (set_order rt)" for rt
proof
qed (erule (2) chain_put, erule (1) chain_del, erule (1) chain_add, erule (1) chain_grant, erule (1) chain_revoke,
    erule (1) chain_create, erule (1) chain_set_bp)

section \<open>The commit of a tracker\<close>

lemma ch_commit_Inr:
  assumes "ch_layers ch = t # ts" and "ch_commit rt ch = (Inr u, ch')"
  obtains below where "flush_tracker (chain_methods rt) t (ch\<lparr>ch_layers := ts\<rparr>) = (Inr (), below)"
    and "ch' = below\<lparr>ch_layers := t\<lparr>ct_commited := True\<rparr> # ch_layers below\<rparr>"
  using assms by (auto simp: ch_commit_def split: sum.splits prod.splits)

end
