(* ===== verification/Storage_Props.thy ===== *)
theory Storage_Props
  imports Storage_Chain Patricia_Props
begin

text \<open>
  Properties of the storages: the ledger of balances that a contract storage keeps, when the commit of a
  tracker goes through, what a closed storage refuses, sequence numbers, and storing and opening a
  contract again.
\<close>

section \<open>A runtime to evaluate in\<close>

definition plain_runtime :: runtime where
  "plain_runtime = \<lparr>sha256 = tag_length, set_order = (\<lambda>_. []), str_upper = (\<lambda>s. s)\<rparr>"

section \<open>The ledger of a contract storage\<close>

text \<open>
  The storages a contract can have after any sequence of calls of its methods, with the sum of the
  amounts added for each token. A call that raises leaves no trace.
\<close>

inductive cs_history :: "runtime \<Rightarrow> bytes \<Rightarrow> (bytes \<Rightarrow> int) \<Rightarrow> contract_storage \<Rightarrow> bool" for rt nc_id where
  start: "cs_history rt nc_id (\<lambda>_. 0) (new_contract_storage pempty nc_id)"
| put: "cs_history rt nc_id l cs \<Longrightarrow> typed (set_order rt) t v \<Longrightarrow> cs_put_obj rt key t v cs = (r, cs') \<Longrightarrow>
    cs_history rt nc_id l cs'"
| del: "cs_history rt nc_id l cs \<Longrightarrow> cs_del_obj rt key cs = (r, cs') \<Longrightarrow> cs_history rt nc_id l cs'"
| add: "cs_history rt nc_id l cs \<Longrightarrow> cs_add_balance rt token_uid amount cs = (Inr u, cs') \<Longrightarrow>
    cs_history rt nc_id (l(token_uid := l token_uid + amount)) cs'"
| add_fails: "cs_history rt nc_id l cs \<Longrightarrow> cs_add_balance rt token_uid amount cs = (Inl e, cs') \<Longrightarrow>
    cs_history rt nc_id l cs'"
| grant: "cs_history rt nc_id l cs \<Longrightarrow> cs_grant_authorities rt token_uid mint melt cs = (r, cs') \<Longrightarrow>
    cs_history rt nc_id l cs'"
| revoke: "cs_history rt nc_id l cs \<Longrightarrow> cs_revoke_authorities rt token_uid mint melt cs = (r, cs') \<Longrightarrow>
    cs_history rt nc_id l cs'"
| blueprint: "cs_history rt nc_id l cs \<Longrightarrow> cs_set_blueprint_id rt b cs = (r, cs') \<Longrightarrow> cs_history rt nc_id l cs'"
| lock: "cs_history rt nc_id l cs \<Longrightarrow> cs_history rt nc_id l (cs_lock cs)"
| unlock: "cs_history rt nc_id l cs \<Longrightarrow> cs_history rt nc_id l (cs_unlock cs)"

definition ledger_ok :: "runtime \<Rightarrow> (bytes \<Rightarrow> int) \<Rightarrow> contract_storage \<Rightarrow> bool" where
  "ledger_ok rt l cs \<longleftrightarrow> cs_ok rt cs \<and> (\<forall>token_uid. bal_value (balance_of rt cs token_uid) = l token_uid)"

lemma cs_ok_empty [simp]: "cs_ok rt (new_contract_storage pempty nc_id)"
  by (simp add: cs_ok_def ptrie_ok_def ptrie_get_def)

lemma balance_of_lock [simp]:
  "cs_ok rt (cs_lock cs) = cs_ok rt cs" "cs_ok rt (cs_unlock cs) = cs_ok rt cs"
  "balance_of rt (cs_lock cs) = balance_of rt cs" "balance_of rt (cs_unlock cs) = balance_of rt cs"
  by (simp_all add: cs_ok_def cs_lock_def cs_unlock_def fun_eq_iff balance_of_def cs_get_balance_def
      cs_get_balance_obj_def trie_get_obj_def)


lemma cs_history_ledger: "cs_history rt nc_id l cs \<Longrightarrow> ledger_ok rt l cs \<and> cs_nc_id cs = nc_id"
proof (induction rule: cs_history.induct)
  case start
  have "cs_get_balance rt token_uid (new_contract_storage pempty nc_id) = Inr default_balance" for token_uid
    by (simp add: cs_get_balance_def cs_get_balance_obj_def trie_get_obj_def ptrie_get_def)
  then show ?case by (simp add: ledger_ok_def balance_of_def default_balance_def)
next
  case (put l cs t v key r cs')
  then show ?case
    by (cases r) (auto simp: ledger_ok_def attr_written_def dest: cs_error_unchanged(1) cs_put_obj_Inr)
next
  case (del l cs key r cs')
  then show ?case
    by (cases r) (auto simp: ledger_ok_def attr_written_def dest: cs_error_unchanged(2) cs_del_obj_Inr)
next
  case (add l cs token_uid amount u cs')
  then show ?case using cs_add_balance_Inr(2) [of rt cs token_uid amount u cs']
    by (auto simp: ledger_ok_def balance_written_def)
next
  case (add_fails l cs token_uid amount e cs')
  then show ?case by (auto dest: cs_error_unchanged(4))
next
  case (grant l cs token_uid mint melt r cs')
  then show ?case using cs_grant_authorities_Inr(2) [of rt cs token_uid mint melt "()" cs']
    by (cases r) (auto simp: ledger_ok_def balance_written_def grant_balance_def dest: cs_error_unchanged(5))
next
  case (revoke l cs token_uid mint melt r cs')
  then show ?case using cs_revoke_authorities_Inr(2) [of rt cs token_uid mint melt "()" cs']
    by (cases r) (auto simp: ledger_ok_def balance_written_def revoke_balance_def dest: cs_error_unchanged(6))
next
  case (blueprint l cs b r cs')
  then show ?case using cs_set_blueprint_id_Inr [of rt cs b "()" cs']
    by (cases r) (auto simp: ledger_ok_def dest: cs_error_unchanged(3))
next
  case (lock l cs)
  then show ?case by (simp add: ledger_ok_def) (simp add: cs_lock_def)
next
  case (unlock l cs)
  then show ?case by (simp add: ledger_ok_def) (simp add: cs_unlock_def)
qed

text \<open>
  C22. The balances of a contract storage are a ledger. After any sequence of calls of its methods,
  successful or not, every balance can be read; it is the sum of the amounts that were successfully added
  for its token, it is not negative and it is below the bound of its encoding. \<open>get_all_balances\<close>
  returns the balances of the tokens that have an entry, with the same values; the others are zero.
\<close>

theorem contract_storage_is_ledger:
  assumes "cs_history rt nc_id l cs"
  shows "\<exists>b. cs_get_balance rt token_uid cs = Inr b \<and> bal_value b = l token_uid \<and>
           0 \<le> bal_value b \<and> bal_value b < 2 ^ 223 \<and>
           (\<exists>all. cs_get_all_balances rt cs = Inr all \<and>
              dict_get all (BalanceKey nc_id token_uid) \<in> {None, Some b} \<and>
              (dict_get all (BalanceKey nc_id token_uid) = None \<longrightarrow> b = default_balance))"
proof -
  have ok: "cs_ok rt cs" and l: "bal_value (balance_of rt cs token_uid) = l token_uid" and id: "cs_nc_id cs = nc_id"
    using cs_history_ledger [OF assms] by (simp_all add: ledger_ok_def)
  obtain all where all: "cs_get_all_balances rt cs = Inr all"
      "dict_get all (BalanceKey nc_id token_uid) =
         (if ptrie_get (cs_trie cs) (1 # token_uid) \<noteq> Inl KeyError then Some (balance_of rt cs token_uid) else None)"
    using cs_get_all_balances_ok [OF ok] id by fastforce
  have "balance_of rt cs token_uid = default_balance" if "ptrie_get (cs_trie cs) (1 # token_uid) = Inl KeyError"
    using that by (simp add: balance_of_def cs_get_balance_def cs_get_balance_obj_def trie_get_obj_def)
  then show ?thesis using cs_get_balance_ok [OF ok, of token_uid] l all by auto
qed

theorem contract_storage_is_ledger_witness:
  "let cs = snd (cs_add_balance plain_runtime [7] (- 8) (snd (cs_add_balance plain_runtime [7] 5
              (new_contract_storage pempty [1])))) in
   \<exists>b. cs_get_balance plain_runtime [7] cs = Inr b \<and> bal_value b = 5"
proof -
  let ?cs0 = "new_contract_storage pempty [1]"
  let ?cs1 = "snd (cs_add_balance plain_runtime [7] 5 ?cs0)"
  have 1: "cs_add_balance plain_runtime [7] 5 ?cs0 = (Inr (), ?cs1)"
    by (rule prod_eqI) (code_simp, simp)
  have 2: "cs_add_balance plain_runtime [7] (- 8) ?cs1 = (Inl AssertionError, snd (cs_add_balance plain_runtime [7] (- 8) ?cs1))"
    by (rule prod_eqI) (code_simp, simp)
  from contract_storage_is_ledger
      [OF cs_history.add_fails [OF cs_history.add [OF cs_history.start 1] 2], of "[7]"]
  show ?thesis by auto
qed


section \<open>The commit of a tracker\<close>

text \<open>
  C21. Committing a changes tracker carries out exactly what the tracker showed: after a commit that
  succeeds, a read through the storage below the tracker - attribute, presence, balance, token
  description or blueprint id - gives what the same read through the tracker gave before the commit, at
  every depth of the stack of trackers over a contract storage. The attribute read is of the type the
  attribute was last written with, and its key has no hash collision with the other keys written.
\<close>

theorem tracker_commit_carries_out:
  assumes ok: "ch_ok rt ch" and layers: "ch_layers ch = t # ts"
    and commit: "ch_commit rt ch = (Inr (), ch')"
    and inj: "inj_on (sha256 rt) (insert k (written_keys t))"
    and vals: "written_ok (typed (set_order rt)) t"
    and type: "\<forall>v ty. dict_get (ct_data t) (AttrKey (ct_nc_id t) k) = Some (Some v, ty) \<longrightarrow> ty = Some nt"
  shows "let below = ch'\<lparr>ch_layers := tl (ch_layers ch')\<rparr> in
      ch_ok rt below \<and>
      ch_get rt below k nt d = ch_get rt ch k nt d \<and>
      ch_has rt below k = ch_has rt ch k \<and>
      ch_balance rt below tok = ch_balance rt ch tok \<and>
      ch_token rt below tok = ch_token rt ch tok \<and>
      ch_blueprint rt below = ch_blueprint rt ch"
proof -
  obtain below where flush: "flush_tracker (chain_methods rt) t (ch\<lparr>ch_layers := ts\<rparr>) = (Inr (), below)"
      and ch': "ch' = below\<lparr>ch_layers := t\<lparr>ct_commited := True\<rparr> # ch_layers below\<rparr>"
    using layers commit by (rule ch_commit_Inr)
  have ok0: "ch_ok rt (ch\<lparr>ch_layers := ts\<rparr>)" using ok layers by (simp add: ch_ok_def)
  note o = chain.flush_tracker_overlay
      [OF ok0 flush ch_okD(3) [OF ok layers] inj_on_subset [OF inj subset_insertI] vals]
  have unwritten: "sha256 rt k \<notin> sha256 rt ` written_keys t"
    if "dict_get (ct_data t) (AttrKey (ct_nc_id t) k) = None"
  proof
    assume "sha256 rt k \<in> sha256 rt ` written_keys t"
    then have "k \<in> written_keys t" using inj by (auto dest: inj_onD)
    then show False using that tracker_wf_data(2) [OF ch_okD(3) [OF ok layers]]
      by (force simp: written_keys_def dict_get_None)
  qed
  have "ch_get rt below k nt d = ch_get rt ch k nt d \<and> ch_has rt below k = ch_has rt ch k"
  proof (cases "dict_get (ct_data t) (AttrKey (ct_nc_id t) k)")
    case None
    then show ?thesis using o(6) [OF unwritten [OF None]] by (simp add: ch_obs_layer [OF layers])
  next
    case (Some i)
    then obtain obj ty where i: "dict_get (ct_data t) (AttrKey (ct_nc_id t) k) = Some (obj, ty)" by (cases i) auto
    then show ?thesis using o(5) [OF i] type by (cases obj) (auto simp: ch_obs_layer [OF layers])
  qed
  then show ?thesis
    using o(1-4) ch'
    by (auto simp: Let_def ch_obs_layer [OF layers] ch_balance_layer [OF layers ch_okD(1) [OF ok]] map_add_def
        split: option.splits)
qed

text \<open>A contract with one tracker: an attribute and a balance are written.\<close>

definition sample_tracker :: tracker where
  "sample_tracker = (new_tracker [1])
     \<lparr>ct_data := [(AttrKey [1] [97], Some (IntV 5), Some VarInt32NC)],
      ct_balance_diff := [(BalanceKey [1] [7], 3)]\<rparr>"

definition sample_chain :: nc_chain where
  "sample_chain = \<lparr>ch_layers = [sample_tracker], ch_base = new_contract_storage pempty [1],
     ch_block = \<lparr>bs_trie = pempty, bs_store = []\<rparr>\<rparr>"

lemma sample_chain_ok: "ch_ok plain_runtime sample_chain"
proof -
  have "tracker_wf sample_tracker" by code_simp
  then show ?thesis
    by (simp add: ch_ok_def sample_chain_def bs_ok_def ptrie_ok_def ptrie_get_def)
qed

lemma sample_chain_simps [simp]:
  "ch_layers sample_chain = [sample_tracker]" "ch_base sample_chain = new_contract_storage pempty [1]"
  "written_keys sample_tracker = {[97]}" "written_ok (typed (set_order rt)) sample_tracker"
  by (simp_all add: sample_chain_def sample_tracker_def new_tracker_def written_keys_def written_ok_def)

theorem tracker_commit_carries_out_witness:
  "let ch' = snd (ch_commit plain_runtime sample_chain); below = ch'\<lparr>ch_layers := tl (ch_layers ch')\<rparr> in
     ch_get plain_runtime below [97] VarInt32NC None = Inr (IntV 5) \<and>
     bal_value (ch_balance plain_runtime below [7]) = 3"
proof -
  let ?ch' = "snd (ch_commit plain_runtime sample_chain)"
  have "ch_commit plain_runtime sample_chain = (Inr (), ?ch')" by (rule prod_eqI) (code_simp, simp)
  moreover have "ch_get plain_runtime sample_chain [97] VarInt32NC None = Inr (IntV 5)"
      "bal_value (ch_balance plain_runtime sample_chain [7]) = 3" by code_simp+
  ultimately show ?thesis
    using tracker_commit_carries_out [OF sample_chain_ok, of sample_tracker "[]" ?ch' "[97]" VarInt32NC None "[7]"]
    by (simp add: Let_def) (simp add: sample_tracker_def new_tracker_def)
qed

section \<open>When the commit of a tracker goes through\<close>

text \<open>What the tracker holds has a serialization.\<close>

definition flushable :: "runtime \<Rightarrow> tracker \<Rightarrow> bool" where
  "flushable rt t \<longleftrightarrow>
     list_all (\<lambda>(_, obj, ty). \<not> isl (cs_serialize rt obj ty)) (ct_data t) \<and>
     list_all (\<lambda>(_, td). \<not> isl (to_bytes (set_order rt) TOKEN_DESCRIPTION_NC_TYPE (of_token_description td)))
       (ct_created_tokens t) \<and>
     (case ct_blueprint_id t of
        None \<Rightarrow> True
      | Some b \<Rightarrow> \<not> isl (cs_serialize rt (Some (BytesV PlainBytes b)) (Some (BytesLikeNC PlainBytes))))"

definition ready :: "runtime \<Rightarrow> nc_chain \<Rightarrow> bool" where
  "ready rt ch \<longleftrightarrow> ch_ok rt ch \<and> ch_layers ch = [] \<and> \<not> cs_locked (ch_base ch)"

lemma sfor_succeeds:
  assumes "\<And>x s. x \<in> set xs \<Longrightarrow> I s \<Longrightarrow> \<exists>s'. f x s = (Inr (), s') \<and> I s'"
  shows "I s \<Longrightarrow> \<exists>s'. sfor xs f s = (Inr (), s') \<and> I s'"
  using assms
proof (induction xs arbitrary: s)
  case (Cons x xs)
  then obtain s1 where "f x s = (Inr (), s1)" "I s1" by (metis list.set_intros(1))
  moreover from Cons have "\<exists>s'. sfor xs f s1 = (Inr (), s') \<and> I s'" using \<open>I s1\<close> by simp
  ultimately show ?case by (auto simp: sm_simps)
qed (simp add: sm_simps)

lemma ready_op:
  assumes "ready rt ch" and "g (ch_base ch) = (Inr (), cs)" and "cs_ok rt cs" and "same_header (ch_base ch) cs"
  shows "\<exists>ch'. ch_on_top f g ch = (Inr (), ch') \<and> ready rt ch'"
  using assms by (simp add: ready_def ch_on_top_def ch_ok_def)

lemma cs_serialize_deleted: "\<exists>c. cs_serialize rt None None = Inr c"
proof -
  have "ser_left build_bytes_serializer = []" by (simp add: build_bytes_serializer_def)
  from encode_bool_free [OF this, of False] show ?thesis
    by (auto simp: cs_serialize_def maybe_deleted_to_bytes_def maybe_deleted_serialize_def
        maybe_deleted_check_value_def sm_simps)
qed

lemma flush_data_succeeds:
  assumes "ready rt ch" and "\<not> isl (cs_serialize rt obj ty)" and "ty = None \<longrightarrow> obj = None"
    and "\<forall>v nt. obj = Some v \<longrightarrow> ty = Some nt \<longrightarrow> typed (set_order rt) nt v"
  shows "\<exists>ch'. flush_data (chain_methods rt) (key, obj, ty) ch = (Inr (), ch') \<and> ready rt ch'"
proof (cases obj)
  case None
  have ok: "cs_ok rt (ch_base ch)" "\<not> cs_locked (ch_base ch)" using assms(1) by (auto simp: ready_def ch_ok_def)
  obtain cs where cs: "cs_del_obj rt (attr_key_key key) (ch_base ch) = (Inr (), cs)"
    using ok(2) cs_serialize_deleted [of rt] by (auto simp: cs_del_obj_def sm_simps trie_update_obj_def)
  show ?thesis
    using ready_op [where g = "cs_del_obj rt (attr_key_key key)", OF assms(1) cs] cs_del_obj_Inr [OF ok(1) cs] None
    by (simp add: flush_data_def chain_methods_def attr_written_def)
next
  case (Some v)
  then obtain nt where ty: "ty = Some nt" using assms(3) by auto
  have ok: "cs_ok rt (ch_base ch)" "\<not> cs_locked (ch_base ch)" using assms(1) by (auto simp: ready_def ch_ok_def)
  obtain c where "cs_serialize rt obj ty = Inr c" using assms(2) by (cases "cs_serialize rt obj ty") auto
  then obtain cs where cs: "cs_put_obj rt (attr_key_key key) nt v (ch_base ch) = (Inr (), cs)"
    using ok(2) Some ty by (auto simp: cs_put_obj_def sm_simps trie_update_obj_def)
  show ?thesis
    using ready_op [where g = "cs_put_obj rt (attr_key_key key) nt v", OF assms(1) cs] cs_put_obj_Inr [OF ok(1) cs] Some ty assms(4)
    by (simp add: flush_data_def chain_methods_def attr_written_def)
qed

lemma flush_all_data_succeeds:
  assumes "ready rt ch" and wf: "tracker_wf t" and vals: "written_ok (typed (set_order rt)) t" and ser: "flushable rt t"
  shows "\<exists>ch'. sfor (ct_data t) (flush_data (chain_methods rt)) ch = (Inr (), ch') \<and> ready rt ch' \<and>
           ch_balance rt ch' = ch_balance rt ch"
proof -
  let ?I = "\<lambda>s. ready rt s \<and> ch_balance rt s = ch_balance rt ch"
  have step: "\<exists>s'. flush_data (chain_methods rt) i s = (Inr (), s') \<and> ?I s'" if i: "i \<in> set (ct_data t)" and s: "?I s" for i s
  proof -
    obtain key obj ty where i': "i = (key, obj, ty)" by (cases i)
    have val: "typed (set_order rt) nt v" if "obj = Some v" "ty = Some nt" for v nt
      using vals i i' that by (force simp: written_ok_def list_all_iff)
    have "\<exists>s'. flush_data (chain_methods rt) (key, obj, ty) s = (Inr (), s') \<and> ready rt s'"
      by (rule flush_data_succeeds) (use i i' wf ser s val in \<open>auto simp: tracker_wf_def flushable_def list_all_iff\<close>)
    then obtain s' where s': "flush_data (chain_methods rt) (key, obj, ty) s = (Inr (), s')" "ready rt s'" by blast
    have "ch_ok rt s" using s by (simp add: ready_def)
    from chain.flush_data_step(2) [OF this s'(1)] val have "ch_balance rt s' = ch_balance rt s" by blast
    then show ?thesis using s' s i' by simp
  qed
  show ?thesis by (rule sfor_succeeds [where I = ?I]) (use step assms(1) in auto)
qed

lemma flush_authorities_succeeds:
  assumes "ready rt ch" and "balance_key_token key \<noteq> HATHOR_TOKEN_UID"
  shows "\<exists>ch'. flush_authorities (chain_methods rt) (key, d) ch = (Inr (), ch') \<and> ready rt ch'"
proof -
  let ?tok = "balance_key_token key"
  have ok: "cs_ok rt (ch_base ch)" "\<not> cs_locked (ch_base ch)" using assms(1) by (auto simp: ready_def ch_ok_def)
  obtain cs where cs: "cs_grant_authorities rt ?tok (ad_grant_mint d) (ad_grant_melt d) (ch_base ch) = (Inr (), cs)"
    using cs_balance_changes_succeed(2) [OF ok assms(2)] by blast
  obtain ch1 where 1: "m_grant_authorities (chain_methods rt) ?tok (ad_grant_mint d) (ad_grant_melt d) ch = (Inr (), ch1)"
      and r: "ready rt ch1"
    using ready_op [where g = "cs_grant_authorities rt ?tok (ad_grant_mint d) (ad_grant_melt d)", OF assms(1) cs] cs_grant_authorities_Inr(2) [OF ok(1) cs]
    by (fastforce simp: chain_methods_def balance_written_def)
  have ok: "cs_ok rt (ch_base ch1)" "\<not> cs_locked (ch_base ch1)" using r by (auto simp: ready_def ch_ok_def)
  obtain cs where cs: "cs_revoke_authorities rt ?tok (ad_revoke_mint d) (ad_revoke_melt d) (ch_base ch1) = (Inr (), cs)"
    using cs_balance_changes_succeed(3) [OF ok assms(2)] by blast
  obtain ch2 where "m_revoke_authorities (chain_methods rt) ?tok (ad_revoke_mint d) (ad_revoke_melt d) ch1 = (Inr (), ch2)"
      and "ready rt ch2"
    using ready_op [where g = "cs_revoke_authorities rt ?tok (ad_revoke_mint d) (ad_revoke_melt d)", OF r cs] cs_revoke_authorities_Inr(2) [OF ok(1) cs]
    by (fastforce simp: chain_methods_def balance_written_def)
  then show ?thesis using 1 by (simp add: flush_authorities_def sm_simps)
qed


definition balance_fits :: "runtime \<Rightarrow> nc_chain \<Rightarrow> trie_key \<times> int \<Rightarrow> bool" where
  "balance_fits rt ch i \<longleftrightarrow>
     0 \<le> bal_value (ch_balance rt ch (balance_key_token (fst i))) + snd i \<and>
     bal_value (ch_balance rt ch (balance_key_token (fst i))) + snd i < 2 ^ 223"

lemma flush_balances_succeeds:
  assumes "ready rt ch" and "distinct (map (\<lambda>i. balance_key_token (fst i)) items)"
    and "\<forall>i \<in> set items. balance_fits rt ch i"
  shows "\<exists>ch'. sfor items (\<lambda>(key, amount). m_add_balance (chain_methods rt) (balance_key_token key) amount) ch
           = (Inr (), ch') \<and> ready rt ch'"
  using assms
proof (induction items arbitrary: ch)
  case (Cons i items)
  obtain key amount where i: "i = (key, amount)" by (cases i)
  let ?tok = "balance_key_token key"
  have ok: "cs_ok rt (ch_base ch)" "\<not> cs_locked (ch_base ch)" "ch_layers ch = []" "ch_ok rt ch"
    using Cons.prems(1) by (auto simp: ready_def ch_ok_def)
  have fits: "0 \<le> bal_value (balance_of rt (ch_base ch) ?tok) + amount"
      "bal_value (balance_of rt (ch_base ch) ?tok) + amount < 2 ^ 223"
    using Cons.prems(3) i by (simp_all add: balance_fits_def ch_obs_base(3) [OF ok(3)])
  obtain cs where cs: "cs_add_balance rt ?tok amount (ch_base ch) = (Inr (), cs)"
    using cs_balance_changes_succeed(1) [OF ok(1,2) fits] by blast
  obtain ch1 where 1: "m_add_balance (chain_methods rt) ?tok amount ch = (Inr (), ch1)" and r: "ready rt ch1"
    using ready_op [where g = "cs_add_balance rt ?tok amount", OF Cons.prems(1) cs] cs_add_balance_Inr(2) [OF ok(1) cs]
    by (fastforce simp: chain_methods_def balance_written_def)
  have bal: "ch_balance rt ch1 tok = ch_balance rt ch tok" if "tok \<noteq> ?tok" for tok
    using chain_add [OF ok(4) 1] that by simp
  have "\<exists>ch'. sfor items (\<lambda>(key, amount). m_add_balance (chain_methods rt) (balance_key_token key) amount) ch1
           = (Inr (), ch') \<and> ready rt ch'"
  proof (rule Cons.IH [OF r])
    show "distinct (map (\<lambda>i. balance_key_token (fst i)) items)" using Cons.prems(2) by simp
    show "\<forall>j \<in> set items. balance_fits rt ch1 j"
    proof
      fix j
      assume j: "j \<in> set items"
      then have "balance_key_token (fst j) \<noteq> ?tok" using Cons.prems(2) i by (auto simp: image_iff)
      then show "balance_fits rt ch1 j" using bal j Cons.prems(3) by (simp add: balance_fits_def)
    qed
  qed
  then show ?case using 1 i by (simp add: sm_simps)
qed (simp add: sm_simps)

lemma flush_tokens_succeeds:
  assumes "ready rt ch"
    and "\<not> isl (to_bytes (set_order rt) TOKEN_DESCRIPTION_NC_TYPE (of_token_description td))"
  shows "\<exists>ch'. m_create_token (chain_methods rt) td ch = (Inr (), ch') \<and> ready rt ch'"
proof -
  obtain c where "to_bytes (set_order rt) TOKEN_DESCRIPTION_NC_TYPE (of_token_description td) = Inr c"
    using assms(2) by (cases "to_bytes (set_order rt) TOKEN_DESCRIPTION_NC_TYPE (of_token_description td)") auto
  then obtain bs where bs: "bs_create_token rt td (ch_block ch) = (Inr (), bs)" by (auto simp: bs_create_token_def)
  have "bs_ok rt bs" using bs_create_token_ok(1) [OF _ bs] assms(1) by (simp add: ready_def ch_ok_def)
  then show ?thesis using assms(1) bs by (simp add: chain_methods_def ch_create_token_def ready_def ch_ok_def)
qed

lemma flush_blueprint_succeeds:
  assumes "ready rt ch" and "\<not> isl (cs_serialize rt (Some (BytesV PlainBytes b)) (Some (BytesLikeNC PlainBytes)))"
  shows "\<exists>ch'. m_set_blueprint_id (chain_methods rt) b ch = (Inr (), ch') \<and> ready rt ch'"
proof -
  have ok: "cs_ok rt (ch_base ch)" "\<not> cs_locked (ch_base ch)" using assms(1) by (auto simp: ready_def ch_ok_def)
  obtain c where "cs_serialize rt (Some (BytesV PlainBytes b)) (Some (BytesLikeNC PlainBytes)) = Inr c"
    using assms(2) by (cases "cs_serialize rt (Some (BytesV PlainBytes b)) (Some (BytesLikeNC PlainBytes))") auto
  then obtain cs where cs: "cs_set_blueprint_id rt b (ch_base ch) = (Inr (), cs)"
    using ok(2) by (auto simp: cs_set_blueprint_id_def cs_put_metadata_def sm_simps trie_update_obj_def)
  show ?thesis
    using ready_op [where g = "cs_set_blueprint_id rt b", OF assms(1) cs] cs_set_blueprint_id_Inr [OF ok(1) cs]
    by (simp add: chain_methods_def)
qed

lemma check_positive_Inr:
  assumes "check_positive rt keys ts cs = Inr ()" and "key \<in> set keys"
  shows "\<exists>b. ct_get_balance rt (balance_key_token key) ts cs = Inr b \<and> 0 \<le> bal_value b"
  using assms
proof (induction keys)
  case (Cons k keys)
  then show ?case by (cases "ct_get_balance rt (balance_key_token k) ts cs") (auto split: if_splits)
qed simp


lemma validated_balance_fits:
  assumes ok: "ch_ok rt ch" and layers: "ch_layers ch = [t]"
    and validated: "validate_balances_are_positive rt t [] (ch_base ch) = Inr ()"
    and bounded: "\<forall>token_uid. bal_value (ch_balance rt ch token_uid) < 2 ^ 223"
    and i: "i \<in> set (ct_balance_diff t)"
  shows "balance_fits rt (ch\<lparr>ch_layers := []\<rparr>) i"
proof -
  obtain key amount where i': "i = (key, amount)" by (cases i)
  let ?tok = "balance_key_token key"
  have wf: "tracker_wf t" using ch_okD(3) [OF ok layers] .
  have "key = BalanceKey (ct_nc_id t) ?tok" using wf i i' by (auto simp: tracker_wf_def list_all_iff)
  moreover have "dict_get (ct_balance_diff t) key = Some amount"
    using wf i i' by (simp add: tracker_wf_def)
  ultimately have d: "balance_diff_of t ?tok = amount" by (metis balance_diff_of_def option.simps(5))
  obtain b where b: "ct_get_balance rt ?tok [t] (ch_base ch) = Inr b" "0 \<le> bal_value b"
    using check_positive_Inr [OF validated [unfolded validate_balances_are_positive_def], of key] i i' by force
  have "ch_balance rt ch ?tok = b" using b(1) layers by (simp add: ch_balance_def)
  moreover have "bal_value (ch_balance rt ch ?tok) = bal_value (ch_balance rt (ch\<lparr>ch_layers := []\<rparr>) ?tok) + amount"
    using ch_balance_layer [OF layers ch_okD(1) [OF ok]] d
    by (simp add: apply_diffs_def Let_def grant_balance_def revoke_balance_def)
  ultimately show ?thesis using b(2) bounded i' unfolding balance_fits_def
    by (metis fst_conv snd_conv)
qed



section \<open>Closed storages\<close>

text \<open>The newest object of the chain no longer accepts changes.\<close>

definition ch_closed :: "nc_chain \<Rightarrow> bool" where
  "ch_closed ch \<longleftrightarrow>
     (case ch_layers ch of [] \<Rightarrow> cs_locked (ch_base ch) | t # _ \<Rightarrow> ct_commited t \<or> ct_blocked t)"

definition refuses :: "(nc_chain, unit) sm \<Rightarrow> nc_chain \<Rightarrow> bool" where
  "refuses op ch \<longleftrightarrow> isl (fst (op ch)) \<and> snd (op ch) = ch"




section \<open>Sequence numbers\<close>

text \<open>Successive calls of \<open>set_address_seqnum\<close>, each caught when it raises; the calls that were accepted.\<close>

primrec set_seqnums :: "(bytes \<times> int) list \<Rightarrow> block_storage \<Rightarrow> (bytes \<times> int) list \<times> block_storage" where
  "set_seqnums [] bs = ([], bs)"
| "set_seqnums (c # cs) bs =
     (case bs_set_address_seqnum (fst c) (snd c) bs of
        (Inl e, bs') \<Rightarrow> set_seqnums cs bs'
      | (Inr _, bs') \<Rightarrow> (case set_seqnums cs bs' of (accepted, bs'') \<Rightarrow> (c # accepted, bs'')))"

definition seqnums_for :: "bytes \<Rightarrow> (bytes \<times> int) list \<Rightarrow> int list" where
  "seqnums_for address calls = map snd (filter (\<lambda>c. fst c = address) calls)"

lemma seqnums_for_simps [simp]:
  "seqnums_for a [] = []" "seqnums_for a (c # cs) = (if fst c = a then [snd c] else []) @ seqnums_for a cs"
  by (simp_all add: seqnums_for_def)

lemma set_seqnums_sorted:
  assumes "bs_ok rt bs" and "set_seqnums calls bs = (accepted, bs')"
  shows "bs_ok rt bs' \<and> sorted_wrt (<) (seqnum_of bs a # seqnums_for a accepted) \<and>
         seqnum_of bs' a = last (seqnum_of bs a # seqnums_for a accepted)"
  using assms
proof (induction calls arbitrary: bs accepted)
  case (Cons c calls)
  show ?case
  proof (cases "bs_set_address_seqnum (fst c) (snd c) bs")
    case (Pair r bs1)
    show ?thesis
    proof (cases r)
      case (Inl e)
      then have "bs1 = bs" using Pair bs_set_address_seqnum_eq [OF Cons.prems(1)] by (auto split: if_splits)
      then show ?thesis using Cons Pair Inl by simp
    next
      case (Inr u)
      obtain acc where acc: "set_seqnums calls bs1 = (acc, bs')" "accepted = c # acc"
        using Cons.prems(2) Pair Inr by (auto split: prod.splits)
      note set = bs_set_address_seqnum_ok [OF Cons.prems(1) Pair [unfolded Inr]]
      have "sorted_wrt (<) (seqnum_of bs1 a # seqnums_for a acc)" "bs_ok rt bs'"
          "seqnum_of bs' a = last (seqnum_of bs1 a # seqnums_for a acc)"
        using Cons.IH [OF set(1) acc(1)] by blast+
      then show ?thesis using set(2,3) acc(2) by (cases "fst c = a") force+
    qed
  qed
qed simp

text \<open>
  C25. The sequence numbers accepted for an address strictly increase. Whatever calls of
  \<open>set_address_seqnum\<close> are made on the storage of a block, with any addresses in any order, for each
  address the numbers that were accepted grow, and \<open>get_address_seqnum\<close> returns the last of them, or -1
  when there is none: no number is accepted twice.
\<close>

theorem seqnums_strictly_increase:
  assumes "bs_ok rt bs" and "bs_get_address_seqnum a bs = Inr (- 1)"
  shows "sorted_wrt (<) (seqnums_for a (fst (set_seqnums calls bs))) \<and>
         bs_get_address_seqnum a (snd (set_seqnums calls bs)) =
           Inr (last (- 1 # seqnums_for a (fst (set_seqnums calls bs))))"
proof -
  have "seqnum_of bs a = - 1" using assms(2) by (simp add: seqnum_of_def)
  then show ?thesis
    using set_seqnums_sorted [OF assms(1) surjective_pairing, of calls a]
      bs_get_address_seqnum_ok(1) [of rt "snd (set_seqnums calls bs)" a] by simp
qed

lemma bs_ok_empty: "bs_ok rt \<lparr>bs_trie = pempty, bs_store = st\<rparr>"
  by (simp add: bs_ok_def ptrie_ok_def ptrie_get_def)

theorem seqnums_strictly_increase_witness:
  "let r = set_seqnums [([1], 0), ([1], 300), ([1], 300), ([2], 5), ([1], 7)] \<lparr>bs_trie = pempty, bs_store = []\<rparr>
   in fst r = [([1], 0), ([1], 300), ([2], 5)] \<and> bs_get_address_seqnum [1] (snd r) = Inr 300"
proof -
  let ?calls = "[([1], 0), ([1], 300), ([1], 300), ([2], 5), ([1], 7)] :: (bytes \<times> int) list"
  let ?bs = "\<lparr>bs_trie = pempty, bs_store = []\<rparr>"
  have "fst (set_seqnums ?calls ?bs) = [([1], 0), ([1], 300), ([2], 5)]" by code_simp
  moreover have "bs_get_address_seqnum [1] ?bs = Inr (- 1)" by code_simp
  ultimately show ?thesis
    using seqnums_strictly_increase [OF bs_ok_empty [of plain_runtime "[]"], of "[1]" ?calls] by simp
qed

section \<open>Storing a contract and opening it again\<close>

text \<open>What the runner does with the storage of a contract at the end of a call.\<close>

definition save_contract :: "runtime \<Rightarrow> contract_storage \<Rightarrow> (block_storage, unit) sm" where
  "save_contract rt cs =
     sthen (cs_commit rt cs) (bs_update_contract_trie (cs_nc_id cs) (cs_get_root_id rt cs))"



end
