(* ===== verification/Token_Amounts.thy ===== *)
theory Token_Amounts
  imports Block_Storage
begin

text \<open>
  Amounts of tokens (\<^verbatim>\<open>hathor/transaction/util.py\<close>, \<^verbatim>\<open>hathor/transaction/token_info.py\<close>,
  \<^verbatim>\<open>hathor/nanocontracts/runner/token_fees.py\<close>): deposits and withdrawals of deposit tokens, fees, and
  the names and symbols of tokens. The deposit is computed in floating point; the model has the exact
  rounding of the products.
\<close>

section \<open>Floating point\<close>

text \<open>
  A double is an integer of at most 53 bits times a power of two. The operations below round an integer
  \<open>m\<close>, which stands for \<open>m\<close> times a fixed power of two, to the nearest double, ties to even. The range of
  the exponent is not a limit at these magnitudes but for the conversion of an integer of 1024 bits or more.
\<close>

fun bit_length :: "nat \<Rightarrow> nat" where
  "bit_length n = (if n = 0 then 0 else Suc (bit_length (n div 2)))"

definition round_half_even :: "nat \<Rightarrow> nat \<Rightarrow> nat" where
  "round_half_even m d =
     (let q = m div d; r = m mod d
      in if 2 * r < d \<or> (2 * r = d \<and> even q) then q else Suc q)"

definition round_double :: "nat \<Rightarrow> nat" where
  "round_double m = (let k = bit_length m - 53 in round_half_even m (2 ^ k) * 2 ^ k)"

text \<open>\<open>TOKEN_DEPOSIT_PERCENTAGE = 0.01\<close>: the nearest double, as a multiple of \<open>2 ^ - 59\<close>.\<close>

definition TOKEN_DEPOSIT_PERCENTAGE :: nat where
  "TOKEN_DEPOSIT_PERCENTAGE = 5764607523034235"

text \<open>\<^verbatim>\<open>abs(settings.TOKEN_DEPOSIT_PERCENTAGE * amount)\<close>, as a multiple of \<open>2 ^ - 59\<close>.\<close>

definition deposit_product :: "int \<Rightarrow> exc + nat" where
  "deposit_product amount =
     (let a = round_double (nat \<bar>amount\<bar>)
      in if 1024 < bit_length a then Inl OverflowError
         else Inr (round_double (a * TOKEN_DEPOSIT_PERCENTAGE)))"

definition get_deposit_token_deposit_amount :: "int \<Rightarrow> exc + int" where
  "get_deposit_token_deposit_amount mint_amount =
     (case deposit_product mint_amount of
        Inl e \<Rightarrow> Inl e | Inr p \<Rightarrow> Inr (int ((p + (2 ^ 59 - 1)) div 2 ^ 59)))"

definition get_deposit_token_withdraw_amount :: "int \<Rightarrow> exc + int" where
  "get_deposit_token_withdraw_amount melt_amount =
     (case deposit_product melt_amount of Inl e \<Rightarrow> Inl e | Inr p \<Rightarrow> Inr (int (p div 2 ^ 59)))"

text \<open>
  \<^verbatim>\<open>1 / TOKEN_DEPOSIT_PERCENTAGE\<close>, as a multiple of \<open>2 ^ - 46\<close>, has 53 bits; \<open>FEE_DIVISOR\<close> asserts that it is
  an integer.
\<close>

definition one_by_percentage :: nat where
  "one_by_percentage = round_half_even (2 ^ 59 * 2 ^ 46) TOKEN_DEPOSIT_PERCENTAGE"

definition FEE_DIVISOR :: "exc + int" where
  "FEE_DIVISOR =
     (if one_by_percentage mod 2 ^ 46 = 0 then Inr (int (one_by_percentage div 2 ^ 46)) else Inl AssertionError)"

definition FEE_PER_OUTPUT :: int where
  "FEE_PER_OUTPUT = 1"

text \<open>\<^verbatim>\<open>int(FEE_PER_OUTPUT / TOKEN_DEPOSIT_PERCENTAGE)\<close>.\<close>

definition unit_fee_in_tokens :: int where
  "unit_fee_in_tokens = int (one_by_percentage div 2 ^ 46)"

section \<open>Fees\<close>

definition validate_fee_amount :: "bytes \<Rightarrow> int \<Rightarrow> exc + unit" where
  "validate_fee_amount token_uid amount =
     (if amount \<le> 0 then Inl InvalidFeeAmount
      else if token_uid = HATHOR_TOKEN_UID then Inr ()
      else case FEE_DIVISOR of
             Inl e \<Rightarrow> Inl e
           | Inr d \<Rightarrow> if amount mod d \<noteq> 0 then Inl InvalidFeeAmount else Inr ())"

record nc_fee =
  fee_token_uid :: bytes
  fee_amount :: int

definition get_htr_value :: "nc_fee \<Rightarrow> exc + int" where
  "get_htr_value fee =
     (if fee_token_uid fee = HATHOR_TOKEN_UID then Inr (fee_amount fee)
      else get_deposit_token_withdraw_amount (fee_amount fee))"

definition validate_deposit_based_payment_token :: "token_description \<Rightarrow> exc + unit" where
  "validate_deposit_based_payment_token fee_payment_token =
     (if td_token_id fee_payment_token \<noteq> HATHOR_TOKEN_UID then Inl NCInvalidFeePaymentToken else Inr ())"

definition validate_fee_based_payment_token :: "token_description \<Rightarrow> exc + unit" where
  "validate_fee_based_payment_token fee_payment_token =
     (case td_token_version fee_payment_token of FEE \<Rightarrow> Inl NCInvalidFeePaymentToken | _ \<Rightarrow> Inr ())"

definition calculate_unit_fee_token_fee :: "token_description \<Rightarrow> int" where
  "calculate_unit_fee_token_fee fee_payment_token =
     (if td_token_id fee_payment_token = HATHOR_TOKEN_UID then FEE_PER_OUTPUT else unit_fee_in_tokens)"

definition calculate_mint_fee :: "token_version \<Rightarrow> int \<Rightarrow> token_description \<Rightarrow> exc + int" where
  "calculate_mint_fee token_version amount fee_payment_token =
     (case token_version of
        NATIVE \<Rightarrow> Inl AssertionError
      | DEPOSIT \<Rightarrow>
          (case validate_deposit_based_payment_token fee_payment_token of
             Inl e \<Rightarrow> Inl e
           | Inr _ \<Rightarrow> map_sum (\<lambda>e. e) uminus (get_deposit_token_deposit_amount amount))
      | FEE \<Rightarrow>
          (case validate_fee_based_payment_token fee_payment_token of
             Inl e \<Rightarrow> Inl e
           | Inr _ \<Rightarrow> Inr (- calculate_unit_fee_token_fee fee_payment_token)))"

definition calculate_melt_fee :: "token_version \<Rightarrow> int \<Rightarrow> token_description \<Rightarrow> exc + int" where
  "calculate_melt_fee token_version amount fee_payment_token =
     (case token_version of
        NATIVE \<Rightarrow> Inl AssertionError
      | DEPOSIT \<Rightarrow>
          (case validate_deposit_based_payment_token fee_payment_token of
             Inl e \<Rightarrow> Inl e
           | Inr _ \<Rightarrow> get_deposit_token_withdraw_amount amount)
      | FEE \<Rightarrow>
          (case validate_fee_based_payment_token fee_payment_token of
             Inl e \<Rightarrow> Inl e
           | Inr _ \<Rightarrow> Inr (- calculate_unit_fee_token_fee fee_payment_token)))"

section \<open>Rounding\<close>

declare bit_length.simps [simp del]

lemma bit_length_less: "n < 2 ^ bit_length n"
proof (induction n rule: bit_length.induct)
  case (1 n)
  show ?case
  proof (cases "n = 0")
    case False
    then have "n div 2 < 2 ^ bit_length (n div 2)" by (rule 1)
    then show ?thesis using False by (subst bit_length.simps) auto
  qed simp
qed

lemma bit_length_le: "0 < n \<Longrightarrow> 2 ^ (bit_length n - 1) \<le> n"
proof (induction n rule: bit_length.induct)
  case (1 n)
  show ?case
  proof (cases "n div 2 = 0")
    case True
    then have "n = 1" using 1(2) by linarith
    then show ?thesis by (simp add: bit_length.simps)
  next
    case False
    then have "2 ^ (bit_length (n div 2) - 1) \<le> n div 2" using 1 by simp
    moreover have "bit_length n = Suc (bit_length (n div 2))" using 1(2) by (subst bit_length.simps) simp
    moreover have "0 < bit_length (n div 2)" using False by (subst bit_length.simps) simp
    ultimately show ?thesis by (cases "bit_length (n div 2)") auto
  qed
qed

lemma bit_length_le_iff: "bit_length n \<le> k \<longleftrightarrow> n < 2 ^ k"
proof
  assume "bit_length n \<le> k"
  then have "(2::nat) ^ bit_length n \<le> 2 ^ k" by (intro power_increasing) simp_all
  then show "n < 2 ^ k" using bit_length_less [of n] by linarith
next
  assume n: "n < 2 ^ k"
  show "bit_length n \<le> k"
  proof (rule ccontr)
    assume less: "\<not> bit_length n \<le> k"
    then have "(2::nat) ^ k \<le> 2 ^ (bit_length n - 1)" by (intro power_increasing) simp_all
    moreover have "0 < n" using less by (metis bit_length.simps gr0I le0)
    ultimately show False using n bit_length_le [of n] by linarith
  qed
qed

text \<open>A multiple of the unit is not crossed; one within less than half a unit is the result.\<close>

lemma round_half_even_mono:
  assumes "0 < d"
  shows "j * d \<le> m \<Longrightarrow> j \<le> round_half_even m d" and "m \<le> j * d \<Longrightarrow> round_half_even m d \<le> j"
proof -
  have m: "m = d * (m div d) + m mod d" "m mod d < d" using assms by simp_all
  show "j \<le> round_half_even m d" if "j * d \<le> m"
  proof -
    have "j \<le> m div d" using that assms by (simp add: less_eq_div_iff_mult_less_eq)
    then show ?thesis by (simp add: round_half_even_def Let_def)
  qed
  show "round_half_even m d \<le> j" if "m \<le> j * d"
  proof (cases "m mod d = 0")
    case True
    then have "m div d * d \<le> j * d" using that by auto
    then have "m div d \<le> j" using assms by simp
    then show ?thesis using True assms by (simp add: round_half_even_def Let_def)
  next
    case False
    then have "d * (m div d) < m" using m(1) by linarith
    then have "m div d * d < m" by (simp add: mult.commute)
    then have "m div d * d < j * d" using that by linarith
    then have "m div d < j" by simp
    then show ?thesis by (simp add: round_half_even_def Let_def)
  qed
qed

lemma round_half_even_near:
  assumes "0 < d"
  shows "j * d \<le> m \<Longrightarrow> 2 * (m - j * d) < d \<Longrightarrow> round_half_even m d = j"
    and "j * d < m \<Longrightarrow> d < 2 * (m - j * d) \<Longrightarrow> j < round_half_even m d"
    and "m < j * d \<Longrightarrow> d < 2 * (j * d - m) \<Longrightarrow> round_half_even m d < j"
proof -
  show "round_half_even m d = j" if "j * d \<le> m" "2 * (m - j * d) < d"
  proof -
    have "m div d = j" using that assms by (intro div_nat_eqI) (auto simp: algebra_simps)
    moreover have "m mod d = m - j * d" using calculation by (metis minus_mult_div_eq_mod mult.commute)
    ultimately show ?thesis using that by (simp add: round_half_even_def Let_def)
  qed
  show "j < round_half_even m d" if "j * d < m" "d < 2 * (m - j * d)"
  proof (cases "m div d = j")
    case True
    then have "m mod d = m - j * d" by (metis minus_mult_div_eq_mod mult.commute)
    then show ?thesis using that True by (simp add: round_half_even_def Let_def)
  next
    case False
    have "j \<le> m div d" using that(1) assms by (simp add: less_eq_div_iff_mult_less_eq)
    then show ?thesis using False by (simp add: round_half_even_def Let_def)
  qed
  show "round_half_even m d < j" if "m < j * d" "d < 2 * (j * d - m)"
  proof -
    have less: "m div d < j" using that(1) assms by (simp add: div_less_iff_less_mult)
    show ?thesis
    proof (cases "Suc (m div d) = j")
      case True
      have "m div d * d + m mod d = m" "j * d = m div d * d + d" using True by auto
      then have "2 * (m mod d) < d" using that(2) by linarith
      then show ?thesis using less by (simp add: round_half_even_def Let_def)
    next
      case False
      then show ?thesis using less by (auto simp: round_half_even_def Let_def)
    qed
  qed
qed

lemma round_double_small:
  assumes "m < 2 ^ 53"
  shows "round_double m = m"
proof -
  have "bit_length m - 53 = 0" using assms by (simp only: bit_length_le_iff diff_is_0_eq)
  then show ?thesis by (simp add: round_double_def round_half_even_def)
qed

lemma round_double_at:
  assumes "2 ^ (52 + k) \<le> m" and "m < 2 ^ (53 + k)"
  shows "round_double m = round_half_even m (2 ^ k) * 2 ^ k"
proof -
  have "\<not> bit_length m \<le> 52 + k" "bit_length m \<le> 53 + k" using assms by (simp_all only: bit_length_le_iff not_less)
  then have "bit_length m - 53 = k" by simp
  then show ?thesis by (simp add: round_double_def)
qed

text \<open>The unit of the last place of a product, and where the product is with respect to it.\<close>

lemma round_double_unit:
  assumes "0 < m" and "m < 2 ^ 106"
  obtains k where "k \<le> 53" and "round_double m = round_half_even m (2 ^ k) * 2 ^ k"
    and "m < 2 ^ (53 + k)" and "k = 0 \<or> 2 ^ (52 + k) \<le> m"
proof
  let ?k = "bit_length m - 53"
  have "bit_length m \<le> 106" using assms(2) by (simp add: bit_length_le_iff)
  then show "?k \<le> 53" by simp
  show "round_double m = round_half_even m (2 ^ ?k) * 2 ^ ?k" by (simp add: round_double_def Let_def)
  have "bit_length m \<le> 53 + ?k" by simp
  then show "m < 2 ^ (53 + ?k)" by (simp only: bit_length_le_iff)
  show "?k = 0 \<or> 2 ^ (52 + ?k) \<le> m"
  proof (cases "?k = 0")
    case False
    then have "52 + ?k = bit_length m - 1" by simp
    then show ?thesis using bit_length_le [OF assms(1)] by simp
  qed simp
qed

text \<open>
  The product for \<open>100 * q + r\<close> is \<open>q\<close> and \<open>r\<close> hundredths, a little more: \<open>100\<close> times the percentage is
  \<open>2 ^ 59 + 12\<close>.
\<close>

lemma hundred_percentage: "TOKEN_DEPOSIT_PERCENTAGE * (100 * q + r) = q * 2 ^ 59 + 12 * q + r * TOKEN_DEPOSIT_PERCENTAGE"
  by (simp add: TOKEN_DEPOSIT_PERCENTAGE_def)

lemma round_product_at_unit:
  fixes q r k :: nat
  assumes q: "q \<le> 90071992547409" and r: "r < 100" and k: "k \<le> 53"
    and m: "m = q * 2 ^ 59 + 12 * q + r * TOKEN_DEPOSIT_PERCENTAGE" and less: "m < 2 ^ (53 + k)"
  defines "d \<equiv> 2 ^ k :: nat" and "j \<equiv> q * 2 ^ (59 - k)"
  shows "j \<le> round_half_even m d" and "round_half_even m d < j + 2 ^ (59 - k)"
    and "round_half_even m d = j \<longleftrightarrow> r = 0"
    and "j * d = q * 2 ^ 59" and "(j + 2 ^ (59 - k)) * d = (q + 1) * 2 ^ 59"
proof -
  have "(2 :: nat) ^ k \<le> 2 ^ 53" using k by (intro power_increasing) simp_all
  then have d: "0 < d" "d \<le> 2 ^ 53" by (simp_all add: d_def)
  have split: "(2::nat) ^ 59 = 2 ^ (59 - k) * d" using k by (simp add: d_def flip: power_add)
  have "j * d = q * (2 ^ (59 - k) * d)" "(j + 2 ^ (59 - k)) * d = (q + 1) * (2 ^ (59 - k) * d)"
    by (simp_all add: j_def algebra_simps)
  then show j: "j * d = q * 2 ^ 59" "(j + 2 ^ (59 - k)) * d = (q + 1) * 2 ^ 59" by (simp_all only: split)
  show "j \<le> round_half_even m d" by (rule round_half_even_mono(1) [OF d(1)]) (simp add: j m)
  show "round_half_even m d < j + 2 ^ (59 - k)"
  proof (rule round_half_even_near(3) [OF d(1)])
    show "m < (j + 2 ^ (59 - k)) * d" unfolding j using r q by (simp add: m TOKEN_DEPOSIT_PERCENTAGE_def)
    show "d < 2 * ((j + 2 ^ (59 - k)) * d - m)"
      unfolding j using r q d(2) by (simp add: m TOKEN_DEPOSIT_PERCENTAGE_def)
  qed
  have exact: "round_half_even m d = j" if "r = 0"
  proof (rule round_half_even_near(1) [OF d(1)])
    show "j * d \<le> m" by (simp add: j m)
    have "q * 2 ^ 59 < 2 ^ (53 + k)" using less by (simp add: m)
    then have "q * 2 ^ 6 < d" by (simp add: d_def power_add)
    then show "2 * (m - j * d) < d" using that by (simp add: j m)
  qed
  have above: "j < round_half_even m d" if "r \<noteq> 0"
  proof (rule round_half_even_near(2) [OF d(1)])
    have "1 * TOKEN_DEPOSIT_PERCENTAGE \<le> r * TOKEN_DEPOSIT_PERCENTAGE" using that by (intro mult_le_mono1) simp
    then have "q * 2 ^ 59 + TOKEN_DEPOSIT_PERCENTAGE \<le> m" unfolding m by linarith
    then show "j * d < m" "d < 2 * (m - j * d)" using d(2) by (simp_all add: j TOKEN_DEPOSIT_PERCENTAGE_def)
  qed
  show "round_half_even m d = j \<longleftrightarrow> r = 0" using exact above by force
qed

lemma round_deposit_product:
  fixes q r :: nat
  assumes amount: "100 * q + r \<le> 2 ^ 53" and r: "r < 100"
  defines "m \<equiv> TOKEN_DEPOSIT_PERCENTAGE * (100 * q + r)"
  shows "q * 2 ^ 59 \<le> round_double m \<and> round_double m < (q + 1) * 2 ^ 59 \<and> (round_double m = q * 2 ^ 59 \<longleftrightarrow> r = 0)"
proof (cases "m = 0")
  case True
  then have "q = 0" "r = 0" by (auto simp: m_def TOKEN_DEPOSIT_PERCENTAGE_def)
  then show ?thesis using True by (simp add: round_double_small)
next
  case False
  have "m \<le> TOKEN_DEPOSIT_PERCENTAGE * 2 ^ 53" unfolding m_def by (rule mult_le_mono2 [OF amount])
  also have "TOKEN_DEPOSIT_PERCENTAGE * 2 ^ 53 < 2 ^ 106" by (simp add: TOKEN_DEPOSIT_PERCENTAGE_def)
  finally obtain k where k: "k \<le> 53" "round_double m = round_half_even m (2 ^ k) * 2 ^ k" "m < 2 ^ (53 + k)"
    using False by (metis neq0_conv round_double_unit)
  have q: "q \<le> 90071992547409" using amount by simp
  note u = round_product_at_unit [OF q r k(1) hundred_percentage [of q r, folded m_def] k(3)]
  have "q * 2 ^ (59 - k) * 2 ^ k \<le> round_half_even m (2 ^ k) * 2 ^ k"
      "round_half_even m (2 ^ k) * 2 ^ k < (q * 2 ^ (59 - k) + 2 ^ (59 - k)) * 2 ^ k"
      "round_half_even m (2 ^ k) * 2 ^ k = q * 2 ^ (59 - k) * 2 ^ k \<longleftrightarrow> r = 0"
    using u(1-3) by simp_all
  then show ?thesis unfolding u(4,5) k(2) by blast
qed

lemma deposit_product_small:
  assumes "\<bar>amount\<bar> \<le> 2 ^ 53"
  defines "n \<equiv> nat \<bar>amount\<bar>"
  shows "\<exists>p. deposit_product amount = Inr p \<and> n div 100 * 2 ^ 59 \<le> p \<and> p < (n div 100 + 1) * 2 ^ 59 \<and>
           (p = n div 100 * 2 ^ 59 \<longleftrightarrow> n mod 100 = 0)"
proof -
  have n: "n \<le> 2 ^ 53" using assms by (simp add: n_def nat_le_iff)
  have exact: "round_double n = n"
  proof (cases "n = 2 ^ 53")
    case True
    then show ?thesis using round_double_at [of 1 "2 ^ 53"] by (simp add: round_half_even_def)
  next
    case False
    then show ?thesis using n by (intro round_double_small) simp
  qed
  have "bit_length n \<le> 54" using n by (simp add: bit_length_le_iff)
  then have p: "deposit_product amount = Inr (round_double (TOKEN_DEPOSIT_PERCENTAGE * n))"
    using exact by (simp add: deposit_product_def Let_def n_def mult.commute)
  have "100 * (n div 100) + n mod 100 = n" by simp
  then show ?thesis
    using round_deposit_product [of "n div 100" "n mod 100"] n p by simp
qed

text \<open>
  C31. Up to \<open>2 ^ 53\<close> the floating point computation of the deposit is exact: the deposit for minting an
  amount is one hundredth of it rounded up, and what melting returns is one hundredth rounded down.
\<close>

theorem deposit_amounts_exact:
  assumes "0 \<le> amount" and "amount \<le> 2 ^ 53"
  shows "get_deposit_token_deposit_amount amount = Inr ((amount + 99) div 100) \<and>
         get_deposit_token_withdraw_amount amount = Inr (amount div 100)"
proof -
  define n where "n = nat \<bar>amount\<bar>"
  obtain p where p: "deposit_product amount = Inr p" "n div 100 * 2 ^ 59 \<le> p" "p < (n div 100 + 1) * 2 ^ 59"
      "p = n div 100 * 2 ^ 59 \<longleftrightarrow> n mod 100 = 0"
    using deposit_product_small [of amount] assms unfolding n_def by auto
  have floor: "p div 2 ^ 59 = n div 100" using p(2,3) by (intro div_nat_eqI) (simp_all add: mult.commute)
  have "(p + (2 ^ 59 - 1)) div 2 ^ 59 = (n + 99) div 100"
  proof (cases "n mod 100 = 0")
    case True
    then have "p = n div 100 * 2 ^ 59" using p(4) by simp
    moreover have "(n + 99) div 100 = n div 100"
      using True mult_div_mod_eq [of 100 n] by (intro div_nat_eqI) (linarith, simp only: mult_Suc_right)
    ultimately show ?thesis by simp
  next
    case False
    then have "n div 100 * 2 ^ 59 < p" using p(2,4) by linarith
    then have "(p + (2 ^ 59 - 1)) div 2 ^ 59 = n div 100 + 1" using p(3) by (intro div_nat_eqI) (simp_all add: mult.commute)
    moreover have "(n + 99) div 100 = n div 100 + 1"
    proof (rule div_nat_eqI)
      define q r where "q = n div 100" and "r = n mod 100"
      then have n: "n = 100 * q + r" "r < 100" "0 < r" using False by simp_all
      show "100 * (n div 100 + 1) \<le> n + 99" unfolding q_def [symmetric] using n by simp
      show "n + 99 < 100 * Suc (n div 100 + 1)" unfolding q_def [symmetric] using n by simp
    qed
    ultimately show ?thesis by simp
  qed
  moreover have "int n = amount" using assms by (simp add: n_def)
  ultimately show ?thesis
    using p(1) floor by (simp add: get_deposit_token_deposit_amount_def get_deposit_token_withdraw_amount_def zdiv_int)
qed

theorem deposit_amounts_exact_witness:
  "get_deposit_token_deposit_amount 12345678901 = Inr 123456790 \<and> get_deposit_token_withdraw_amount 12345678901 = Inr 123456789"
  using deposit_amounts_exact [of 12345678901] by simp

text \<open>
  Beyond, the result depends on the rounding: melting may return more than one hundredth, and more in one
  piece than was deposited for its parts.
\<close>

text \<open>Evaluating the product for a given amount.\<close>

lemma deposit_product_evalI:
  assumes "2 ^ (52 + k) \<le> nat \<bar>amount\<bar>" "nat \<bar>amount\<bar> < 2 ^ (53 + k)"
    and "round_half_even (nat \<bar>amount\<bar>) (2 ^ k) * 2 ^ k = a" and "a < 2 ^ 1024"
    and "2 ^ (52 + l) \<le> a * TOKEN_DEPOSIT_PERCENTAGE" "a * TOKEN_DEPOSIT_PERCENTAGE < 2 ^ (53 + l)"
    and "round_half_even (a * TOKEN_DEPOSIT_PERCENTAGE) (2 ^ l) * 2 ^ l = p"
  shows "deposit_product amount = Inr p"
proof -
  have "\<not> 1024 < bit_length a" unfolding not_less bit_length_le_iff by (rule assms(4))
  then show ?thesis
    using round_double_at [OF assms(1,2)] round_double_at [OF assms(5,6)] assms(3,7)
    by (simp add: deposit_product_def Let_def)
qed


end
