(* ===== verification/Token_Names.thy ===== *)
theory Token_Names
  imports Token_Amounts
begin

text \<open>
  Names and symbols of tokens (\<^verbatim>\<open>hathor/transaction/util.py\<close>) and the ids derived from them
  (\<^verbatim>\<open>hathor/nanocontracts/utils.py\<close>). The upper case of a string comes from the Unicode tables of the
  runtime: it is \<open>str_upper\<close>.
\<close>

section \<open>Cleaning up a string\<close>

text \<open>The characters that \<^verbatim>\<open>\s\<close> and \<^verbatim>\<open>strip\<close> take as white space.\<close>

definition is_space :: "nat \<Rightarrow> bool" where
  "is_space c \<longleftrightarrow>
     9 \<le> c \<and> c \<le> 13 \<or> 28 \<le> c \<and> c \<le> 32 \<or> c = 133 \<or> c = 160 \<or> c = 5760 \<or> 8192 \<le> c \<and> c \<le> 8202 \<or>
     c = 8232 \<or> c = 8233 \<or> c = 8239 \<or> c = 8287 \<or> c = 12288"

text \<open>\<^verbatim>\<open>re.sub(r'\s\s+', ' ', string)\<close>: a run of two or more becomes one space; a single one stays.\<close>

function collapse_spaces :: "ustring \<Rightarrow> ustring" where
  "collapse_spaces [] = []"
| "collapse_spaces (c # cs) =
     (if is_space c \<and> cs \<noteq> [] \<and> is_space (hd cs) then 32 # collapse_spaces (dropWhile is_space cs)
      else c # collapse_spaces cs)"
  by pat_completeness auto
termination
  by (relation "measure length") (auto intro: le_less_trans [OF length_dropWhile_le])

definition strip :: "ustring \<Rightarrow> ustring" where
  "strip s = rev (dropWhile is_space (rev (dropWhile is_space s)))"

definition clean_token_string :: "runtime \<Rightarrow> ustring \<Rightarrow> ustring" where
  "clean_token_string rt string = str_upper rt (strip (collapse_spaces string))"

abbreviation MAX_LENGTH_TOKEN_NAME :: nat where "MAX_LENGTH_TOKEN_NAME \<equiv> 30"
abbreviation MAX_LENGTH_TOKEN_SYMBOL :: nat where "MAX_LENGTH_TOKEN_SYMBOL \<equiv> 5"

definition HATHOR_TOKEN_NAME :: ustring where "HATHOR_TOKEN_NAME = ustr ''Hathor''"
definition HATHOR_TOKEN_SYMBOL :: ustring where "HATHOR_TOKEN_SYMBOL = ustr ''HTR''"

definition validate_token_name_and_symbol :: "runtime \<Rightarrow> ustring \<Rightarrow> ustring \<Rightarrow> exc + unit" where
  "validate_token_name_and_symbol rt token_name token_symbol =
     (if length token_name = 0 \<or> MAX_LENGTH_TOKEN_NAME < length token_name then Inl TransactionDataError
      else if length token_symbol = 0 \<or> MAX_LENGTH_TOKEN_SYMBOL < length token_symbol then Inl TransactionDataError
      else if clean_token_string rt token_name = clean_token_string rt HATHOR_TOKEN_NAME then Inl TransactionDataError
      else if clean_token_string rt token_symbol = clean_token_string rt HATHOR_TOKEN_SYMBOL then Inl TransactionDataError
      else Inr ())"

section \<open>Derived ids\<close>

definition CHILD_CONTRACT_ID_PREFIX :: bytes where
  "CHILD_CONTRACT_ID_PREFIX = map of_nat (ustr ''child-contract'')"

definition CHILD_TOKEN_ID_PREFIX :: bytes where
  "CHILD_TOKEN_ID_PREFIX = map of_nat (ustr ''child-token'')"

definition derive_child_contract_id :: "runtime \<Rightarrow> bytes \<Rightarrow> bytes \<Rightarrow> bytes \<Rightarrow> bytes" where
  "derive_child_contract_id rt parent_id salt blueprint_id =
     sha256 rt (CHILD_CONTRACT_ID_PREFIX @ parent_id @ salt @ blueprint_id)"

definition derive_child_token_id :: "runtime \<Rightarrow> bytes \<Rightarrow> ustring \<Rightarrow> bytes \<Rightarrow> exc + bytes" where
  "derive_child_token_id rt parent_id token_symbol salt =
     (case utf8_encode token_symbol of
        Inl e \<Rightarrow> Inl e
      | Inr symbol \<Rightarrow> Inr (sha256 rt (CHILD_TOKEN_ID_PREFIX @ parent_id @ salt @ symbol)))"

section \<open>Properties\<close>

text \<open>No two white space characters in a row, and none at the ends.\<close>

fun no_double_space :: "ustring \<Rightarrow> bool" where
  "no_double_space (a # b # s) \<longleftrightarrow> \<not> (is_space a \<and> is_space b) \<and> no_double_space (b # s)"
| "no_double_space s \<longleftrightarrow> True"

definition tidy :: "ustring \<Rightarrow> bool" where
  "tidy s \<longleftrightarrow> no_double_space s \<and> (s \<noteq> [] \<longrightarrow> \<not> is_space (hd s) \<and> \<not> is_space (last s))"

lemma is_space_32 [simp]: "is_space 32"
  by (simp add: is_space_def)

lemma collapse_spaces_hd: "cs \<noteq> [] \<Longrightarrow> \<not> is_space (hd cs) \<Longrightarrow> hd (collapse_spaces cs) = hd cs \<and> collapse_spaces cs \<noteq> []"
  by (cases cs) auto

lemma no_double_space_Cons:
  "no_double_space (a # s) \<longleftrightarrow> (s = [] \<or> \<not> (is_space a \<and> is_space (hd s)) \<and> no_double_space s)"
  by (cases s) auto

lemma no_double_space_collapse: "no_double_space (collapse_spaces s)"
proof (induction s rule: collapse_spaces.induct)
  case (2 c cs)
  show ?case
  proof (cases "is_space c \<and> cs \<noteq> [] \<and> is_space (hd cs)")
    case True
    let ?r = "dropWhile is_space cs"
    have "?r = [] \<or> \<not> is_space (hd ?r)" using hd_dropWhile by blast
    then show ?thesis
    proof (cases ?r)
      case Nil
      then show ?thesis using True by (simp del: dropWhile_eq_Nil_conv)
    next
      case (Cons a r)
      then have "hd (collapse_spaces ?r) = a" "\<not> is_space a"
        using \<open>?r = [] \<or> \<not> is_space (hd ?r)\<close> collapse_spaces_hd [of ?r] by simp_all
      then show ?thesis using 2(1) [OF True] True by (simp add: no_double_space_Cons)
    qed
  next
    case False
    then show ?thesis using 2(2) [OF False] collapse_spaces_hd [of cs]
      by (cases "cs = []") (auto simp: no_double_space_Cons)
  qed
qed simp

lemma collapse_spaces_id: "no_double_space s \<Longrightarrow> collapse_spaces s = s"
  by (induction s rule: collapse_spaces.induct) (auto simp: no_double_space_Cons)

lemma no_double_space_dropWhile: "no_double_space s \<Longrightarrow> no_double_space (dropWhile is_space s)"
  by (induction s) (auto simp: no_double_space_Cons)

lemma no_double_space_append:
  "no_double_space (s @ t) \<longleftrightarrow>
     no_double_space s \<and> no_double_space t \<and> (s \<noteq> [] \<longrightarrow> t \<noteq> [] \<longrightarrow> \<not> (is_space (last s) \<and> is_space (hd t)))"
  by (induction s) (auto simp: no_double_space_Cons)

lemma no_double_space_rev [simp]: "no_double_space (rev s) \<longleftrightarrow> no_double_space s"
  by (induction s) (auto simp: no_double_space_append no_double_space_Cons last_rev)

lemma tidy_strip:
  assumes "no_double_space s"
  shows "tidy (strip s)"
proof -
  let ?t = "dropWhile is_space s"
  let ?u = "dropWhile is_space (rev ?t)"
  have 1: "no_double_space ?u" using assms by (simp add: no_double_space_dropWhile)
  have 2: "?u \<noteq> [] \<Longrightarrow> \<not> is_space (hd ?u)" by (rule hd_dropWhile)
  have 3: "last ?u = last (rev ?t)" if "?u \<noteq> []"
    using that by (metis dropWhile_eq_drop last_drop drop_eq_Nil linorder_not_le)
  have "\<not> is_space (last ?u)" if "?u \<noteq> []"
  proof -
    have "?t \<noteq> []" using that by (metis dropWhile.simps(1) rev.simps(1))
    then show ?thesis using 3 [OF that] hd_dropWhile [OF \<open>?t \<noteq> []\<close>] by (simp add: last_rev del: dropWhile_eq_Nil_conv)
  qed
  then show ?thesis using 1 2 by (simp add: tidy_def strip_def hd_rev last_rev)
qed

lemma strip_id: "tidy s \<Longrightarrow> strip s = s"
proof (cases "s = []")
  case False
  assume "tidy s"
  then have "dropWhile is_space s = s" "dropWhile is_space (rev s) = rev s"
    using False by (cases s; cases "rev s"; auto simp: tidy_def hd_rev [symmetric])+
  then show ?thesis by (simp add: strip_def)
qed (simp add: strip_def)

text \<open>
  The upper case of a string is the concatenation of the upper cases of its characters (Unicode full case
  mapping): white space is its own upper case, no character becomes white space or vanishes, and the upper
  case of an upper case is itself.
\<close>

definition upper_by_chars :: "(ustring \<Rightarrow> ustring) \<Rightarrow> (nat \<Rightarrow> ustring) \<Rightarrow> bool" where
  "upper_by_chars up u \<longleftrightarrow>
     (\<forall>s. up s = concat (map u s)) \<and> (\<forall>c. is_space c \<longrightarrow> u c = [c]) \<and>
     (\<forall>c. \<not> is_space c \<longrightarrow> u c \<noteq> [] \<and> list_all (\<lambda>d. \<not> is_space d \<and> u d = [d]) (u c))"

lemma upper_char:
  assumes "upper_by_chars up u"
  shows "u c \<noteq> []" and "is_space (hd (u c)) = is_space c" and "is_space (last (u c)) = is_space c"
    and "no_double_space (u c)" and "concat (map u (u c)) = u c"
proof -
  have no: "no_double_space s" if "list_all (\<lambda>d. \<not> is_space d) s" for s
    using that by (induction s rule: no_double_space.induct) auto
  have same: "concat (map u s) = s" if "list_all (\<lambda>d. u d = [d]) s" for s
    using that by (induction s) auto
  have "u c \<noteq> [] \<and> is_space (hd (u c)) = is_space c \<and> is_space (last (u c)) = is_space c \<and>
      no_double_space (u c) \<and> concat (map u (u c)) = u c"
  proof (cases "is_space c")
    case True
    then have "u c = [c]" using assms by (simp add: upper_by_chars_def)
    then show ?thesis using True by simp
  next
    case False
    then have "u c \<noteq> [] \<and> list_all (\<lambda>d. \<not> is_space d \<and> u d = [d]) (u c)"
      using assms unfolding upper_by_chars_def by blast
    then have c: "u c \<noteq> []" "list_all (\<lambda>d. \<not> is_space d) (u c)" "list_all (\<lambda>d. u d = [d]) (u c)"
      by (auto elim: list.pred_mono_strong)
    have "\<not> is_space (hd (u c))" "\<not> is_space (last (u c))" using c(1,2) by (simp_all add: list_all_iff)
    then show ?thesis using False c(1) no [OF c(2)] same [OF c(3)] by blast
  qed
  then show "u c \<noteq> []" "is_space (hd (u c)) = is_space c" "is_space (last (u c)) = is_space c"
      "no_double_space (u c)" "concat (map u (u c)) = u c" by blast+
qed

lemma upper_hd_last:
  assumes "upper_by_chars up u" and "s \<noteq> []"
  shows "up s \<noteq> []" and "is_space (hd (up s)) = is_space (hd s)" and "is_space (last (up s)) = is_space (last s)"
proof -
  have up: "up t = concat (map u t)" for t using assms(1) by (simp add: upper_by_chars_def)
  obtain a s1 where "s = a # s1" using assms(2) by (cases s) auto
  then show "up s \<noteq> []" "is_space (hd (up s)) = is_space (hd s)" using upper_char(1,2) [OF assms(1)] by (simp_all add: up)
  obtain b s2 where "s = s2 @ [b]" using assms(2) by (cases s rule: rev_cases) auto
  then show "is_space (last (up s)) = is_space (last s)" using upper_char(1,3) [OF assms(1)] by (simp add: up)
qed

lemma tidy_upper:
  assumes u: "upper_by_chars up u" and "tidy s"
  shows "tidy (up s)"
proof -
  have up: "up t = concat (map u t)" for t using u by (simp add: upper_by_chars_def)
  have "no_double_space (up t)" if "no_double_space t" for t
    using that
  proof (induction t)
    case (Cons a t)
    then show ?case
      using upper_char [OF u, of a] upper_hd_last [OF u, of t]
      by (cases "t = []") (auto simp: up no_double_space_Cons no_double_space_append)
  qed (simp add: up)
  then show ?thesis using assms(2) upper_hd_last [OF u, of s] by (cases "s = []") (auto simp: tidy_def up)
qed

lemma tidy_clean:
  assumes "upper_by_chars (str_upper rt) u"
  shows "tidy (clean_token_string rt s)"
  unfolding clean_token_string_def
  by (intro tidy_upper [OF assms] tidy_strip no_double_space_collapse)

text \<open>
  Cleaning a token name or symbol twice is cleaning it once, and the result has no white space at its
  ends and no two in a row.
\<close>

theorem clean_token_string_idempotent:
  assumes "upper_by_chars (str_upper rt) u"
  shows "clean_token_string rt (clean_token_string rt s) = clean_token_string rt s \<and> tidy (clean_token_string rt s)"
proof -
  let ?t = "clean_token_string rt s"
  have t: "tidy ?t" by (rule tidy_clean [OF assms])
  then have "strip (collapse_spaces ?t) = ?t" by (simp add: collapse_spaces_id strip_id tidy_def)
  moreover have "str_upper rt ?t = ?t"
  proof -
    have up: "str_upper rt x = concat (map u x)" for x using assms by (simp add: upper_by_chars_def)
    have "concat (map u (concat (map u x))) = concat (map u x)" for x
      using upper_char(5) [OF assms] by (induction x) simp_all
    then show ?thesis by (simp add: clean_token_string_def up)
  qed
  ultimately show ?thesis using t by (simp add: clean_token_string_def)
qed

text \<open>The upper case of ASCII letters.\<close>

definition ascii_upper :: "nat \<Rightarrow> ustring" where
  "ascii_upper c = [if 97 \<le> c \<and> c \<le> 122 then c - 32 else c]"

definition ascii_runtime :: runtime where
  "ascii_runtime = \<lparr>sha256 = (\<lambda>b. b), set_order = (\<lambda>_. []), str_upper = (\<lambda>s. concat (map ascii_upper s))\<rparr>"

lemma ascii_upper_space:
  "is_space c \<Longrightarrow> ascii_upper c = [c]" "\<not> is_space c \<Longrightarrow> list_all (\<lambda>d. \<not> is_space d \<and> ascii_upper d = [d]) (ascii_upper c)"
proof -
  show "ascii_upper c = [c]" if "is_space c"
    using that by (auto simp: is_space_def ascii_upper_def)
  show "list_all (\<lambda>d. \<not> is_space d \<and> ascii_upper d = [d]) (ascii_upper c)" if "\<not> is_space c"
  proof (cases "97 \<le> c \<and> c \<le> 122")
    case True
    then have "65 \<le> c - 32" "c - 32 \<le> 90" by auto
    then have "\<not> is_space (c - 32)" unfolding is_space_def by linarith
    then show ?thesis using True \<open>c - 32 \<le> 90\<close> by (simp add: ascii_upper_def)
  qed (use that in \<open>auto simp: ascii_upper_def\<close>)
qed

theorem clean_token_string_idempotent_witness:
  "clean_token_string ascii_runtime (ustr ''  my   token '') = ustr ''MY TOKEN'' \<and>
   clean_token_string ascii_runtime (ustr ''MY TOKEN'') = ustr ''MY TOKEN''"
proof -
  have "upper_by_chars (str_upper ascii_runtime) ascii_upper"
    by (auto simp: upper_by_chars_def ascii_runtime_def ascii_upper_space) (auto simp: ascii_upper_def)
  from clean_token_string_idempotent [OF this, of "ustr ''  my   token ''"]
  have "clean_token_string ascii_runtime (clean_token_string ascii_runtime (ustr ''  my   token '')) =
    clean_token_string ascii_runtime (ustr ''  my   token '')" by blast
  moreover have "clean_token_string ascii_runtime (ustr ''  my   token '') = ustr ''MY TOKEN''"
    by (simp add: clean_token_string_def ascii_runtime_def ascii_upper_def strip_def is_space_def ustr_def)
  ultimately show ?thesis by simp
qed



end
