(* ===== verification/NC_Actions.thy ===== *)
theory NC_Actions
  imports Token_Names Storage_Props
begin

text \<open>
  Actions (\<^verbatim>\<open>hathor/nanocontracts/types.py\<close>), the context of a call (\<^verbatim>\<open>hathor/nanocontracts/context.py\<close>)
  and the verification of a list of actions (\<^verbatim>\<open>hathor/verification/nano_header_verifier.py\<close>).
\<close>

section \<open>Actions\<close>

datatype nc_action_type = DEPOSIT_ACTION | WITHDRAWAL_ACTION | GRANT_AUTHORITY_ACTION | ACQUIRE_AUTHORITY_ACTION

fun nc_action_type_to_bytes :: "nc_action_type \<Rightarrow> bytes" where
  "nc_action_type_to_bytes DEPOSIT_ACTION = [1]"
| "nc_action_type_to_bytes WITHDRAWAL_ACTION = [2]"
| "nc_action_type_to_bytes GRANT_AUTHORITY_ACTION = [3]"
| "nc_action_type_to_bytes ACQUIRE_AUTHORITY_ACTION = [4]"

text \<open>\<open>bytes_to_int\<close> is the big-endian value of any number of bytes.\<close>

definition bytes_to_int :: "bytes \<Rightarrow> int" where
  "bytes_to_int data = foldl (\<lambda>n b. 256 * n + uint b) 0 data"

definition nc_action_type_from_bytes :: "bytes \<Rightarrow> exc + nc_action_type" where
  "nc_action_type_from_bytes data =
     (let n = bytes_to_int data
      in if n = 1 then Inr DEPOSIT_ACTION
         else if n = 2 then Inr WITHDRAWAL_ACTION
         else if n = 3 then Inr GRANT_AUTHORITY_ACTION
         else if n = 4 then Inr ACQUIRE_AUTHORITY_ACTION
         else Inl ValueError)"

text \<open>One constructor per subclass of \<open>BaseAction\<close>: the token and its amount, or the token and the authorities.\<close>

datatype nc_action =
    NCDepositAction bytes int
  | NCWithdrawalAction bytes int
  | NCGrantAuthorityAction bytes bool bool
  | NCAcquireAuthorityAction bytes bool bool

fun action_token_uid :: "nc_action \<Rightarrow> bytes" where
  "action_token_uid (NCDepositAction token_uid amount) = token_uid"
| "action_token_uid (NCWithdrawalAction token_uid amount) = token_uid"
| "action_token_uid (NCGrantAuthorityAction token_uid mint melt) = token_uid"
| "action_token_uid (NCAcquireAuthorityAction token_uid mint melt) = token_uid"

fun action_type :: "nc_action \<Rightarrow> nc_action_type" where
  "action_type (NCDepositAction token_uid amount) = DEPOSIT_ACTION"
| "action_type (NCWithdrawalAction token_uid amount) = WITHDRAWAL_ACTION"
| "action_type (NCGrantAuthorityAction token_uid mint melt) = GRANT_AUTHORITY_ACTION"
| "action_type (NCAcquireAuthorityAction token_uid mint melt) = ACQUIRE_AUTHORITY_ACTION"

text \<open>\<^verbatim>\<open>isinstance(action, BaseTokenAction) and action.amount < 0\<close>.\<close>

fun negative_amount :: "nc_action \<Rightarrow> bool" where
  "negative_amount (NCDepositAction token_uid amount) \<longleftrightarrow> amount < 0"
| "negative_amount (NCWithdrawalAction token_uid amount) \<longleftrightarrow> amount < 0"
| "negative_amount _ \<longleftrightarrow> False"

text \<open>The constructors of the authority actions (\<open>BaseAuthorityAction.__post_init__\<close>) refuse HTR.\<close>

definition new_grant_authority_action :: "bytes \<Rightarrow> bool \<Rightarrow> bool \<Rightarrow> exc + nc_action" where
  "new_grant_authority_action token_uid mint melt =
     (if token_uid = HATHOR_TOKEN_UID then Inl NCInvalidAction else Inr (NCGrantAuthorityAction token_uid mint melt))"

definition new_acquire_authority_action :: "bytes \<Rightarrow> bool \<Rightarrow> bool \<Rightarrow> exc + nc_action" where
  "new_acquire_authority_action token_uid mint melt =
     (if token_uid = HATHOR_TOKEN_UID then Inl NCInvalidAction else Inr (NCAcquireAuthorityAction token_uid mint melt))"

text \<open>The actions that the constructors can build.\<close>

fun constructed :: "nc_action \<Rightarrow> bool" where
  "constructed (NCGrantAuthorityAction token_uid mint melt) \<longleftrightarrow> token_uid \<noteq> HATHOR_TOKEN_UID"
| "constructed (NCAcquireAuthorityAction token_uid mint melt) \<longleftrightarrow> token_uid \<noteq> HATHOR_TOKEN_UID"
| "constructed _ \<longleftrightarrow> True"

section \<open>The context of a call\<close>

text \<open>
  The vertex and the block of a context are data about the transaction that the modelled code hands on
  without reading them; they are handles.
\<close>

datatype caller_id = AddressCaller bytes | ContractCaller bytes

record nc_context =
  ctx_caller_id :: caller_id
  ctx_vertex :: nat
  ctx_block :: "nat option"
  ctx_actions :: "(bytes, nc_action list) dict"

text \<open>\<open>__all_actions__\<close>.\<close>

definition ctx_all_actions :: "nc_context \<Rightarrow> nc_action list" where
  "ctx_all_actions ctx = concat (map snd (ctx_actions ctx))"

text \<open>\<open>__group_actions__\<close>: a default dict of tuples.\<close>

definition add_to_group :: "(bytes, nc_action list) dict \<Rightarrow> nc_action \<Rightarrow> (bytes, nc_action list) dict" where
  "add_to_group actions_map action =
     (let uid = action_token_uid action;
          old = (case dict_get actions_map uid of None \<Rightarrow> [] | Some l \<Rightarrow> l)
      in dict_put uid (old @ [action]) actions_map)"

definition group_actions :: "nc_action list \<Rightarrow> (bytes, nc_action list) dict" where
  "group_actions actions = foldl add_to_group [] actions"

definition MAX_ACTIONS_LEN :: nat where "MAX_ACTIONS_LEN = 16"

text \<open>\<open>ALLOWED_ACTION_SETS\<close>.\<close>

definition ALLOWED_ACTION_SETS :: "nc_action_type set list" where
  "ALLOWED_ACTION_SETS =
     [{}, {DEPOSIT_ACTION}, {WITHDRAWAL_ACTION}, {GRANT_AUTHORITY_ACTION}, {ACQUIRE_AUTHORITY_ACTION},
      {DEPOSIT_ACTION, GRANT_AUTHORITY_ACTION}, {DEPOSIT_ACTION, ACQUIRE_AUTHORITY_ACTION},
      {WITHDRAWAL_ACTION, GRANT_AUTHORITY_ACTION}, {WITHDRAWAL_ACTION, ACQUIRE_AUTHORITY_ACTION}]"

definition verify_action_list :: "nc_action list \<Rightarrow> exc + unit" where
  "verify_action_list actions =
     (if MAX_ACTIONS_LEN < length actions then Inl NCInvalidAction
      else if list_all (\<lambda>(token_uid, actions_per_token).
                set (map action_type actions_per_token) \<in> set ALLOWED_ACTION_SETS) (group_actions actions)
      then Inr () else Inl NCInvalidAction)"

text \<open>\<open>verify_actions\<close>; \<open>tokens\<close> is the list of tokens of the transaction.\<close>

primrec verify_actions_tokens :: "bytes list \<Rightarrow> nc_action list \<Rightarrow> exc + unit" where
  "verify_actions_tokens tokens [] = Inr ()"
| "verify_actions_tokens tokens (action # actions) =
     (if action_type action \<in> {GRANT_AUTHORITY_ACTION, ACQUIRE_AUTHORITY_ACTION} \<and>
         action_token_uid action = HATHOR_TOKEN_UID then Inl AssertionError
      else if action_token_uid action \<noteq> HATHOR_TOKEN_UID \<and> action_token_uid action \<notin> set tokens
      then Inl NCInvalidAction
      else verify_actions_tokens tokens actions)"

definition verify_actions :: "bytes list \<Rightarrow> nc_action list \<Rightarrow> exc + unit" where
  "verify_actions tokens actions =
     (case verify_action_list actions of Inl e \<Rightarrow> Inl e | Inr _ \<Rightarrow> verify_actions_tokens tokens actions)"

text \<open>
  \<open>create_from_vertex\<close>: the actions are those of the header of a transaction. Its \<open>except\<close> clause takes the
  error of the verification to \<open>NCInvalidContext\<close>.
\<close>

definition create_from_vertex :: "caller_id \<Rightarrow> nat \<Rightarrow> nat option \<Rightarrow> nc_action list \<Rightarrow> exc + nc_context" where
  "create_from_vertex caller_id vertex first_block actions =
     (if actions = []
      then Inr \<lparr>ctx_caller_id = caller_id, ctx_vertex = vertex, ctx_block = first_block, ctx_actions = []\<rparr>
      else case verify_action_list actions of
             Inl e \<Rightarrow> Inl NCInvalidContext
           | Inr _ \<Rightarrow> Inr \<lparr>ctx_caller_id = caller_id, ctx_vertex = vertex, ctx_block = first_block,
                            ctx_actions = group_actions actions\<rparr>)"

definition get_caller_address :: "nc_context \<Rightarrow> bytes option" where
  "get_caller_address ctx = (case ctx_caller_id ctx of AddressCaller a \<Rightarrow> Some a | ContractCaller c \<Rightarrow> None)"

definition get_caller_contract_id :: "nc_context \<Rightarrow> bytes option" where
  "get_caller_contract_id ctx = (case ctx_caller_id ctx of AddressCaller a \<Rightarrow> None | ContractCaller c \<Rightarrow> Some c)"

definition get_single_action :: "bytes \<Rightarrow> nc_context \<Rightarrow> exc + nc_action" where
  "get_single_action token_uid ctx =
     (case dict_get (ctx_actions ctx) token_uid of
        Some [action] \<Rightarrow> Inr action
      | _ \<Rightarrow> Inl NCFail)"

text \<open>\<open>ctx.block\<close> and \<open>ctx.copy()\<close>; the copy reads \<open>block\<close>, which must be set.\<close>

definition ctx_get_block :: "nc_context \<Rightarrow> exc + nat" where
  "ctx_get_block ctx = (case ctx_block ctx of None \<Rightarrow> Inl AssertionError | Some b \<Rightarrow> Inr b)"

definition ctx_copy :: "nc_context \<Rightarrow> exc + nc_context" where
  "ctx_copy ctx = (case ctx_get_block ctx of Inl e \<Rightarrow> Inl e | Inr b \<Rightarrow> Inr (ctx\<lparr>ctx_block := Some b\<rparr>))"

section \<open>Grouping\<close>

definition actions_for :: "bytes \<Rightarrow> nc_action list \<Rightarrow> nc_action list" where
  "actions_for uid actions = filter (\<lambda>a. action_token_uid a = uid) actions"

lemma actions_for_simps [simp]:
  "actions_for uid [] = []" "actions_for uid (as @ bs) = actions_for uid as @ actions_for uid bs"
  "actions_for uid [a] = (if action_token_uid a = uid then [a] else [])"
  by (simp_all add: actions_for_def)

lemma group_actions_snoc: "group_actions (actions @ [a]) = add_to_group (group_actions actions) a"
  by (simp add: group_actions_def)

lemma group_actions_get:
  "dict_get (group_actions actions) uid =
     (if actions_for uid actions = [] then None else Some (actions_for uid actions))"
proof (induction actions rule: rev_induct)
  case Nil
  then show ?case by (simp add: group_actions_def)
next
  case (snoc a actions)
  then show ?case by (auto simp: group_actions_snoc add_to_group_def Let_def split: option.splits if_splits)
qed

lemma mset_dict_put:
  "distinct (map fst d) \<Longrightarrow>
     mset (concat (map snd (dict_put k v d))) + mset (case dict_get d k of None \<Rightarrow> [] | Some l \<Rightarrow> l) =
     mset (concat (map snd d)) + mset v"
  by (induction d) (auto simp: map_of_eq_None_iff split: option.splits)

lemma distinct_group_actions: "distinct (map fst (group_actions actions))"
  by (induction actions rule: rev_induct) (simp_all add: group_actions_snoc add_to_group_def Let_def, simp add: group_actions_def)

lemma mset_group_actions: "mset (concat (map snd (group_actions actions))) = mset actions"
proof (induction actions rule: rev_induct)
  case Nil
  then show ?case by (simp add: group_actions_def)
next
  case (snoc a actions)
  let ?d = "group_actions actions" and ?uid = "action_token_uid a"
  let ?old = "case dict_get ?d ?uid of None \<Rightarrow> [] | Some l \<Rightarrow> l"
  have "mset (concat (map snd (dict_put ?uid (?old @ [a]) ?d))) + mset ?old = mset (concat (map snd ?d)) + mset (?old @ [a])"
    by (rule mset_dict_put [OF distinct_group_actions])
  then show ?case using snoc by (simp add: group_actions_snoc add_to_group_def Let_def)
qed

lemma filter_concat_dict:
  assumes "distinct (map fst d)" and "\<forall>(k, l) \<in> set d. \<forall>a \<in> set l. action_token_uid a = k"
  shows "actions_for uid (concat (map snd d)) = (case dict_get d uid of None \<Rightarrow> [] | Some l \<Rightarrow> l)"
  using assms
proof (induction d)
  case (Cons i d)
  obtain k l where i: "i = (k, l)" by (cases i)
  have "actions_for uid l = (if uid = k then l else [])"
    using Cons.prems(2) i by (auto simp: actions_for_def filter_empty_conv)
  moreover have "dict_get d uid = None" if "uid = k" using Cons.prems(1) i that by (simp add: map_of_eq_None_iff)
  ultimately show ?case using Cons i by auto
qed simp

lemma actions_for_concat: "actions_for uid (concat (map snd (group_actions actions))) = actions_for uid actions"
proof -
  have "\<forall>(k, l) \<in> set (group_actions actions). \<forall>a \<in> set l. action_token_uid a = k"
  proof clarify
    fix k l a
    assume "(k, l) \<in> set (group_actions actions)" "a \<in> set l"
    then have "dict_get (group_actions actions) k = Some l" by (simp add: distinct_group_actions)
    then show "action_token_uid a = k" using \<open>a \<in> set l\<close> by (auto simp: group_actions_get actions_for_def split: if_splits)
  qed
  from filter_concat_dict [OF distinct_group_actions this, of uid] show ?thesis by (simp add: group_actions_get)
qed

text \<open>What the sets of action types allowed for one token have in common.\<close>

lemma allowed_action_sets:
  "S \<in> set ALLOWED_ACTION_SETS \<longleftrightarrow>
     \<not> {DEPOSIT_ACTION, WITHDRAWAL_ACTION} \<subseteq> S \<and> \<not> {GRANT_AUTHORITY_ACTION, ACQUIRE_AUTHORITY_ACTION} \<subseteq> S"
proof -
  have UNIV: "(UNIV :: nc_action_type set) = {DEPOSIT_ACTION, WITHDRAWAL_ACTION, GRANT_AUTHORITY_ACTION, ACQUIRE_AUTHORITY_ACTION}"
    using nc_action_type.exhaust by auto
  have "S \<in> Pow {DEPOSIT_ACTION, WITHDRAWAL_ACTION, GRANT_AUTHORITY_ACTION, ACQUIRE_AUTHORITY_ACTION}"
    using UNIV by auto
  then show ?thesis
    by (simp only: Pow_insert Pow_empty) (auto simp: ALLOWED_ACTION_SETS_def)
qed

lemma verify_action_list_iff:
  "verify_action_list actions = Inr () \<longleftrightarrow>
     length actions \<le> 16 \<and>
     (\<forall>uid. action_type ` set (actions_for uid actions) \<in> set ALLOWED_ACTION_SETS)"
proof -
  have grp: "(uid, l) \<in> set (group_actions actions) \<longleftrightarrow> l = actions_for uid actions \<and> l \<noteq> []" for uid l
    using group_actions_get [of actions uid] map_of_eq_Some_iff [OF distinct_group_actions]
    by (metis option.distinct(1) option.inject)
  have "{} \<in> set ALLOWED_ACTION_SETS" by (simp add: ALLOWED_ACTION_SETS_def)
  then have "list_all (\<lambda>(token_uid, actions_per_token).
      set (map action_type actions_per_token) \<in> set ALLOWED_ACTION_SETS) (group_actions actions) \<longleftrightarrow>
      (\<forall>uid. action_type ` set (actions_for uid actions) \<in> set ALLOWED_ACTION_SETS)"
    by (fastforce simp: list_all_iff grp)
  then show ?thesis by (simp add: verify_action_list_def MAX_ACTIONS_LEN_def)
qed

definition compatible_actions :: "nc_action list \<Rightarrow> bool" where
  "compatible_actions actions \<longleftrightarrow>
     (\<forall>uid. \<not> {DEPOSIT_ACTION, WITHDRAWAL_ACTION} \<subseteq> action_type ` set (actions_for uid actions) \<and>
            \<not> {GRANT_AUTHORITY_ACTION, ACQUIRE_AUTHORITY_ACTION} \<subseteq> action_type ` set (actions_for uid actions))"


end
