(* ===== verification/NC_Method.thy ===== *)
theory NC_Method
  imports NC_Actions
begin

text \<open>
  The signature of a method and the bytes of its arguments and of its result
  (\<^verbatim>\<open>hathor/nanocontracts/method.py\<close>).
\<close>

section \<open>Exceptions of the serialization\<close>

definition is_serialization_error :: "exc \<Rightarrow> bool" where
  "is_serialization_error e \<longleftrightarrow>
     e \<in> {SerializationError, TooLongError, OutOfDataError, BadDataError, MaxBytesExceededError}"

text \<open>The \<open>except\<close> clauses of \<open>_serialize_map_exception\<close> and \<open>_deserialize_map_exception\<close>.\<close>

definition map_exception :: "exc \<Rightarrow> exc" where
  "map_exception e =
     (if e = MaxBytesExceededError then NCSerializationArgTooLong
      else if is_serialization_error e then NCSerializationError
      else if is_nc_fail e then e
      else NCFail)"

definition serialize_map_exception :: "('v \<Rightarrow> (serializer, unit) sm) \<Rightarrow> 'v \<Rightarrow> exc + bytes" where
  "serialize_map_exception ser v =
     (case ser v build_bytes_serializer of
        (Inl e, _) \<Rightarrow> Inl (map_exception e) | (Inr _, s) \<Rightarrow> Inr (ser_finalize s))"

definition deserialize_map_exception :: "(deserializer, 'v) sm \<Rightarrow> bytes \<Rightarrow> exc + 'v" where
  "deserialize_map_exception de data =
     (case fst (sbind de (\<lambda>v. sthen de_finalize (sret v)) (build_bytes_deserializer data)) of
        Inl e \<Rightarrow> Inl (map_exception e) | Inr v \<Rightarrow> Inr v)"

section \<open>Arguments\<close>

text \<open>\<open>_ArgsNCType\<close>: its check is the shallow one of \<open>serialize\<close> and \<open>deserialize\<close>.\<close>

abbreviation MAX_BYTES_SERIALIZED_ARG :: int where "MAX_BYTES_SERIALIZED_ARG \<equiv> 1000"

definition args_check_value :: "nc_type list \<Rightarrow> nc_value list \<Rightarrow> exc + unit" where
  "args_check_value args value = (if length args < length value then Inl TypeError else Inr ())"

definition args_serialize :: "set_iter \<Rightarrow> nc_type list \<Rightarrow> nc_value list \<Rightarrow> (serializer, unit) sm" where
  "args_serialize it args vs =
     sthen (raise_check (args_check_value args vs))
     (with_max_bytes MAX_BYTES_SERIALIZED_ARG
       (if length args < length vs then sraise TypeError
        else if length vs < length args then sraise TypeError
        else sthen (serialize it VarUint32NC (IntV (int (length vs))))
               (sfor (zip args vs) (\<lambda>(t, v). serialize it t v))))"

text \<open>\<^verbatim>\<open>[value.deserialize(deserializer) for value in args]\<close>.\<close>

primrec deserialize_each :: "set_iter \<Rightarrow> nc_type list \<Rightarrow> (deserializer, nc_value list) sm" where
  "deserialize_each it [] = sret []"
| "deserialize_each it (t # ts) =
     sbind (deserialize it t) (\<lambda>v. sbind (deserialize_each it ts) (\<lambda>vs. sret (v # vs)))"

definition args_deserialize :: "set_iter \<Rightarrow> nc_type list \<Rightarrow> (deserializer, nc_value list) sm" where
  "args_deserialize it args =
     sbind (de_with_max_bytes MAX_BYTES_SERIALIZED_ARG
       (sbind (deserialize it VarUint32NC) (\<lambda>n.
          case n of
            IntV num_args \<Rightarrow>
              if int (length args) < num_args then sraise TypeError
              else if num_args < int (length args) then sraise TypeError
              else deserialize_each it args
          | _ \<Rightarrow> sraise TypeError)))
     (\<lambda>vs. sthen (raise_check (args_check_value args vs)) (sret vs))"

section \<open>Methods\<close>

text \<open>What \<open>Method.from_callable\<close> reads off the signature of a callable.\<close>

record method_sig =
  ms_arg_names :: "ustring list"
  ms_args :: "nc_type list"
  ms_return :: nc_type

text \<open>Positional arguments take the names in order; then the keyword arguments; then the order of the signature.\<close>

primrec merge_kwargs ::
    "ustring list \<Rightarrow> (ustring, nc_value) dict \<Rightarrow> (ustring, nc_value) dict \<Rightarrow> exc + (ustring, nc_value) dict" where
  "merge_kwargs arg_names [] merged = Inr merged"
| "merge_kwargs arg_names (kv # kwargs) merged =
     (if fst kv \<notin> set arg_names then Inl NCFail
      else if dict_has merged (fst kv) then Inl NCFail
      else merge_kwargs arg_names kwargs (dict_put (fst kv) (snd kv) merged))"

primrec ordered_args :: "ustring list \<Rightarrow> (ustring, nc_value) dict \<Rightarrow> exc + nc_value list" where
  "ordered_args [] merged = Inr []"
| "ordered_args (name # names) merged =
     (case dict_get merged name of
        None \<Rightarrow> Inl NCFail
      | Some v \<Rightarrow> (case ordered_args names merged of Inl e \<Rightarrow> Inl e | Inr vs \<Rightarrow> Inr (v # vs)))"

definition merge_args ::
    "method_sig \<Rightarrow> nc_value list \<Rightarrow> (ustring, nc_value) dict \<Rightarrow> exc + nc_value list" where
  "merge_args m args kwargs =
     (if length (ms_arg_names m) < length args then Inl NCFail
      else case merge_kwargs (ms_arg_names m) kwargs
                  (foldl (\<lambda>d (name, v). dict_put name v d) [] (zip (ms_arg_names m) args)) of
             Inl e \<Rightarrow> Inl e
           | Inr merged \<Rightarrow> ordered_args (ms_arg_names m) merged)"

definition serialize_args_bytes ::
    "set_iter \<Rightarrow> method_sig \<Rightarrow> nc_value list \<Rightarrow> (ustring, nc_value) dict \<Rightarrow> exc + bytes" where
  "serialize_args_bytes it m args kwargs =
     (case merge_args m args kwargs of
        Inl e \<Rightarrow> Inl e
      | Inr vs \<Rightarrow> serialize_map_exception (args_serialize it (ms_args m)) vs)"

definition deserialize_args_bytes :: "set_iter \<Rightarrow> method_sig \<Rightarrow> bytes \<Rightarrow> exc + nc_value list" where
  "deserialize_args_bytes it m data = deserialize_map_exception (args_deserialize it (ms_args m)) data"

definition serialize_return_bytes :: "set_iter \<Rightarrow> nc_type \<Rightarrow> nc_value \<Rightarrow> exc + bytes" where
  "serialize_return_bytes it return_type v = serialize_map_exception (serialize it return_type) v"

definition deserialize_return_bytes :: "set_iter \<Rightarrow> nc_type \<Rightarrow> bytes \<Rightarrow> exc + nc_value" where
  "deserialize_return_bytes it return_type data = deserialize_map_exception (deserialize it return_type) data"

text \<open>\<open>NCRawArgs.try_parse_as\<close>; \<open>ArgsOnly\<close> has the types only.\<close>

definition try_parse_as :: "set_iter \<Rightarrow> nc_type list \<Rightarrow> bytes \<Rightarrow> exc + nc_value list option" where
  "try_parse_as it arg_types args_bytes =
     (case deserialize_map_exception (args_deserialize it arg_types) args_bytes of
        Inr vs \<Rightarrow> Inr (Some vs)
      | Inl e \<Rightarrow>
          if e \<in> {NCSerializationError, NCSerializationArgTooLong, TypeError, ValueError} \<or> is_serialization_error e
          then Inr None else Inl e)"

datatype nc_args = NCRawArgs bytes | NCParsedArgs "nc_value list" "(ustring, nc_value) dict"

text \<open>\<open>Runner._validate_nc_args_for_method\<close> and \<open>_validate_return_type_for_method\<close>: round trips through the bytes.\<close>

definition validate_nc_args_for_method :: "set_iter \<Rightarrow> method_sig \<Rightarrow> nc_args \<Rightarrow> exc + nc_value list" where
  "validate_nc_args_for_method it m nc_args =
     (case (case nc_args of
              NCParsedArgs args kwargs \<Rightarrow> serialize_args_bytes it m args kwargs
            | NCRawArgs args_bytes \<Rightarrow> Inr args_bytes) of
        Inl e \<Rightarrow> Inl e
      | Inr args_bytes \<Rightarrow> deserialize_args_bytes it m args_bytes)"

definition validate_return_type_for_method :: "set_iter \<Rightarrow> nc_type \<Rightarrow> nc_value \<Rightarrow> exc + nc_value" where
  "validate_return_type_for_method it return_type v =
     (case serialize_return_bytes it return_type v of
        Inl e \<Rightarrow> Inl e
      | Inr return_bytes \<Rightarrow> deserialize_return_bytes it return_type return_bytes)"

section \<open>Arguments and results survive the round trip\<close>

lemma map_exception_nc_fail: "is_nc_fail (map_exception e)"
  by (simp add: map_exception_def)

lemma each_round_trip:
  assumes "list_all2 (typed it) ts vs" and "sfor (zip ts vs) (\<lambda>(t, v). serialize it t v) s = (Inr u, s')"
  shows "reads_back (deserialize_each it ts) vs s s'"
  using assms
proof (induction ts vs arbitrary: s rule: list_all2_induct)
  case Nil
  then have "s' = s" by (auto simp: sm_simps)
  then show ?case using reads_back_sret by simp
next
  case (Cons t ts v vs)
  then obtain u' s1 where "serialize it t v s = (Inr u', s1)"
      and "sfor (zip ts vs) (\<lambda>(t, v). serialize it t v) s1 = (Inr u, s')"
    by (auto simp: sthen_Inr)
  then show ?case
    using nc_type.round_trip [OF Cons.hyps(1)] Cons.IH by (auto intro!: reads_back_sbind reads_back_sret)
qed

interpretation method_args: codec "args_serialize it args" "args_deserialize it args" "list_all2 (typed it) args" for it args
proof
  fix vs s u s'
  assume ok: "list_all2 (typed it) args vs" and ser: "args_serialize it args vs s = (Inr u, s')"
  then have len: "length vs = length args" by (simp add: list_all2_lengthD)
  have chk: "args_check_value args vs = Inr ()" using len by (simp add: args_check_value_def)
  have "with_max_bytes MAX_BYTES_SERIALIZED_ARG
      (sthen (serialize it VarUint32NC (IntV (int (length vs)))) (sfor (zip args vs) (\<lambda>(t, v). serialize it t v))) s
      = (Inr u, s')"
    using ser len unfolding args_serialize_def chk by (simp add: sthen_Inr)
  then obtain t where t: "sthen (serialize it VarUint32NC (IntV (int (length vs))))
      (sfor (zip args vs) (\<lambda>(t, v). serialize it t v)) (s\<lparr>ser_left := MAX_BYTES_SERIALIZED_ARG # ser_left s\<rparr>) = (Inr u, t)"
      and s': "s' = t\<lparr>ser_left := tl (ser_left t)\<rparr>"
    by (auto simp: with_max_bytes_def split: prod.splits)
  then obtain u' t1 where 1: "serialize it VarUint32NC (IntV (int (length vs)))
      (s\<lparr>ser_left := MAX_BYTES_SERIALIZED_ARG # ser_left s\<rparr>) = (Inr u', t1)"
      and 2: "sfor (zip args vs) (\<lambda>(t, v). serialize it t v) t1 = (Inr u, t)"
    unfolding sthen_Inr by blast
  have "reads_back (deserialize it VarUint32NC) (IntV (int (length vs)))
      (s\<lparr>ser_left := MAX_BYTES_SERIALIZED_ARG # ser_left s\<rparr>) t1"
    by (rule nc_type.round_trip [OF _ 1]) simp
  moreover have "reads_back (case IntV (int (length vs)) of
      IntV num_args \<Rightarrow>
        if int (length args) < num_args then sraise TypeError
        else if num_args < int (length args) then sraise TypeError
        else deserialize_each it args
    | _ \<Rightarrow> sraise TypeError) vs t1 t"
    using each_round_trip [OF ok 2] len by simp
  ultimately have "reads_back (de_with_max_bytes MAX_BYTES_SERIALIZED_ARG
      (sbind (deserialize it VarUint32NC) (\<lambda>n.
          case n of
            IntV num_args \<Rightarrow>
              if int (length args) < num_args then sraise TypeError
              else if num_args < int (length args) then sraise TypeError
              else deserialize_each it args
          | _ \<Rightarrow> sraise TypeError))) vs s s'"
    unfolding s' by (intro reads_back_max_bytes reads_back_sbind)
  moreover have "reads_back (sthen (raise_check (args_check_value args vs)) (sret vs)) vs s' s'"
  proof -
    have "sthen (raise_check (args_check_value args vs)) (sret vs) = sret vs"
      by (simp add: chk sm_simps fun_eq_iff)
    then show ?thesis using reads_back_sret by metis
  qed
  ultimately show "reads_back (args_deserialize it args) vs s s'"
    unfolding args_deserialize_def by (rule reads_back_sbind)
qed

lemma map_exception_round_trip:
  assumes "codec ser de ok" and "ok v" and "serialize_map_exception ser v = Inr data"
  shows "deserialize_map_exception de data = Inr v"
proof -
  obtain u s' where "ser v build_bytes_serializer = (Inr u, s')" and data: "data = ser_finalize s'"
    using assms(3) by (auto simp: serialize_map_exception_def split: prod.splits sum.splits)
  then have "reads_back de v build_bytes_serializer s'" using codec.round_trip [OF assms(1,2)] by blast
  from reads_back_front [OF this, of "[]"] data show ?thesis
    by (simp add: deserialize_map_exception_def sm_simps de_finalize_def de_is_empty_def build_bytes_deserializer_def)
qed

lemma merge_positional:
  assumes "distinct names" and "length vs \<le> length names"
  shows "map_of (foldl (\<lambda>d (name, v). dict_put name v d) d (zip names vs)) = map_of d ++ map_of (zip names vs)"
  using assms
proof (induction names arbitrary: vs d)
  case (Cons n names)
  show ?case
  proof (cases vs)
    case (Cons v ws)
    have "n \<notin> dom (map_of (zip names ws))" using Cons.prems(1) by (auto dest!: map_of_SomeD set_zip_leftD)
    then show ?thesis using Cons.IH [of ws "dict_put n v d"] Cons.prems Cons
      by (auto simp: map_add_def fun_eq_iff dom_def split: option.splits)
  qed simp
qed simp

lemma ordered_args_zip:
  assumes "\<forall>name \<in> set names. map_of merged name = f name" and "map f names = map Some vs"
  shows "ordered_args names merged = Inr vs"
  using assms by (induction names arbitrary: vs) auto

lemma merge_args_positional:
  assumes "distinct (ms_arg_names m)" and "length vs = length (ms_arg_names m)"
  shows "merge_args m vs [] = Inr vs"
proof -
  let ?merged = "foldl (\<lambda>d (name, v). dict_put name v d) [] (zip (ms_arg_names m) vs)"
  have "map_of ?merged = map_of (zip (ms_arg_names m) vs)"
    using merge_positional [of "ms_arg_names m" vs "[]"] assms by simp
  moreover have "map (map_of (zip (ms_arg_names m) vs)) (ms_arg_names m) = map Some vs"
    using assms by (intro nth_equalityI) (simp_all add: map_of_zip_nth)
  ultimately have "ordered_args (ms_arg_names m) ?merged = Inr vs" by (intro ordered_args_zip) auto
  then show ?thesis using assms by (simp add: merge_args_def)
qed


definition sample_sig :: method_sig where
  "sample_sig = \<lparr>ms_arg_names = [ustr ''a'', ustr ''b''], ms_args = [VarInt32NC, BoolNC], ms_return = NullNC\<rparr>"



end
