(* ===== verification/Balance_Rules.thy ===== *)
theory Balance_Rules
  imports NC_Actions
begin

text \<open>
  The balance rules of the actions (\<^verbatim>\<open>hathor/nanocontracts/balance_rules.py\<close>): what an action does to the
  token amounts of a transaction, to the called contract and to a calling contract; and the token
  amounts of a transaction with their fee (\<^verbatim>\<open>hathor/transaction/token_info.py\<close>).
\<close>

section \<open>Token amounts of a transaction\<close>

record token_info =
  ti_version :: "token_version option"
  ti_amount :: int
  ti_can_mint :: bool
  ti_can_melt :: bool
  ti_chargeable_outputs :: int
  ti_chargeable_inputs :: int

definition has_been_melted :: "token_info \<Rightarrow> bool" where
  "has_been_melted info \<longleftrightarrow> ti_amount info < 0"

definition has_been_minted :: "token_info \<Rightarrow> bool" where
  "has_been_minted info \<longleftrightarrow> 0 < ti_amount info"

type_synonym token_info_dict = "(bytes, token_info) dict"

definition calculate_fee :: "token_info_dict \<Rightarrow> int" where
  "calculate_fee token_dict =
     foldl (\<lambda>fee (token_uid, info).
       if 0 < ti_chargeable_outputs info then fee + ti_chargeable_outputs info * FEE_PER_OUTPUT
       else if 0 < ti_chargeable_inputs info then fee + FEE_PER_OUTPUT
       else fee) 0 token_dict"

text \<open>
  \<open>get_token_version\<close>: \<open>creation_tx\<close> is the token creation transaction of the transaction storage, if
  there is one, by its token version.
\<close>

definition get_token_version ::
    "runtime \<Rightarrow> (bytes \<Rightarrow> token_version option) \<Rightarrow> block_storage \<Rightarrow> bytes \<Rightarrow> exc + token_version option" where
  "get_token_version rt creation_tx bs token_uid =
     (if token_uid = HATHOR_TOKEN_UID then Inr (Some NATIVE)
      else case creation_tx token_uid of
             Some v \<Rightarrow> Inr (Some v)
           | None \<Rightarrow>
               (case bs_has_token token_uid bs of
                  Inl e \<Rightarrow> Inl e
                | Inr True \<Rightarrow>
                    (case bs_get_token_description rt token_uid bs of
                       Inl e \<Rightarrow> Inl e | Inr td \<Rightarrow> Inr (Some (td_token_version td)))
                | Inr False \<Rightarrow> Inr None))"

section \<open>The rules\<close>

text \<open>\<^verbatim>\<open>token_dict[uid]\<close>, with the object updated by \<open>f\<close>.\<close>

definition update_token_info :: "bytes \<Rightarrow> (token_info \<Rightarrow> exc + token_info) \<Rightarrow> (token_info_dict, unit) sm" where
  "update_token_info uid f d =
     (case dict_get d uid of
        None \<Rightarrow> (Inl KeyError, d)
      | Some info \<Rightarrow> (case f info of Inl e \<Rightarrow> (Inl e, d) | Inr info' \<Rightarrow> (Inr (), dict_put uid info' d)))"

definition charge_output :: "token_info \<Rightarrow> token_info" where
  "charge_output info =
     (if ti_version info = Some FEE then info\<lparr>ti_chargeable_outputs := ti_chargeable_outputs info + 1\<rparr> else info)"

definition charge_input :: "token_info \<Rightarrow> token_info" where
  "charge_input info =
     (if ti_version info = Some FEE then info\<lparr>ti_chargeable_inputs := ti_chargeable_inputs info + 1\<rparr> else info)"

fun verification_rule :: "nc_action \<Rightarrow> (token_info_dict, unit) sm" where
  "verification_rule (NCDepositAction uid amount) =
     update_token_info uid (\<lambda>info. Inr (charge_output (info\<lparr>ti_amount := ti_amount info + amount\<rparr>)))"
| "verification_rule (NCWithdrawalAction uid amount) =
     update_token_info uid (\<lambda>info. Inr (charge_input (info\<lparr>ti_amount := ti_amount info - amount\<rparr>)))"
| "verification_rule (NCGrantAuthorityAction uid mint melt) =
     sthen (sassert (uid \<noteq> HATHOR_TOKEN_UID))
       (update_token_info uid (\<lambda>info.
          if mint \<and> \<not> ti_can_mint info then Inl NCInvalidAction
          else if melt \<and> \<not> ti_can_melt info then Inl NCInvalidAction
          else Inr info))"
| "verification_rule (NCAcquireAuthorityAction uid mint melt) =
     sthen (sassert (uid \<noteq> HATHOR_TOKEN_UID))
       (update_token_info uid (\<lambda>info.
          Inr (info\<lparr>ti_can_mint := ti_can_mint info \<or> mint, ti_can_melt := ti_can_melt info \<or> melt\<rparr>)))"

text \<open>\<^verbatim>\<open>tracker.get_balance(uid)\<close> of the newest tracker of a contract, and the check that it has the authorities.\<close>

definition ch_get_balance :: "runtime \<Rightarrow> bytes \<Rightarrow> (nc_chain, balance) sm" where
  "ch_get_balance rt uid ch = (ct_get_balance rt uid (ch_layers ch) (ch_base ch), ch)"

definition require_authorities :: "runtime \<Rightarrow> bytes \<Rightarrow> bool \<Rightarrow> bool \<Rightarrow> (nc_chain, unit) sm" where
  "require_authorities rt uid mint melt =
     sbind (ch_get_balance rt uid) (\<lambda>balance.
       sthen (sguard (\<not> (mint \<and> \<not> can_mint balance)) NCInvalidAction)
         (sguard (\<not> (melt \<and> \<not> can_melt balance)) NCInvalidAction))"

fun nc_callee_execution_rule :: "runtime \<Rightarrow> nc_action \<Rightarrow> (nc_chain, unit) sm" where
  "nc_callee_execution_rule rt (NCDepositAction uid amount) = m_add_balance (chain_methods rt) uid amount"
| "nc_callee_execution_rule rt (NCWithdrawalAction uid amount) = m_add_balance (chain_methods rt) uid (- amount)"
| "nc_callee_execution_rule rt (NCGrantAuthorityAction uid mint melt) =
     sthen (sassert (uid \<noteq> HATHOR_TOKEN_UID)) (m_grant_authorities (chain_methods rt) uid mint melt)"
| "nc_callee_execution_rule rt (NCAcquireAuthorityAction uid mint melt) =
     sthen (sassert (uid \<noteq> HATHOR_TOKEN_UID)) (require_authorities rt uid mint melt)"

fun nc_caller_execution_rule :: "runtime \<Rightarrow> nc_action \<Rightarrow> (nc_chain, unit) sm" where
  "nc_caller_execution_rule rt (NCDepositAction uid amount) = m_add_balance (chain_methods rt) uid (- amount)"
| "nc_caller_execution_rule rt (NCWithdrawalAction uid amount) = m_add_balance (chain_methods rt) uid amount"
| "nc_caller_execution_rule rt (NCGrantAuthorityAction uid mint melt) =
     sthen (sguard (uid \<noteq> HATHOR_TOKEN_UID) NCInvalidAction) (require_authorities rt uid mint melt)"
| "nc_caller_execution_rule rt (NCAcquireAuthorityAction uid mint melt) =
     sthen (sguard (uid \<noteq> HATHOR_TOKEN_UID) NCInvalidAction) (m_grant_authorities (chain_methods rt) uid mint melt)"

section \<open>What the rules do\<close>

text \<open>The balances of a contract after an action on it, as the called and as the calling contract.\<close>

definition add_to_balance :: "bytes \<Rightarrow> int \<Rightarrow> (bytes \<Rightarrow> balance) \<Rightarrow> bytes \<Rightarrow> balance" where
  "add_to_balance uid n b = b(uid := (b uid)\<lparr>bal_value := bal_value (b uid) + n\<rparr>)"

fun callee_effect :: "nc_action \<Rightarrow> (bytes \<Rightarrow> balance) \<Rightarrow> bytes \<Rightarrow> balance" where
  "callee_effect (NCDepositAction uid amount) b = add_to_balance uid amount b"
| "callee_effect (NCWithdrawalAction uid amount) b = add_to_balance uid (- amount) b"
| "callee_effect (NCGrantAuthorityAction uid mint melt) b = b(uid := grant_balance mint melt (b uid))"
| "callee_effect (NCAcquireAuthorityAction uid mint melt) b = b"

fun caller_effect :: "nc_action \<Rightarrow> (bytes \<Rightarrow> balance) \<Rightarrow> bytes \<Rightarrow> balance" where
  "caller_effect (NCDepositAction uid amount) b = add_to_balance uid (- amount) b"
| "caller_effect (NCWithdrawalAction uid amount) b = add_to_balance uid amount b"
| "caller_effect (NCGrantAuthorityAction uid mint melt) b = b"
| "caller_effect (NCAcquireAuthorityAction uid mint melt) b = b(uid := grant_balance mint melt (b uid))"

text \<open>The authorities an action takes from the called, respectively from the calling contract are there.\<close>

fun callee_has :: "nc_action \<Rightarrow> (bytes \<Rightarrow> balance) \<Rightarrow> bool" where
  "callee_has (NCAcquireAuthorityAction uid mint melt) b \<longleftrightarrow> (mint \<longrightarrow> can_mint (b uid)) \<and> (melt \<longrightarrow> can_melt (b uid))"
| "callee_has _ b \<longleftrightarrow> True"

fun caller_has :: "nc_action \<Rightarrow> (bytes \<Rightarrow> balance) \<Rightarrow> bool" where
  "caller_has (NCGrantAuthorityAction uid mint melt) b \<longleftrightarrow> (mint \<longrightarrow> can_mint (b uid)) \<and> (melt \<longrightarrow> can_melt (b uid))"
| "caller_has _ b \<longleftrightarrow> True"

text \<open>Only balances change.\<close>

definition only_balances :: "runtime \<Rightarrow> nc_chain \<Rightarrow> nc_chain \<Rightarrow> bool" where
  "only_balances rt ch ch' \<longleftrightarrow>
     ch_ok rt ch' \<and> ch_get rt ch' = ch_get rt ch \<and> ch_has rt ch' = ch_has rt ch \<and>
     ch_token rt ch' = ch_token rt ch \<and> ch_blueprint rt ch' = ch_blueprint rt ch"

lemma only_balances_refl: "ch_ok rt ch \<Longrightarrow> only_balances rt ch ch"
  by (simp add: only_balances_def)

lemma only_balances_trans: "only_balances rt a b \<Longrightarrow> only_balances rt b c \<Longrightarrow> only_balances rt a c"
  by (simp add: only_balances_def)

lemma ch_get_balance_ok:
  assumes "ch_ok rt ch"
  shows "ch_get_balance rt uid ch = (Inr (ch_balance rt ch uid), ch)"
proof -
  obtain b where "ct_get_balance rt uid (ch_layers ch) (ch_base ch) = Inr b"
    using ct_get_balance_chain [OF ch_okD(1) [OF assms]] by blast
  then show ?thesis by (simp add: ch_get_balance_def ch_balance_def)
qed

lemma require_authorities_Inr:
  assumes "ch_ok rt ch"
  shows "require_authorities rt uid mint melt ch = (Inr u, ch') \<longleftrightarrow>
           ch' = ch \<and> (mint \<longrightarrow> can_mint (ch_balance rt ch uid)) \<and> (melt \<longrightarrow> can_melt (ch_balance rt ch uid))"
  by (auto simp: require_authorities_def sm_simps ch_get_balance_ok [OF assms])

lemma nc_callee_execution_rule_Inr:
  assumes "ch_ok rt ch" and "nc_callee_execution_rule rt a ch = (Inr u, ch')"
  shows "only_balances rt ch ch' \<and> ch_balance rt ch' = callee_effect a (ch_balance rt ch) \<and>
         callee_has a (ch_balance rt ch)"
proof (cases a)
  case (NCDepositAction uid n)
  then show ?thesis using chain_add [OF assms(1), of uid n u ch'] assms(2)
    by (simp add: only_balances_def add_to_balance_def)
next
  case (NCWithdrawalAction uid n)
  then show ?thesis using chain_add [OF assms(1), of uid "- n" u ch'] assms(2)
    by (simp add: only_balances_def add_to_balance_def)
next
  case (NCGrantAuthorityAction uid mint melt)
  then show ?thesis using chain_grant [OF assms(1), of uid mint melt u ch'] assms(2)
    by (simp add: only_balances_def sthen_Inr)
next
  case (NCAcquireAuthorityAction uid mint melt)
  then show ?thesis using assms(2) only_balances_refl [OF assms(1)]
    by (auto simp: sthen_Inr require_authorities_Inr [OF assms(1)])
qed

lemma nc_caller_execution_rule_Inr:
  assumes "ch_ok rt ch" and "nc_caller_execution_rule rt a ch = (Inr u, ch')"
  shows "only_balances rt ch ch' \<and> ch_balance rt ch' = caller_effect a (ch_balance rt ch) \<and>
         caller_has a (ch_balance rt ch)"
proof (cases a)
  case (NCDepositAction uid n)
  then show ?thesis using chain_add [OF assms(1), of uid "- n" u ch'] assms(2)
    by (simp add: only_balances_def add_to_balance_def)
next
  case (NCWithdrawalAction uid n)
  then show ?thesis using chain_add [OF assms(1), of uid n u ch'] assms(2)
    by (simp add: only_balances_def add_to_balance_def)
next
  case (NCGrantAuthorityAction uid mint melt)
  then show ?thesis using assms(2) only_balances_refl [OF assms(1)]
    by (auto simp: sthen_Inr require_authorities_Inr [OF assms(1)])
next
  case (NCAcquireAuthorityAction uid mint melt)
  then show ?thesis using chain_grant [OF assms(1), of uid mint melt u ch'] assms(2)
    by (simp add: only_balances_def sthen_Inr)
qed

text \<open>
  C28. An action between two contracts moves tokens and copies authorities; it creates neither. When the
  rules of an action succeed on the calling and on the called contract, the sum of their balances is what
  it was for every token, a contract has an authority afterwards only when one of the two had it before,
  and nothing but balances changes.
\<close>

theorem action_between_contracts_conserves:
  assumes "ch_ok rt caller" and "ch_ok rt callee"
    and "nc_caller_execution_rule rt a caller = (Inr (), caller')"
    and "nc_callee_execution_rule rt a callee = (Inr (), callee')"
  shows "bal_value (ch_balance rt caller' tok) + bal_value (ch_balance rt callee' tok) =
           bal_value (ch_balance rt caller tok) + bal_value (ch_balance rt callee tok) \<and>
         (can_mint (ch_balance rt caller' tok) \<or> can_mint (ch_balance rt callee' tok) \<longrightarrow>
           can_mint (ch_balance rt caller tok) \<or> can_mint (ch_balance rt callee tok)) \<and>
         (can_melt (ch_balance rt caller' tok) \<or> can_melt (ch_balance rt callee' tok) \<longrightarrow>
           can_melt (ch_balance rt caller tok) \<or> can_melt (ch_balance rt callee tok)) \<and>
         only_balances rt caller caller' \<and> only_balances rt callee callee'"
  using nc_caller_execution_rule_Inr [OF assms(1,3)] nc_callee_execution_rule_Inr [OF assms(2,4)]
  by (cases a) (auto simp: add_to_balance_def grant_balance_def)

theorem action_between_contracts_conserves_witness:
  "let action = NCDepositAction [7] 2;
       caller' = snd (nc_caller_execution_rule plain_runtime action sample_chain);
       callee' = snd (nc_callee_execution_rule plain_runtime action sample_chain) in
   bal_value (ch_balance plain_runtime caller' [7]) + bal_value (ch_balance plain_runtime callee' [7]) = 3 + 3"
proof -
  let ?a = "NCDepositAction [7] 2"
  let ?caller = "snd (nc_caller_execution_rule plain_runtime ?a sample_chain)"
  let ?callee = "snd (nc_callee_execution_rule plain_runtime ?a sample_chain)"
  have 1: "nc_caller_execution_rule plain_runtime ?a sample_chain = (Inr (), ?caller)" by (rule prod_eqI) (code_simp, simp)
  have 2: "nc_callee_execution_rule plain_runtime ?a sample_chain = (Inr (), ?callee)" by (rule prod_eqI) (code_simp, simp)
  have "bal_value (ch_balance plain_runtime sample_chain [7]) = 3" by code_simp
  then show ?thesis
    using action_between_contracts_conserves [OF sample_chain_ok sample_chain_ok 1 2, of "[7]"] by (simp add: Let_def)
qed

end
