(* ===== verification/Index_Records.thy ===== *)
theory Index_Records
  imports NC_Actions
begin

text \<open>
  The records by which a call tells the indexes what it did
  (\<^verbatim>\<open>hathor/nanocontracts/runner/index_records.py\<close>) and their JSON form.
\<close>

section \<open>Records\<close>

datatype index_record_type =
    CREATE_CONTRACT | CREATE_TOKEN | UPDATE_TOKEN_BALANCE | GRANT_AUTHORITIES | REVOKE_AUTHORITIES

text \<open>The values that \<open>auto()\<close> gives to the members of a \<open>StrEnum\<close>: their names in lower case.\<close>

fun index_record_type_value :: "index_record_type \<Rightarrow> ustring" where
  "index_record_type_value CREATE_CONTRACT = ustr ''create_contract''"
| "index_record_type_value CREATE_TOKEN = ustr ''create_token''"
| "index_record_type_value UPDATE_TOKEN_BALANCE = ustr ''update_token_balance''"
| "index_record_type_value GRANT_AUTHORITIES = ustr ''grant_authorities''"
| "index_record_type_value REVOKE_AUTHORITIES = ustr ''revoke_authorities''"

datatype index_record =
    CreateContractRecord (cc_blueprint_id: bytes) (cc_contract_id: bytes)
  | CreateTokenRecord (ctr_token_uid: bytes) (ctr_amount: int) (ctr_symbol: ustring) (ctr_name: ustring)
      (ctr_version: token_version)
  | UpdateTokenBalanceRecord (utb_token_uid: bytes) (utb_amount: int)
  | UpdateAuthoritiesRecord (ua_type: index_record_type) (ua_token_uid: bytes) (ua_mint: bool) (ua_melt: bool)

text \<open>The assertions of the \<open>__post_init__\<close> methods; a record is constructed only when they hold.\<close>

fun record_valid :: "index_record \<Rightarrow> bool" where
  "record_valid (CreateContractRecord blueprint_id contract_id) = True"
| "record_valid (CreateTokenRecord token_uid amount symbol name version) =
     (version \<in> {DEPOSIT, FEE} \<and> 0 < amount)"
| "record_valid (UpdateTokenBalanceRecord token_uid amount) = True"
| "record_valid (UpdateAuthoritiesRecord type token_uid mint melt) =
     (type \<in> {GRANT_AUTHORITIES, REVOKE_AUTHORITIES} \<and> (mint \<or> melt))"

definition new_record :: "index_record \<Rightarrow> exc + index_record" where
  "new_record r = (if record_valid r then Inr r else Inl AssertionError)"

section \<open>JSON\<close>

datatype json = JStr ustring | JInt int | JBool bool

text \<open>\<^verbatim>\<open>bytes.hex()\<close> and \<^verbatim>\<open>bytes.fromhex(...)\<close> on the characters of the string.\<close>

definition hex_str :: "bytes \<Rightarrow> ustring" where
  "hex_str b = map unat (encode_key b)"

definition fromhex_str :: "ustring \<Rightarrow> exc + bytes" where
  "fromhex_str s = (if list_all (\<lambda>c. c < 128) s then decode_key (map of_nat s) else Inl ValueError)"

primrec to_json :: "index_record \<Rightarrow> (ustring, json) dict" where
  "to_json (CreateContractRecord blueprint_id contract_id) =
     [(ustr ''type'', JStr (index_record_type_value CREATE_CONTRACT)),
      (ustr ''blueprint_id'', JStr (hex_str blueprint_id)),
      (ustr ''contract_id'', JStr (hex_str contract_id))]"
| "to_json (CreateTokenRecord token_uid amount symbol name version) =
     [(ustr ''type'', JStr (index_record_type_value CREATE_TOKEN)),
      (ustr ''token_uid'', JStr (hex_str token_uid)),
      (ustr ''amount'', JInt amount),
      (ustr ''token_name'', JStr name),
      (ustr ''token_symbol'', JStr symbol),
      (ustr ''token_version'', JInt (token_version_value version))]"
| "to_json (UpdateTokenBalanceRecord token_uid amount) =
     [(ustr ''type'', JStr (index_record_type_value UPDATE_TOKEN_BALANCE)),
      (ustr ''token_uid'', JStr (hex_str token_uid)),
      (ustr ''amount'', JInt amount)]"
| "to_json (UpdateAuthoritiesRecord type token_uid mint melt) =
     [(ustr ''type'', JStr (index_record_type_value type)),
      (ustr ''token_uid'', JStr (hex_str token_uid)),
      (ustr ''mint'', JBool mint),
      (ustr ''melt'', JBool melt)]"

text \<open>
  \<^verbatim>\<open>json_dict[key]\<close>. The fields of a record have the types of its class; an item of another type is refused
  here, which in Python happens where the field is first used.
\<close>

definition json_item :: "(ustring, json) dict \<Rightarrow> ustring \<Rightarrow> exc + json" where
  "json_item d k = (case dict_get d k of None \<Rightarrow> Inl KeyError | Some j \<Rightarrow> Inr j)"

definition json_str :: "(ustring, json) dict \<Rightarrow> ustring \<Rightarrow> exc + ustring" where
  "json_str d k =
     (case json_item d k of Inl e \<Rightarrow> Inl e | Inr (JStr s) \<Rightarrow> Inr s | Inr _ \<Rightarrow> Inl TypeError)"

definition json_int :: "(ustring, json) dict \<Rightarrow> ustring \<Rightarrow> exc + int" where
  "json_int d k =
     (case json_item d k of Inl e \<Rightarrow> Inl e | Inr (JInt i) \<Rightarrow> Inr i | Inr _ \<Rightarrow> Inl TypeError)"

definition json_bool :: "(ustring, json) dict \<Rightarrow> ustring \<Rightarrow> exc + bool" where
  "json_bool d k =
     (case json_item d k of Inl e \<Rightarrow> Inl e | Inr (JBool b) \<Rightarrow> Inr b | Inr _ \<Rightarrow> Inl TypeError)"

definition json_hex :: "(ustring, json) dict \<Rightarrow> ustring \<Rightarrow> exc + bytes" where
  "json_hex d k = (case json_str d k of Inl e \<Rightarrow> Inl e | Inr s \<Rightarrow> fromhex_str s)"

text \<open>\<^verbatim>\<open>IndexRecordType(json_dict['type'])\<close> and \<^verbatim>\<open>TokenVersion(json_dict['token_version'])\<close>.\<close>

definition json_record_type :: "(ustring, json) dict \<Rightarrow> exc + index_record_type" where
  "json_record_type d =
     (case json_item d (ustr ''type'') of
        Inl e \<Rightarrow> Inl e
      | Inr j \<Rightarrow>
          (case find (\<lambda>t. j = JStr (index_record_type_value t))
                  [CREATE_CONTRACT, CREATE_TOKEN, UPDATE_TOKEN_BALANCE, GRANT_AUTHORITIES, REVOKE_AUTHORITIES] of
             None \<Rightarrow> Inl ValueError | Some t \<Rightarrow> Inr t))"

definition json_token_version :: "(ustring, json) dict \<Rightarrow> exc + token_version" where
  "json_token_version d =
     (case json_item d (ustr ''token_version'') of
        Inl e \<Rightarrow> Inl e
      | Inr j \<Rightarrow>
          (case find (\<lambda>v. j = JInt (token_version_value v)) [NATIVE, DEPOSIT, FEE] of
             None \<Rightarrow> Inl ValueError | Some v \<Rightarrow> Inr v))"

definition create_contract_from_json :: "(ustring, json) dict \<Rightarrow> exc + index_record" where
  "create_contract_from_json d =
     (case json_hex d (ustr ''contract_id'') of
        Inl e \<Rightarrow> Inl e
      | Inr contract_id \<Rightarrow>
          (case json_hex d (ustr ''blueprint_id'') of
             Inl e \<Rightarrow> Inl e
           | Inr blueprint_id \<Rightarrow> new_record (CreateContractRecord blueprint_id contract_id)))"

definition create_token_from_json :: "(ustring, json) dict \<Rightarrow> exc + index_record" where
  "create_token_from_json d =
     (case json_token_version d of
        Inl e \<Rightarrow> Inl e
      | Inr version \<Rightarrow>
          if version \<notin> {DEPOSIT, FEE} then Inl AssertionError
          else
            (case json_hex d (ustr ''token_uid'') of
               Inl e \<Rightarrow> Inl e
             | Inr token_uid \<Rightarrow>
                 (case json_int d (ustr ''amount'') of
                    Inl e \<Rightarrow> Inl e
                  | Inr amount \<Rightarrow>
                      (case json_str d (ustr ''token_name'') of
                         Inl e \<Rightarrow> Inl e
                       | Inr name \<Rightarrow>
                           (case json_str d (ustr ''token_symbol'') of
                              Inl e \<Rightarrow> Inl e
                            | Inr symbol \<Rightarrow> new_record (CreateTokenRecord token_uid amount symbol name version))))))"

definition update_token_balance_from_json :: "(ustring, json) dict \<Rightarrow> exc + index_record" where
  "update_token_balance_from_json d =
     (case json_hex d (ustr ''token_uid'') of
        Inl e \<Rightarrow> Inl e
      | Inr token_uid \<Rightarrow>
          (case json_int d (ustr ''amount'') of
             Inl e \<Rightarrow> Inl e
           | Inr amount \<Rightarrow> new_record (UpdateTokenBalanceRecord token_uid amount)))"

definition update_authorities_from_json :: "(ustring, json) dict \<Rightarrow> exc + index_record" where
  "update_authorities_from_json d =
     (case json_record_type d of
        Inl e \<Rightarrow> Inl e
      | Inr type \<Rightarrow>
          if type \<notin> {GRANT_AUTHORITIES, REVOKE_AUTHORITIES} then Inl AssertionError
          else
            (case json_hex d (ustr ''token_uid'') of
               Inl e \<Rightarrow> Inl e
             | Inr token_uid \<Rightarrow>
                 (case json_bool d (ustr ''mint'') of
                    Inl e \<Rightarrow> Inl e
                  | Inr mint \<Rightarrow>
                      (case json_bool d (ustr ''melt'') of
                         Inl e \<Rightarrow> Inl e
                       | Inr melt \<Rightarrow> new_record (UpdateAuthoritiesRecord type token_uid mint melt)))))"

definition nc_index_update_record_from_json :: "(ustring, json) dict \<Rightarrow> exc + index_record" where
  "nc_index_update_record_from_json d =
     (case json_record_type d of
        Inl e \<Rightarrow> Inl e
      | Inr record_type \<Rightarrow>
          (case record_type of
             CREATE_CONTRACT \<Rightarrow> create_contract_from_json d
           | CREATE_TOKEN \<Rightarrow> create_token_from_json d
           | UPDATE_TOKEN_BALANCE \<Rightarrow> update_token_balance_from_json d
           | GRANT_AUTHORITIES \<Rightarrow> update_authorities_from_json d
           | REVOKE_AUTHORITIES \<Rightarrow> update_authorities_from_json d))"

section \<open>Round trip\<close>

lemma fromhex_hex: "fromhex_str (hex_str b) = Inr b"
proof -
  have "unat (hex_digit d) < 128" if "unat d < 16" for d using that by (simp add: unat_hex_digit)
  then have "unat c < 128" if "c \<in> set (encode_key b)" for c
    using that by (auto simp: encode_key_def nibbles_less)
  then have "list_all (\<lambda>c. c < 128) (hex_str b)" by (auto simp: hex_str_def list_all_iff)
  moreover have "map of_nat (hex_str b) = encode_key b" by (simp add: hex_str_def comp_def)
  ultimately show ?thesis by (simp add: fromhex_str_def decode_key_encode_key)
qed

lemmas json_defs = json_hex_def json_str_def json_int_def json_bool_def json_item_def ustr_def

lemma json_record_type_to_json:
  "record_valid r \<Longrightarrow> json_record_type (to_json r) = Inr
     (case r of CreateContractRecord _ _ \<Rightarrow> CREATE_CONTRACT | CreateTokenRecord _ _ _ _ _ \<Rightarrow> CREATE_TOKEN
      | UpdateTokenBalanceRecord _ _ \<Rightarrow> UPDATE_TOKEN_BALANCE | UpdateAuthoritiesRecord t _ _ _ \<Rightarrow> t)"
  by (cases r) (auto simp: json_record_type_def json_defs)

text \<open>
  C38. Every record that can be constructed is read back from the JSON it is written as.
\<close>

theorem index_record_round_trip:
  assumes "new_record r = Inr r"
  shows "nc_index_update_record_from_json (to_json r) = Inr r"
proof -
  have valid: "record_valid r" using assms by (simp add: new_record_def split: if_splits)
  show ?thesis
  proof (cases r)
    case (CreateContractRecord b c)
    then show ?thesis using json_record_type_to_json [OF valid]
      by (simp add: nc_index_update_record_from_json_def create_contract_from_json_def json_defs fromhex_hex new_record_def)
  next
    case (CreateTokenRecord u a s n v)
    then have "json_token_version (to_json r) = Inr v"
      by (cases v) (simp_all add: json_token_version_def json_defs)
    then show ?thesis using json_record_type_to_json [OF valid] valid CreateTokenRecord
      by (simp add: nc_index_update_record_from_json_def create_token_from_json_def json_defs fromhex_hex new_record_def)
  next
    case (UpdateTokenBalanceRecord u a)
    then show ?thesis using json_record_type_to_json [OF valid]
      by (simp add: nc_index_update_record_from_json_def update_token_balance_from_json_def json_defs fromhex_hex new_record_def)
  next
    case (UpdateAuthoritiesRecord t u mi me)
    then show ?thesis using json_record_type_to_json [OF valid] valid
      by (cases t) (simp_all add: nc_index_update_record_from_json_def update_authorities_from_json_def json_defs fromhex_hex new_record_def)
  qed
qed

theorem index_record_round_trip_witness:
  "let r = CreateTokenRecord [7] 5 (ustr ''T'') (ustr ''Token'') DEPOSIT
   in new_record r = Inr r \<and> nc_index_update_record_from_json (to_json r) = Inr r"
  using index_record_round_trip [of "CreateTokenRecord [7] 5 (ustr ''T'') (ustr ''Token'') DEPOSIT"]
  by (simp add: new_record_def Let_def)

end
