(* ===== verification/NC_Program.thy ===== *)
theory NC_Program
  imports NC_Method Index_Records
begin

text \<open>
  The code of blueprints and what it can ask of the node. The code of a blueprint is user code; a method is
  any program that computes, calls the environment and goes on with the answer
  (\<^verbatim>\<open>hathor/nanocontracts/blueprint.py\<close>, \<^verbatim>\<open>blueprint_env.py\<close>, \<^verbatim>\<open>contract_accessor.py\<close>,
  \<^verbatim>\<open>proxy_accessor.py\<close>, \<^verbatim>\<open>initialize_method_accessor.py\<close>). On-chain blueprints cannot catch exceptions: the
  syntax check refuses \<^verbatim>\<open>try\<close>, so a call that raises ends the program.
\<close>

section \<open>Programs\<close>

text \<open>What the attribute cache of a blueprint instance holds under a key: a value or a container object.\<close>

datatype cached = CachedValue nc_value | CachedContainer

text \<open>
  The requests of a program. The first group are the methods of \<open>__storage__\<close> and of the dictionary
  \<open>__cache__\<close> that the fields use; the second those of \<open>BlueprintEnvironment\<close>; the third the calls that the
  accessors forward to the runner.
\<close>

datatype syscall =
    GetObj bytes nc_type "nc_value option"
  | HasObj bytes
  | PutObj bytes nc_type nc_value
  | DelObj bytes
  | CacheGet bytes
  | CachePut bytes cached
  | CacheDel bytes
  | RandBytes int
  | GetContractId
  | GetBlueprintId "bytes option"
  | GetCurrentCodeBlueprintId
  | GetBalance bool "bytes option" "bytes option"
  | RevokeAuthorities bytes bool bool
  | MintTokens bytes int bytes
  | MeltTokens bytes int bytes
  | CreateDepositToken bytes ustring ustring int bool bool
  | CreateFeeToken bytes ustring ustring int bool bool bytes
  | EmitEvent bytes
  | ChangeBlueprint bytes
  | ForbidCallOnView
  | CallPublic bytes ustring "nc_action list" "nc_fee list" "nc_value list" "(ustring, nc_value) dict" bool
  | CallView bytes ustring "nc_value list" "(ustring, nc_value) dict"
  | ProxyCallPublic bytes ustring "nc_action list" "nc_fee list" nc_args bool
  | ProxyCallView bytes ustring "nc_value list" "(ustring, nc_value) dict"
  | CreateContract bytes bytes "nc_action list" "nc_fee list" "nc_value list" "(ustring, nc_value) dict"

datatype sys_result =
    ResNone
  | ResValue nc_value
  | ResBool bool
  | ResBytes bytes
  | ResBalance balance
  | ResCached "cached option"
  | ResCreated bytes nc_value

datatype 'a prog = Return 'a | Raise exc | Syscall syscall "sys_result \<Rightarrow> 'a prog"

primrec pbind :: "'a prog \<Rightarrow> ('a \<Rightarrow> 'b prog) \<Rightarrow> 'b prog" where
  "pbind (Return x) f = f x"
| "pbind (Raise e) f = Raise e"
| "pbind (Syscall c k) f = Syscall c (\<lambda>r. pbind (k r) f)"

definition pthen :: "'a prog \<Rightarrow> 'b prog \<Rightarrow> 'b prog" where
  "pthen p q = pbind p (\<lambda>_. q)"

definition pguard :: "bool \<Rightarrow> exc \<Rightarrow> unit prog" where
  "pguard b e = (if b then Return () else Raise e)"

text \<open>Requests whose answer has one form; the node answers a request in its form only.\<close>

definition ask :: "syscall \<Rightarrow> unit prog" where
  "ask c = Syscall c (\<lambda>_. Return ())"

definition ask_value :: "syscall \<Rightarrow> nc_value prog" where
  "ask_value c = Syscall c (\<lambda>r. case r of ResValue v \<Rightarrow> Return v | _ \<Rightarrow> Raise TypeError)"

definition ask_bool :: "syscall \<Rightarrow> bool prog" where
  "ask_bool c = Syscall c (\<lambda>r. case r of ResBool b \<Rightarrow> Return b | _ \<Rightarrow> Raise TypeError)"

definition ask_bytes :: "syscall \<Rightarrow> bytes prog" where
  "ask_bytes c = Syscall c (\<lambda>r. case r of ResBytes b \<Rightarrow> Return b | _ \<Rightarrow> Raise TypeError)"

definition ask_balance :: "syscall \<Rightarrow> balance prog" where
  "ask_balance c = Syscall c (\<lambda>r. case r of ResBalance b \<Rightarrow> Return b | _ \<Rightarrow> Raise TypeError)"

definition ask_cached :: "syscall \<Rightarrow> cached option prog" where
  "ask_cached c = Syscall c (\<lambda>r. case r of ResCached b \<Rightarrow> Return b | _ \<Rightarrow> Raise TypeError)"

definition ask_created :: "syscall \<Rightarrow> (bytes \<times> nc_value) prog" where
  "ask_created c = Syscall c (\<lambda>r. case r of ResCreated i v \<Rightarrow> Return (i, v) | _ \<Rightarrow> Raise TypeError)"

section \<open>The environment of a blueprint\<close>

definition env_get_balance_before_current_call :: "bytes option \<Rightarrow> int prog" where
  "env_get_balance_before_current_call token_uid =
     pbind (ask_balance (GetBalance True None token_uid)) (\<lambda>balance. Return (bal_value balance))"

definition env_get_current_balance :: "bytes option \<Rightarrow> int prog" where
  "env_get_current_balance token_uid =
     pbind (ask_balance (GetBalance False None token_uid)) (\<lambda>balance. Return (bal_value balance))"

definition env_can_mint_before_current_call :: "bytes \<Rightarrow> bool prog" where
  "env_can_mint_before_current_call token_uid =
     pbind (ask_balance (GetBalance True None (Some token_uid))) (\<lambda>balance. Return (can_mint balance))"

definition env_can_mint :: "bytes \<Rightarrow> bool prog" where
  "env_can_mint token_uid =
     pbind (ask_balance (GetBalance False None (Some token_uid))) (\<lambda>balance. Return (can_mint balance))"

definition env_can_melt_before_current_call :: "bytes \<Rightarrow> bool prog" where
  "env_can_melt_before_current_call token_uid =
     pbind (ask_balance (GetBalance True None (Some token_uid))) (\<lambda>balance. Return (can_melt balance))"

definition env_can_melt :: "bytes \<Rightarrow> bool prog" where
  "env_can_melt token_uid =
     pbind (ask_balance (GetBalance False None (Some token_uid))) (\<lambda>balance. Return (can_melt balance))"

definition env_mint_tokens :: "bytes \<Rightarrow> int \<Rightarrow> bytes option \<Rightarrow> unit prog" where
  "env_mint_tokens token_uid amount fee_payment_token =
     ask (MintTokens token_uid amount (case fee_payment_token of None \<Rightarrow> HATHOR_TOKEN_UID | Some t \<Rightarrow> t))"

definition env_melt_tokens :: "bytes \<Rightarrow> int \<Rightarrow> bytes option \<Rightarrow> unit prog" where
  "env_melt_tokens token_uid amount fee_payment_token =
     ask (MeltTokens token_uid amount (case fee_payment_token of None \<Rightarrow> HATHOR_TOKEN_UID | Some t \<Rightarrow> t))"

section \<open>Accessors\<close>

text \<open>
  The objects through which a blueprint calls another contract. A public method is called at most once
  through an accessor: the first call sets its flag, and with it the actions are used up. An operation of an
  accessor gives the accessor after it and the program it runs.
\<close>

record contract_accessor =
  ca_contract_id :: bytes
  ca_blueprint_ids :: "bytes set option"

datatype blueprint_arg = AnyBlueprint | OneBlueprint bytes | SomeBlueprints "bytes list"

definition new_contract_accessor :: "bytes \<Rightarrow> blueprint_arg \<Rightarrow> contract_accessor" where
  "new_contract_accessor contract_id blueprint_id =
     \<lparr>ca_contract_id = contract_id,
      ca_blueprint_ids = (case blueprint_id of
         AnyBlueprint \<Rightarrow> None | OneBlueprint b \<Rightarrow> Some {b} | SomeBlueprints bs \<Rightarrow> Some (set bs))\<rparr>"

definition ca_get_blueprint_id :: "contract_accessor \<Rightarrow> bytes prog" where
  "ca_get_blueprint_id a = ask_bytes (GetBlueprintId (Some (ca_contract_id a)))"

definition ca_get_current_balance :: "contract_accessor \<Rightarrow> bytes option \<Rightarrow> int prog" where
  "ca_get_current_balance a token_uid =
     pbind (ask_balance (GetBalance False (Some (ca_contract_id a)) token_uid)) (\<lambda>balance. Return (bal_value balance))"

definition ca_can_mint :: "contract_accessor \<Rightarrow> bytes \<Rightarrow> bool prog" where
  "ca_can_mint a token_uid =
     pbind (ask_balance (GetBalance False (Some (ca_contract_id a)) (Some token_uid))) (\<lambda>balance. Return (can_mint balance))"

definition ca_can_melt :: "contract_accessor \<Rightarrow> bytes \<Rightarrow> bool prog" where
  "ca_can_melt a token_uid =
     pbind (ask_balance (GetBalance False (Some (ca_contract_id a)) (Some token_uid))) (\<lambda>balance. Return (can_melt balance))"

definition validate_blueprint_id :: "bytes \<Rightarrow> bytes set option \<Rightarrow> unit prog" where
  "validate_blueprint_id contract_id blueprint_ids =
     (case blueprint_ids of
        None \<Rightarrow> Return ()
      | Some ids \<Rightarrow>
          pbind (ask_bytes (GetBlueprintId (Some contract_id))) (\<lambda>blueprint_id. pguard (blueprint_id \<in> ids) NCFail))"

text \<open>View methods can be called any number of times.\<close>

definition view_method_call ::
    "contract_accessor \<Rightarrow> ustring \<Rightarrow> nc_value list \<Rightarrow> (ustring, nc_value) dict \<Rightarrow> nc_value prog" where
  "view_method_call a method_name args kwargs =
     pthen (validate_blueprint_id (ca_contract_id a) (ca_blueprint_ids a))
       (ask_value (CallView (ca_contract_id a) method_name args kwargs))"

definition proxy_view_method_call ::
    "bytes \<Rightarrow> ustring \<Rightarrow> nc_value list \<Rightarrow> (ustring, nc_value) dict \<Rightarrow> nc_value prog" where
  "proxy_view_method_call blueprint_id method_name args kwargs =
     ask_value (ProxyCallView blueprint_id method_name args kwargs)"

record public_method_accessor =
  pa_contract :: contract_accessor
  pa_method_name :: ustring
  pa_actions :: "nc_action list"
  pa_fees :: "nc_fee list"
  pa_forbid_fallback :: bool
  pa_is_dirty :: bool

definition get_public_method ::
    "contract_accessor \<Rightarrow> ustring \<Rightarrow> nc_action list \<Rightarrow> nc_fee list \<Rightarrow> bool \<Rightarrow> public_method_accessor" where
  "get_public_method a method_name actions fees forbid_fallback =
     \<lparr>pa_contract = a, pa_method_name = method_name, pa_actions = actions, pa_fees = fees,
      pa_forbid_fallback = forbid_fallback, pa_is_dirty = False\<rparr>"

definition public_method_call ::
    "nc_value list \<Rightarrow> (ustring, nc_value) dict \<Rightarrow> public_method_accessor \<Rightarrow> public_method_accessor \<times> nc_value prog" where
  "public_method_call args kwargs a =
     (if pa_is_dirty a then (a, Raise NCFail)
      else (a\<lparr>pa_is_dirty := True\<rparr>,
            pthen (validate_blueprint_id (ca_contract_id (pa_contract a)) (ca_blueprint_ids (pa_contract a)))
              (ask_value (CallPublic (ca_contract_id (pa_contract a)) (pa_method_name a) (pa_actions a) (pa_fees a)
                 args kwargs (pa_forbid_fallback a)))))"

text \<open>\<open>PreparedPublicCall\<close>: naming the method also uses the object up.\<close>

record prepared_public_call =
  pc_contract :: contract_accessor
  pc_actions :: "nc_action list"
  pc_fees :: "nc_fee list"
  pc_forbid_fallback :: bool
  pc_is_dirty :: bool

definition prepare_public ::
    "contract_accessor \<Rightarrow> nc_action list \<Rightarrow> nc_fee list \<Rightarrow> bool \<Rightarrow> prepared_public_call" where
  "prepare_public a actions fees forbid_fallback =
     \<lparr>pc_contract = a, pc_actions = actions, pc_fees = fees, pc_forbid_fallback = forbid_fallback, pc_is_dirty = False\<rparr>"

definition prepared_getattr ::
    "ustring \<Rightarrow> prepared_public_call \<Rightarrow> prepared_public_call \<times> (exc + public_method_accessor)" where
  "prepared_getattr method_name p =
     (if pc_is_dirty p then (p, Inl NCFail)
      else (p\<lparr>pc_is_dirty := True\<rparr>,
            Inr (get_public_method (pc_contract p) method_name (pc_actions p) (pc_fees p) (pc_forbid_fallback p))))"

record proxy_method_accessor =
  px_blueprint_id :: bytes
  px_method_name :: ustring
  px_actions :: "nc_action list"
  px_fees :: "nc_fee list"
  px_forbid_fallback :: bool
  px_is_dirty :: bool

definition get_proxy_public_method ::
    "bytes \<Rightarrow> ustring \<Rightarrow> nc_action list \<Rightarrow> nc_fee list \<Rightarrow> bool \<Rightarrow> proxy_method_accessor" where
  "get_proxy_public_method blueprint_id method_name actions fees forbid_fallback =
     \<lparr>px_blueprint_id = blueprint_id, px_method_name = method_name, px_actions = actions, px_fees = fees,
      px_forbid_fallback = forbid_fallback, px_is_dirty = False\<rparr>"

definition proxy_call_with_nc_args ::
    "nc_args \<Rightarrow> proxy_method_accessor \<Rightarrow> proxy_method_accessor \<times> nc_value prog" where
  "proxy_call_with_nc_args nc_args a =
     (if px_is_dirty a then (a, Raise NCFail)
      else (a\<lparr>px_is_dirty := True\<rparr>,
            ask_value (ProxyCallPublic (px_blueprint_id a) (px_method_name a) (px_actions a) (px_fees a)
              nc_args (px_forbid_fallback a))))"

definition proxy_public_method_call ::
    "nc_value list \<Rightarrow> (ustring, nc_value) dict \<Rightarrow> proxy_method_accessor \<Rightarrow> proxy_method_accessor \<times> nc_value prog" where
  "proxy_public_method_call args kwargs a = proxy_call_with_nc_args (NCParsedArgs args kwargs) a"

record initialize_method_accessor =
  im_blueprint_id :: bytes
  im_salt :: bytes
  im_actions :: "nc_action list"
  im_fees :: "nc_fee list"
  im_is_dirty :: bool

definition setup_new_contract ::
    "bytes \<Rightarrow> nc_action list \<Rightarrow> nc_fee list \<Rightarrow> bytes \<Rightarrow> initialize_method_accessor prog" where
  "setup_new_contract blueprint_id actions fees salt =
     pthen (ask ForbidCallOnView)
       (Return \<lparr>im_blueprint_id = blueprint_id, im_salt = salt, im_actions = actions, im_fees = fees, im_is_dirty = False\<rparr>)"

definition accessor_initialize ::
    "nc_value list \<Rightarrow> (ustring, nc_value) dict \<Rightarrow> initialize_method_accessor \<Rightarrow>
     initialize_method_accessor \<times> (bytes \<times> nc_value) prog" where
  "accessor_initialize args kwargs a =
     (if im_is_dirty a then (a, Raise NCFail)
      else (a\<lparr>im_is_dirty := True\<rparr>,
            ask_created (CreateContract (im_blueprint_id a) (im_salt a) (im_actions a) (im_fees a) args kwargs)))"

section \<open>Blueprints\<close>

text \<open>The arguments a method gets: the parsed ones, or for \<open>fallback\<close> the name and the arguments of the call.\<close>

datatype call_args = Args "nc_value list" | FallbackArgs ustring nc_args

datatype nc_method_type = PUBLIC_METHOD | VIEW_METHOD | FALLBACK_METHOD

text \<open>
  An attribute of a blueprint class: what its decorator wrote on it, its signature and its code. A helper
  function of the class has no method type.
\<close>

record bp_method =
  bm_type :: "nc_method_type option"
  bm_sig :: method_sig
  bm_allowed_actions :: "nc_action_type set"
  bm_allow_reentrancy :: bool
  bm_code :: "nc_context option \<Rightarrow> call_args \<Rightarrow> nc_value prog"

definition is_nc_public_method :: "bp_method \<Rightarrow> bool" where
  "is_nc_public_method m \<longleftrightarrow> bm_type m = Some PUBLIC_METHOD"

definition is_nc_view_method :: "bp_method \<Rightarrow> bool" where
  "is_nc_view_method m \<longleftrightarrow> bm_type m = Some VIEW_METHOD"

definition is_nc_fallback_method :: "bp_method \<Rightarrow> bool" where
  "is_nc_fallback_method m \<longleftrightarrow> bm_type m = Some FALLBACK_METHOD"

text \<open>A field is a value or a container under a prefix of the keys of the attributes.\<close>

datatype field = LeafField bytes nc_type | ContainerField bytes

record blueprint =
  bp_methods :: "(ustring, bp_method) dict"
  bp_fields :: "field list"

definition NC_INITIALIZE_METHOD :: ustring where "NC_INITIALIZE_METHOD = ustr ''initialize''"
definition NC_FALLBACK_METHOD :: ustring where "NC_FALLBACK_METHOD = ustr ''fallback''"

section \<open>An accessor is used once\<close>

text \<open>The calls of a sequence of uses of one accessor.\<close>

primrec use_accessor ::
    "('a \<Rightarrow> 'a \<times> 'p) list \<Rightarrow> 'a \<Rightarrow> 'p list" where
  "use_accessor [] a = []"
| "use_accessor (f # fs) a = (case f a of (a', p) \<Rightarrow> p # use_accessor fs a')"

lemma dirty_accessor: "(\<And>u. F u a = (a, p)) \<Longrightarrow> use_accessor (map F us) a = replicate (length us) p"
  by (induction us) simp_all

text \<open>
  C35. However often a public method, a proxy method or the initialization of a new contract is called
  through one accessor, only the first call is sent on, with the actions and fees given to the accessor;
  every further one fails, so no actions are used twice.
\<close>

theorem accessors_call_once:
  "use_accessor (map (\<lambda>(args, kwargs). public_method_call args kwargs) uses)
       (get_public_method a method_name actions fees forbid_fallback) =
     (case uses of
        [] \<Rightarrow> []
      | (args, kwargs) # later \<Rightarrow>
          pthen (validate_blueprint_id (ca_contract_id a) (ca_blueprint_ids a))
            (ask_value (CallPublic (ca_contract_id a) method_name actions fees args kwargs forbid_fallback)) #
          replicate (length later) (Raise NCFail)) \<and>
   use_accessor (map (\<lambda>(args, kwargs). proxy_public_method_call args kwargs) uses)
       (get_proxy_public_method blueprint_id method_name actions fees forbid_fallback) =
     (case uses of
        [] \<Rightarrow> []
      | (args, kwargs) # later \<Rightarrow>
          ask_value (ProxyCallPublic blueprint_id method_name actions fees (NCParsedArgs args kwargs) forbid_fallback) #
          replicate (length later) (Raise NCFail)) \<and>
   use_accessor (map (\<lambda>(args, kwargs). accessor_initialize args kwargs) uses)
       \<lparr>im_blueprint_id = blueprint_id, im_salt = salt, im_actions = actions, im_fees = fees, im_is_dirty = False\<rparr> =
     (case uses of
        [] \<Rightarrow> []
      | (args, kwargs) # later \<Rightarrow>
          ask_created (CreateContract blueprint_id salt actions fees args kwargs) #
          replicate (length later) (Raise NCFail))"
proof (cases uses)
  case (Cons u later)
  obtain args kwargs where u: "u = (args, kwargs)" by (cases u)
  show ?thesis
    by (simp add: Cons u public_method_call_def proxy_public_method_call_def proxy_call_with_nc_args_def
        accessor_initialize_def get_public_method_def get_proxy_public_method_def split_beta dirty_accessor)
qed simp

end
