(* ===== verification/NC_Rng.thy ===== *)
theory NC_Rng
  imports Token_Amounts
begin

text \<open>
  The random numbers of a contract (\<^verbatim>\<open>hathor/nanocontracts/rng.py\<close>): the key stream of a ChaCha20 cipher.
  The cipher is that of a library; it is the parameter \<open>chacha20\<close>, from the key and the nonce to the byte at each
  position of the stream. The state of a generator is its seed and how far it has read.
\<close>

section \<open>The generator\<close>

type_synonym stream_cipher = "bytes \<Rightarrow> bytes \<Rightarrow> nat \<Rightarrow> byte"

record nano_rng =
  rng_seed :: bytes
  rng_pos :: nat

definition new_rng :: "bytes \<Rightarrow> exc + nano_rng" where
  "new_rng seed = (if length seed = 32 then Inr \<lparr>rng_seed = seed, rng_pos = 0\<rparr> else Inl ValueError)"

definition randbytes :: "stream_cipher \<Rightarrow> int \<Rightarrow> (nano_rng, bytes) sm" where
  "randbytes chacha20 n r =
     (if n < 1 then (Inl AssertionError, r)
      else (Inr (map (\<lambda>i. chacha20 (rng_seed r) (take 16 (rng_seed r)) (rng_pos r + i)) [0..<nat n]),
            r\<lparr>rng_pos := rng_pos r + nat n\<rparr>))"

text \<open>\<^verbatim>\<open>int.from_bytes(data, byteorder='little', signed=False)\<close>.\<close>

primrec from_bytes_little :: "bytes \<Rightarrow> int" where
  "from_bytes_little [] = 0"
| "from_bytes_little (b # bs) = uint b + 256 * from_bytes_little bs"

definition randbits :: "stream_cipher \<Rightarrow> int \<Rightarrow> (nano_rng, int) sm" where
  "randbits chacha20 bits =
     sthen (sassert (1 \<le> bits))
       (sbind (randbytes chacha20 ((bits + 7) div 8)) (\<lambda>ciphertext. sret (from_bytes_little ciphertext mod 2 ^ nat bits)))"

text \<open>
  \<^verbatim>\<open>while r >= n: r = self.randbits(k)\<close>: nothing bounds the number of rounds; \<open>fuel\<close> does in the model. The
  number of bits of \<open>n\<close> is \<^term>\<open>bit_length (nat n)\<close>.
\<close>

primrec randbelow_loop :: "stream_cipher \<Rightarrow> nat \<Rightarrow> int \<Rightarrow> int \<Rightarrow> int \<Rightarrow> (nano_rng, int) sm" where
  "randbelow_loop chacha20 0 k n r = sraise OutOfFuel"
| "randbelow_loop chacha20 (Suc fuel) k n r =
     (if n \<le> r then sbind (randbits chacha20 k) (randbelow_loop chacha20 fuel k n) else sret r)"

definition randbelow :: "stream_cipher \<Rightarrow> nat \<Rightarrow> int \<Rightarrow> (nano_rng, int) sm" where
  "randbelow chacha20 fuel n =
     sthen (sassert (1 \<le> n))
       (sbind (randbits chacha20 (int (bit_length (nat n)))) (randbelow_loop chacha20 fuel (int (bit_length (nat n))) n))"

definition randrange :: "stream_cipher \<Rightarrow> nat \<Rightarrow> int \<Rightarrow> int \<Rightarrow> int \<Rightarrow> (nano_rng, int) sm" where
  "randrange chacha20 fuel start stop step =
     sthen (sassert (start < stop))
     (sthen (sassert (1 \<le> step))
       (sbind (randbelow chacha20 fuel ((stop - start + step - 1) div step)) (\<lambda>k. sret (start + k * step))))"

definition randint :: "stream_cipher \<Rightarrow> nat \<Rightarrow> int \<Rightarrow> int \<Rightarrow> (nano_rng, int) sm" where
  "randint chacha20 fuel a b =
     sthen (sassert (a \<le> b)) (sbind (randbelow chacha20 fuel (b - a + 1)) (\<lambda>r. sret (a + r)))"

definition choice :: "stream_cipher \<Rightarrow> nat \<Rightarrow> 'a list \<Rightarrow> (nano_rng, 'a) sm" where
  "choice chacha20 fuel xs =
     sbind (randbelow chacha20 fuel (int (length xs))) (\<lambda>i. sret (xs ! nat i))"

text \<open>\<open>random\<close> divides by \<open>2^53\<close> without rounding; the result of the model is the numerator.\<close>

definition rng_random :: "stream_cipher \<Rightarrow> (nano_rng, int) sm" where
  "rng_random chacha20 = randbits chacha20 53"

section \<open>The stream that a generator reads\<close>

text \<open>The \<open>i\<close>-th number of \<open>k\<close> bits, counted from the position of the generator.\<close>

definition draw :: "stream_cipher \<Rightarrow> nat \<Rightarrow> nano_rng \<Rightarrow> nat \<Rightarrow> int" where
  "draw chacha20 k r i =
     from_bytes_little (map (\<lambda>j. chacha20 (rng_seed r) (take 16 (rng_seed r)) (rng_pos r + i * ((k + 7) div 8) + j))
       [0..<(k + 7) div 8]) mod 2 ^ k"

definition skip_draws :: "nat \<Rightarrow> nat \<Rightarrow> nano_rng \<Rightarrow> nano_rng" where
  "skip_draws k i r = r\<lparr>rng_pos := rng_pos r + i * ((k + 7) div 8)\<rparr>"

lemma randbits_draw:
  assumes "1 \<le> k"
  shows "randbits chacha20 (int k) r = (Inr (draw chacha20 k r 0), skip_draws k 1 r)"
proof -
  have "(int k + 7) div 8 = int ((k + 7) div 8)" by simp
  moreover have "1 \<le> (k + 7) div 8" using assms by simp
  ultimately show ?thesis
    using assms by (simp add: randbits_def sm_simps randbytes_def draw_def skip_draws_def)
qed

lemma draw_skip: "draw chacha20 k (skip_draws k i r) j = draw chacha20 k r (i + j)"
  by (simp add: draw_def skip_draws_def algebra_simps)

lemma skip_skip: "skip_draws k i (skip_draws k j r) = skip_draws k (i + j) r"
  by (simp add: skip_draws_def algebra_simps)

lemma draw_bounds: "0 \<le> draw chacha20 k r i" "draw chacha20 k r i < 2 ^ k"
  by (simp_all add: draw_def)

lemma randbelow_loop_draws:
  assumes "1 \<le> k" and "draw chacha20 k r j < n" and "\<forall>i < j. n \<le> draw chacha20 k r i" and "j < fuel"
  shows "randbelow_loop chacha20 fuel (int k) n (draw chacha20 k r 0) (skip_draws k 1 r) =
           (Inr (draw chacha20 k r j), skip_draws k (Suc j) r)"
  using assms
proof (induction j arbitrary: r fuel)
  case 0
  then show ?case by (cases fuel) (simp_all add: sm_simps)
next
  case (Suc j)
  then obtain fuel' where fuel: "fuel = Suc fuel'" by (cases fuel) auto
  let ?r = "skip_draws k 1 r"
  have "draw chacha20 k ?r j < n" "\<forall>i < j. n \<le> draw chacha20 k ?r i" "j < fuel'"
    using Suc.prems by (auto simp: draw_skip fuel)
  from Suc.IH [OF \<open>1 \<le> k\<close> this] have
    "randbelow_loop chacha20 fuel' (int k) n (draw chacha20 k r 1) (skip_draws k 2 r) =
       (Inr (draw chacha20 k r (Suc j)), skip_draws k (Suc (Suc j)) r)"
    by (simp add: draw_skip skip_skip numeral_2_eq_2)
  moreover have "n \<le> draw chacha20 k r 0" using Suc.prems(3) by blast
  ultimately show ?case
    by (simp add: fuel sm_simps randbits_draw [OF \<open>1 \<le> k\<close>] draw_skip skip_skip numeral_2_eq_2)
qed

lemma bit_length_pos: "0 < n \<Longrightarrow> 1 \<le> bit_length n"
  by (subst bit_length.simps) simp

lemma first_draw:
  fixes P :: "nat \<Rightarrow> bool"
  assumes "P m"
  obtains j where "j \<le> m" "P j" "\<forall>i < j. \<not> P i"
  by (metis LeastI_ex Least_le assms not_less_Least)

text \<open>
  C39. A random number below \<open>n\<close> is the first draw of as many bits as \<open>n\<close> has that is below \<open>n\<close>, and the
  generator stands behind it. When some draw is below \<open>n\<close> the loop ends: as many rounds as the place of that
  draw are enough.
\<close>

theorem randbelow_first_draw:
  assumes "1 \<le> n" and "draw chacha20 (bit_length (nat n)) r m < n"
  shows "\<exists>j \<le> m. draw chacha20 (bit_length (nat n)) r j < n \<and>
           (\<forall>i < j. \<not> draw chacha20 (bit_length (nat n)) r i < n) \<and>
           (\<forall>fuel > m. randbelow chacha20 fuel n r =
              (Inr (draw chacha20 (bit_length (nat n)) r j), skip_draws (bit_length (nat n)) (Suc j) r))"
proof -
  let ?k = "bit_length (nat n)"
  have k: "1 \<le> ?k" using assms(1) by (intro bit_length_pos) simp
  obtain j where j: "j \<le> m" "draw chacha20 ?k r j < n" "\<forall>i < j. \<not> draw chacha20 ?k r i < n"
    using first_draw [where P = "\<lambda>i. draw chacha20 ?k r i < n", OF assms(2)] by blast
  have "randbelow chacha20 fuel n r = (Inr (draw chacha20 ?k r j), skip_draws ?k (Suc j) r)" if "m < fuel" for fuel
    using randbelow_loop_draws [OF k j(2), of fuel] j that assms(1)
    by (simp add: randbelow_def sm_simps randbits_draw [OF k] not_less)
  then show ?thesis using j by blast
qed

theorem randbelow_first_draw_witness:
  "let cipher = (\<lambda>key nonce i. of_nat (7 - i)); r = \<lparr>rng_seed = [], rng_pos = 0\<rparr> in
   draw cipher 3 r 2 = 5 \<and> fst (randbelow cipher 3 6 r) = Inr 5"
proof -
  let ?c = "\<lambda>key nonce i. of_nat (7 - i) :: byte" and ?r = "\<lparr>rng_seed = [], rng_pos = 0\<rparr>"
  have k: "bit_length (nat 6) = 3" by (simp add: bit_length.simps)
  have d: "draw ?c 3 ?r 0 = 7" "draw ?c 3 ?r 1 = 6" "draw ?c 3 ?r 2 = 5"
    by (simp_all add: draw_def)
  obtain j where j: "j \<le> 2" "draw ?c 3 ?r j < 6"
      "randbelow ?c 3 6 ?r = (Inr (draw ?c 3 ?r j), skip_draws 3 (Suc j) ?r)"
    using randbelow_first_draw [of 6 ?c ?r 2, unfolded k] d by auto
  then have "j = 2" using d by (cases j; cases "j - 1") (auto simp: le_Suc_eq numeral_2_eq_2)
  then show ?thesis using j d by (simp add: Let_def)
qed

section \<open>Ranges\<close>

lemma randbelow_range:
  assumes "randbelow chacha20 fuel n r = (Inr x, r')"
  shows "0 \<le> x \<and> x < n"
proof -
  have loop: "0 \<le> y \<Longrightarrow> randbelow_loop chacha20 f (int k) n y s = (Inr x, r') \<Longrightarrow> 0 \<le> x \<and> x < n"
    if "1 \<le> k" for f k y s
  proof (induction f arbitrary: y s)
    case (Suc f)
    then show ?case
      using draw_bounds(1) [of chacha20 k s 0]
      by (auto simp: sbind_Inr randbits_draw [OF that] split: if_splits)
  qed simp
  have n: "1 \<le> n" using assms by (simp add: randbelow_def sthen_Inr)
  then have k: "1 \<le> bit_length (nat n)" by (intro bit_length_pos) simp
  show ?thesis
    using assms loop [OF k] draw_bounds(1) [of chacha20 "bit_length (nat n)" r 0]
    by (auto simp: randbelow_def sm_invert randbits_draw [OF k])
qed

lemma result_if_any:
  "(\<And>x s'. m s = (Inr x, s') \<Longrightarrow> P x) \<Longrightarrow> case fst (m s) of Inl e \<Rightarrow> True | Inr x \<Rightarrow> P x"
  by (cases "m s") (auto split: sum.split)

lemma range_step:
  fixes start stop step k :: int
  assumes "0 \<le> k" "k < (stop - start + step - 1) div step" "1 \<le> step"
  shows "start + k * step < stop"
proof -
  have "k + 1 \<le> (stop - start + step - 1) div step" using assms(2) by simp
  then have "(k + 1) * step \<le> (stop - start + step - 1) div step * step" using assms(3) by (simp add: mult_right_mono)
  also have "\<dots> \<le> stop - start + step - 1"
    by (metis div_mult_mod_eq le_add_same_cancel1 assms(3) pos_mod_sign zero_less_one order_less_le_trans)
  finally show ?thesis by (simp add: algebra_simps)
qed

text \<open>
  C40. Whatever the key stream, a number that the generator returns lies in the range asked for: below \<open>n\<close>,
  in the arithmetic progression from \<open>start\<close> to \<open>stop\<close>, between \<open>a\<close> and \<open>b\<close>, one of the elements of the
  sequence, and for \<open>random\<close> in the numerators of \<open>[0, 1)\<close>.
\<close>

theorem rng_in_range:
  "(case fst (randbelow chacha20 fuel n r) of Inl e \<Rightarrow> True | Inr x \<Rightarrow> 0 \<le> x \<and> x < n) \<and>
   (case fst (randrange chacha20 fuel start stop step r) of
      Inl e \<Rightarrow> True | Inr x \<Rightarrow> start \<le> x \<and> x < stop \<and> (x - start) mod step = 0) \<and>
   (case fst (randint chacha20 fuel a b r) of Inl e \<Rightarrow> True | Inr x \<Rightarrow> a \<le> x \<and> x \<le> b) \<and>
   (case fst (choice chacha20 fuel xs r) of Inl e \<Rightarrow> True | Inr x \<Rightarrow> x \<in> set xs) \<and>
   (\<exists>x r'. rng_random chacha20 r = (Inr x, r') \<and> 0 \<le> x \<and> x < 2 ^ 53)"
proof (intro conjI result_if_any)
  show "0 \<le> x" "x < n" if "randbelow chacha20 fuel n r = (Inr x, r')" for x r'
    using randbelow_range [OF that] by simp_all
  show "start \<le> x" "x < stop" "(x - start) mod step = 0"
    if "randrange chacha20 fuel start stop step r = (Inr x, r')" for x r'
    using that by (auto simp: randrange_def sm_invert intro: range_step dest!: randbelow_range)
  show "a \<le> x" "x \<le> b" if "randint chacha20 fuel a b r = (Inr x, r')" for x r'
    using that by (auto simp: randint_def sm_invert dest!: randbelow_range)
  show "x \<in> set xs" if "choice chacha20 fuel xs r = (Inr x, r')" for x r'
    using that by (auto simp: choice_def sm_invert dest!: randbelow_range)
  show "\<exists>x r'. rng_random chacha20 r = (Inr x, r') \<and> 0 \<le> x \<and> x < 2 ^ 53"
    using randbits_draw [of 53 chacha20 r] draw_bounds [of chacha20 53 r 0] by (simp add: rng_random_def)
qed

end
