(* ===== verification/Call_Info.thy ===== *)
theory Call_Info
  imports NC_Program NC_Rng
begin

text \<open>
  The bookkeeping of one execution: call records, the stack of calls and the trackers of the contracts
  called (\<^verbatim>\<open>hathor/nanocontracts/runner/call_info.py\<close>), and the log with the events of the execution
  (\<open>NCLogger\<close> in \<^verbatim>\<open>hathor/nanocontracts/nc_exec_logs.py\<close>).
\<close>

section \<open>Log\<close>

datatype call_type = PUBLIC | VIEW

datatype log_entry = LogCallBegin bytes call_type ustring | LogCallEnd

record nc_event =
  ev_nc_id :: bytes
  ev_data :: bytes

record nc_logger =
  log_nc_id :: bytes
  log_entries :: "log_entry list"
  log_events :: "nc_event list"

definition MAX_EVENT_SIZE :: nat where "MAX_EVENT_SIZE = 1024"

definition log_emit_event :: "bytes \<Rightarrow> (nc_logger, unit) sm" where
  "log_emit_event data =
     sthen (sguard (length data \<le> MAX_EVENT_SIZE) NCFail)
       (smod (\<lambda>l. l\<lparr>log_events := log_events l @ [\<lparr>ev_nc_id = log_nc_id l, ev_data = data\<rparr>]\<rparr>))"

section \<open>Calls\<close>

text \<open>
  A call record refers to objects: the tracker of the call is the one at the position \<open>cr_tracker\<close> of the
  trackers of its contract, its list of index updates and the cache of its blueprint instance are those at the
  addresses \<open>cr_index_updates\<close> and \<open>cr_cache\<close>.
\<close>

record call_record =
  cr_type :: call_type
  cr_depth :: nat
  cr_contract_id :: bytes
  cr_blueprint_id :: bytes
  cr_method_name :: ustring
  cr_ctx :: "nc_context option"
  cr_args :: call_args
  cr_tracker :: nat
  cr_index_updates :: "nat option"
  cr_cache :: nat

text \<open>The newest call and the newest tracker of a contract come first.\<close>

record call_info =
  ci_stack :: "call_record list"
  ci_trackers :: "(bytes, tracker list) dict"
  ci_enable_call_trace :: bool
  ci_calls :: "call_record list option"
  ci_call_counter :: nat
  ci_logger :: nc_logger
  ci_updates :: "index_record list list"
  ci_caches :: "(bytes, cached) dict list"

abbreviation MAX_RECURSION_DEPTH :: nat where "MAX_RECURSION_DEPTH \<equiv> 100"
abbreviation MAX_CALL_COUNTER :: nat where "MAX_CALL_COUNTER \<equiv> 250"

definition build_call_info :: "bool \<Rightarrow> bytes \<Rightarrow> call_info" where
  "build_call_info enable_call_trace contract_id =
     \<lparr>ci_stack = [], ci_trackers = [], ci_enable_call_trace = enable_call_trace, ci_calls = None,
      ci_call_counter = 0, ci_logger = \<lparr>log_nc_id = contract_id, log_entries = [], log_events = []\<rparr>,
      ci_updates = [], ci_caches = []\<rparr>"

definition trackers_of :: "bytes \<Rightarrow> call_info \<Rightarrow> tracker list" where
  "trackers_of contract_id ci = (case dict_get (ci_trackers ci) contract_id of None \<Rightarrow> [] | Some ts \<Rightarrow> ts)"

text \<open>A new blueprint instance has an empty cache; a public call has a new list of index updates.\<close>

definition new_cache :: "(call_info, nat) sm" where
  "new_cache ci = (Inr (length (ci_caches ci)), ci\<lparr>ci_caches := ci_caches ci @ [[]]\<rparr>)"

definition new_updates :: "(call_info, nat) sm" where
  "new_updates ci = (Inr (length (ci_updates ci)), ci\<lparr>ci_updates := ci_updates ci @ [[]]\<rparr>)"

definition add_index_update :: "nat option \<Rightarrow> index_record \<Rightarrow> (call_info, unit) sm" where
  "add_index_update addr r =
     (case addr of
        None \<Rightarrow> sraise AssertionError
      | Some a \<Rightarrow> smod (\<lambda>ci. ci\<lparr>ci_updates := (ci_updates ci)[a := ci_updates ci ! a @ [r]]\<rparr>))"

definition log_call_begin :: "call_record \<Rightarrow> nc_logger \<Rightarrow> nc_logger" where
  "log_call_begin r l =
     l\<lparr>log_entries := log_entries l @ [LogCallBegin (cr_contract_id r) (cr_type r) (cr_method_name r)]\<rparr>"

definition log_call_end :: "nc_logger \<Rightarrow> nc_logger" where
  "log_call_end l = l\<lparr>log_entries := log_entries l @ [LogCallEnd]\<rparr>"

text \<open>\<open>pre_call\<close>; \<open>tracker\<close> is the new tracker of the call.\<close>

definition pre_call :: "call_record \<Rightarrow> tracker \<Rightarrow> (call_info, unit) sm" where
  "pre_call r tracker =
     sbind (sget (\<lambda>ci. ci)) (\<lambda>ci.
     sthen (sguard (length (ci_stack ci) < MAX_RECURSION_DEPTH) NCRecursionError)
     (sthen (sguard (ci_call_counter ci < MAX_CALL_COUNTER) NCNumberOfCallsExceeded)
     (smod (\<lambda>ci. ci\<lparr>
        ci_calls := (if ci_enable_call_trace ci
                     then Some ((case ci_calls ci of None \<Rightarrow> [] | Some cs \<Rightarrow> cs) @ [r])
                     else ci_calls ci),
        ci_trackers := dict_put (cr_contract_id r) (tracker # trackers_of (cr_contract_id r) ci) (ci_trackers ci),
        ci_call_counter := ci_call_counter ci + 1,
        ci_stack := r # ci_stack ci,
        ci_logger := log_call_begin r (ci_logger ci)\<rparr>))))"

text \<open>
  \<open>post_call\<close>. That the storage of a tracker is the one below it in the list, and the contract storage for the
  lowest, is how the model represents trackers; those assertions are about its position. The lowest tracker and
  the contract storage are both made for the contract of the record.
\<close>

definition post_call :: "call_record \<Rightarrow> (call_info, unit) sm" where
  "post_call r =
     sbind (sget (\<lambda>ci. ci)) (\<lambda>ci.
       case ci_stack ci of
         [] \<Rightarrow> sraise IndexError
       | newest # stack \<Rightarrow>
           sthen (smod (\<lambda>ci. ci\<lparr>ci_stack := stack\<rparr>))
           (sthen (sassert (r = newest))
             (case dict_get (ci_trackers ci) (cr_contract_id r) of
                None \<Rightarrow> sraise KeyError
              | Some [] \<Rightarrow> sraise IndexError
              | Some (t # ts) \<Rightarrow>
                  sthen (sassert (cr_tracker r = length ts))
                  (sthen (sassert (ts = [] \<or> ct_nc_id t = ct_nc_id (hd ts)))
                  (sthen (if ts = [] then sret ()
                          else smod (\<lambda>ci. ci\<lparr>ci_trackers := dict_put (cr_contract_id r) ts (ci_trackers ci)\<rparr>))
                     (smod (\<lambda>ci. ci\<lparr>ci_logger := log_call_end (ci_logger ci)\<rparr>)))))))"

end
