(* ===== verification/Runner.thy ===== *)
theory Runner
  imports Call_Info Balance_Rules
begin

text \<open>
  The runner (\<^verbatim>\<open>hathor/nanocontracts/runner/runner.py\<close>): it executes the method a transaction calls and every
  call between contracts below it, and carries out the system calls of the code. The metered executor
  (\<^verbatim>\<open>hathor/nanocontracts/metered_exec.py\<close>) is the place where the exceptions of blueprint code become
  \<open>NCFail\<close>.
\<close>

section \<open>State\<close>

text \<open>
  What the runner reads of the node: the blueprints and the transactions that created tokens, the latter with
  whether a block confirms them; and the libraries.
\<close>

record nc_env =
  ne_runtime :: runtime
  ne_blueprint :: "bytes \<Rightarrow> blueprint option"
  ne_token_tx :: "bytes \<Rightarrow> (token_description \<times> bool) option"
  ne_chacha20 :: stream_cipher

record runner =
  r_block :: block_storage
  r_storages :: "(bytes, contract_storage) dict"
  r_metered_executor :: bool
  r_enable_call_trace :: bool
  r_call_info :: "call_info option"
  r_last_call_info :: "call_info option"
  r_rng :: "nano_rng option"
  r_rng_per_contract :: "(bytes, nano_rng) dict"
  r_updated_tokens_totals :: "(bytes, int) dict"
  r_paid_actions_fees :: "(bytes, int) dict"

definition new_runner :: "block_storage \<Rightarrow> bytes option \<Rightarrow> exc + runner" where
  "new_runner block_storage seed =
     (case (case seed of None \<Rightarrow> Inr None | Some s \<Rightarrow> (case new_rng s of Inl e \<Rightarrow> Inl e | Inr r \<Rightarrow> Inr (Some r))) of
        Inl e \<Rightarrow> Inl e
      | Inr rng \<Rightarrow>
          Inr \<lparr>r_block = block_storage, r_storages = [], r_metered_executor = False, r_enable_call_trace = True,
               r_call_info = None, r_last_call_info = None, r_rng = rng, r_rng_per_contract = [],
               r_updated_tokens_totals = [], r_paid_actions_fees = []\<rparr>)"

text \<open>A value that may be an exception, and code on a part of the state.\<close>

definition sof :: "exc + 'a \<Rightarrow> ('s, 'a) sm" where
  "sof r = (\<lambda>s. (r, s))"

definition on_block :: "(block_storage, 'a) sm \<Rightarrow> (runner, 'a) sm" where
  "on_block f s = (case f (r_block s) of (r, b) \<Rightarrow> (r, s\<lparr>r_block := b\<rparr>))"

text \<open>\<^verbatim>\<open>assert self._call_info is not None\<close>, and code on it.\<close>

definition on_call_info :: "(call_info, 'a) sm \<Rightarrow> (runner, 'a) sm" where
  "on_call_info f s =
     (case r_call_info s of
        None \<Rightarrow> (Inl AssertionError, s)
      | Some ci \<Rightarrow> (case f ci of (r, ci') \<Rightarrow> (r, s\<lparr>r_call_info := Some ci'\<rparr>)))"

text \<open>\<^verbatim>\<open>defaultdict(int)[k] += n\<close>.\<close>

definition add_total :: "bytes \<Rightarrow> int \<Rightarrow> (bytes, int) dict \<Rightarrow> (bytes, int) dict" where
  "add_total uid amount d = dict_put uid ((case dict_get d uid of None \<Rightarrow> 0 | Some n \<Rightarrow> n) + amount) d"

definition layers_of :: "bytes \<Rightarrow> runner \<Rightarrow> tracker list" where
  "layers_of contract_id s = (case r_call_info s of None \<Rightarrow> [] | Some ci \<Rightarrow> trackers_of contract_id ci)"

text \<open>
  Code on a storage object of a contract: the \<open>n\<close> lowest trackers over the contract storage. With \<open>n = 0\<close> it
  is the contract storage, with the position of a tracker plus one it is that tracker.
\<close>

definition put_chain :: "bytes \<Rightarrow> tracker list \<Rightarrow> nc_chain \<Rightarrow> runner \<Rightarrow> runner" where
  "put_chain contract_id newer ch s =
     s\<lparr>r_storages := dict_put contract_id (ch_base ch) (r_storages s), r_block := ch_block ch,
       r_call_info := map_option (\<lambda>ci.
         if newer @ ch_layers ch = [] then ci
         else ci\<lparr>ci_trackers := dict_put contract_id (newer @ ch_layers ch) (ci_trackers ci)\<rparr>) (r_call_info s)\<rparr>"

definition on_storage :: "bytes \<Rightarrow> nat \<Rightarrow> (nc_chain, 'a) sm \<Rightarrow> (runner, 'a) sm" where
  "on_storage contract_id n f s =
     (case dict_get (r_storages s) contract_id of
        None \<Rightarrow> (Inl KeyError, s)
      | Some cs \<Rightarrow>
          (let ts = layers_of contract_id s; k = length ts - n
           in case f \<lparr>ch_layers = drop k ts, ch_base = cs, ch_block = r_block s\<rparr> of
                (r, ch) \<Rightarrow> (r, put_chain contract_id (take k ts) ch s)))"

section \<open>Contracts and the current call\<close>

definition has_contract_been_initialized :: "bytes \<Rightarrow> (runner, bool) sm" where
  "has_contract_been_initialized contract_id s =
     (if dict_has (r_storages s) contract_id then (Inr True, s)
      else (bs_has_contract contract_id (r_block s), s))"

definition get_storage :: "nc_env \<Rightarrow> bytes \<Rightarrow> (runner, unit) sm" where
  "get_storage env contract_id =
     sbind (sget (\<lambda>s. dict_has (r_storages s) contract_id)) (\<lambda>known.
       if known then sret ()
       else sbind (on_block (bs_get_contract_storage (ne_runtime env) contract_id)) (\<lambda>storage.
              smod (\<lambda>s. s\<lparr>r_storages := dict_put contract_id (cs_lock storage) (r_storages s)\<rparr>)))"

text \<open>
  \<open>get_current_changes_tracker_or_storage\<close>: afterwards the object is the one over all trackers of the contract.
\<close>

definition tracker_or_storage :: "nc_env \<Rightarrow> bytes \<Rightarrow> (runner, nat) sm" where
  "tracker_or_storage env contract_id =
     sbind (sget (\<lambda>s. case r_call_info s of None \<Rightarrow> None | Some ci \<Rightarrow> dict_get (ci_trackers ci) contract_id)) (\<lambda>trackers.
       case trackers of
         Some ts \<Rightarrow> sthen (sassert (ts \<noteq> [])) (sret (length ts))
       | None \<Rightarrow> sthen (get_storage env contract_id) (sret 0))"

definition get_blueprint_id :: "nc_env \<Rightarrow> bytes \<Rightarrow> (runner, bytes) sm" where
  "get_blueprint_id env contract_id =
     sbind (tracker_or_storage env contract_id) (\<lambda>n.
       on_storage contract_id n (\<lambda>ch. (ct_get_blueprint_id (ne_runtime env) (ch_layers ch) (ch_base ch), ch)))"

definition get_current_call_record :: "(runner, call_record) sm" where
  "get_current_call_record =
     sbind (on_call_info (sget ci_stack)) (\<lambda>stack. case stack of [] \<Rightarrow> sraise IndexError | r # _ \<Rightarrow> sret r)"

definition get_current_contract_id :: "(runner, bytes) sm" where
  "get_current_contract_id = sbind get_current_call_record (\<lambda>r. sret (cr_contract_id r))"

definition get_current_code_blueprint_id :: "(runner, bytes) sm" where
  "get_current_code_blueprint_id = sbind get_current_call_record (\<lambda>r. sret (cr_blueprint_id r))"

text \<open>The current tracker: its contract and how many trackers the object is over.\<close>

definition get_current_changes_tracker :: "(runner, bytes \<times> nat) sm" where
  "get_current_changes_tracker =
     sbind get_current_contract_id (\<lambda>contract_id.
     sbind (on_call_info (sget (\<lambda>ci. dict_get (ci_trackers ci) contract_id))) (\<lambda>trackers.
       case trackers of
         None \<Rightarrow> sraise KeyError
       | Some ts \<Rightarrow> sthen (sassert (ts \<noteq> [])) (sret (contract_id, length ts))))"

definition on_current_tracker :: "(nc_chain, 'a) sm \<Rightarrow> (runner, 'a) sm" where
  "on_current_tracker f = sbind get_current_changes_tracker (\<lambda>(contract_id, n). on_storage contract_id n f)"

text \<open>\<^verbatim>\<open>assert changes_tracker.nc_id == call_record.contract_id\<close>.\<close>

definition assert_current_tracker :: "(runner, unit) sm" where
  "assert_current_tracker =
     sbind get_current_contract_id (\<lambda>contract_id.
       on_current_tracker (\<lambda>ch. sassert (case ch_layers ch of [] \<Rightarrow> False | t # _ \<Rightarrow> ct_nc_id t = contract_id) ch))"

definition forbid_call_on_view :: "(runner, unit) sm" where
  "forbid_call_on_view =
     sbind get_current_call_record (\<lambda>r. sguard (cr_type r \<noteq> VIEW) NCViewMethodError)"

definition runner_get_balance :: "nc_env \<Rightarrow> bytes \<Rightarrow> bytes option \<Rightarrow> bool \<Rightarrow> (runner, balance) sm" where
  "runner_get_balance env contract_id token_uid before_current_call =
     (let uid = (case token_uid of None \<Rightarrow> HATHOR_TOKEN_UID | Some t \<Rightarrow> t);
          read = (\<lambda>n. on_storage contract_id n (ch_get_balance (ne_runtime env) uid));
          other = sthen (sassert (\<not> before_current_call)) (sbind (tracker_or_storage env contract_id) read)
      in sbind (sget (\<lambda>s. r_call_info s = None)) (\<lambda>idle.
           if idle then other
           else sbind get_current_contract_id (\<lambda>current.
                  if contract_id = current
                  then sbind get_current_changes_tracker (\<lambda>(_, n). read (if before_current_call then n - 1 else n))
                  else other)))"

definition create_blueprint_instance :: "nc_env \<Rightarrow> bytes \<Rightarrow> (runner, blueprint \<times> nat) sm" where
  "create_blueprint_instance env blueprint_id =
     sbind (on_call_info new_cache) (\<lambda>cache.
       case ne_blueprint env blueprint_id of
         None \<Rightarrow> sraise BlueprintDoesNotExist
       | Some blueprint \<Rightarrow> sret (blueprint, cache))"

section \<open>Checks of a call\<close>

definition validate_context :: "nc_context \<Rightarrow> exc + unit" where
  "validate_context ctx =
     (if list_all (\<lambda>(uid, actions). list_all (\<lambda>a. uid = action_token_uid a \<and> \<not> negative_amount a) actions)
           (ctx_actions ctx)
      then Inr () else Inl NCInvalidContext)"

definition validate_reentrancy :: "bytes \<Rightarrow> bp_method \<Rightarrow> (runner, unit) sm" where
  "validate_reentrancy contract_id m =
     sbind (on_call_info (sget ci_stack)) (\<lambda>stack.
       if bm_allow_reentrancy m then sret ()
       else sguard (contract_id \<notin> cr_contract_id ` set stack) NCForbiddenReentrancy)"

definition validate_actions :: "bp_method \<Rightarrow> nc_context \<Rightarrow> exc + unit" where
  "validate_actions m ctx =
     (if list_all (\<lambda>(uid, actions). list_all (\<lambda>a. action_type a \<in> bm_allowed_actions m) actions) (ctx_actions ctx)
      then Inr () else Inl NCForbiddenAction)"

text \<open>The method of a public call with its name and arguments: the one named, or \<open>fallback\<close>.\<close>

definition find_public_method ::
    "nc_env \<Rightarrow> blueprint \<Rightarrow> ustring \<Rightarrow> nc_args \<Rightarrow> bool \<Rightarrow> exc + bp_method \<times> ustring \<times> call_args" where
  "find_public_method env blueprint method_name nc_args forbid_fallback =
     (case dict_get (bp_methods blueprint) method_name of
        None \<Rightarrow>
          if method_name = NC_INITIALIZE_METHOD then Inl AssertionError
          else if forbid_fallback then Inl NCMethodNotFound
          else (case dict_get (bp_methods blueprint) NC_FALLBACK_METHOD of
                  None \<Rightarrow> Inl NCMethodNotFound
                | Some m \<Rightarrow> if is_nc_fallback_method m
                            then Inr (m, NC_FALLBACK_METHOD, FallbackArgs method_name nc_args)
                            else Inl AssertionError)
      | Some m \<Rightarrow>
          if \<not> is_nc_public_method m then Inl NCInvalidMethodCall
          else (case validate_nc_args_for_method (set_order (ne_runtime env)) (bm_sig m) nc_args of
                  Inl e \<Rightarrow> Inl e
                | Inr args \<Rightarrow> Inr (m, method_name, Args args)))"

definition find_view_method ::
    "nc_env \<Rightarrow> blueprint \<Rightarrow> ustring \<Rightarrow> nc_value list \<Rightarrow> (ustring, nc_value) dict \<Rightarrow> exc + bp_method \<times> nc_value list" where
  "find_view_method env blueprint method_name args kwargs =
     (case dict_get (bp_methods blueprint) method_name of
        None \<Rightarrow> Inl NCMethodNotFound
      | Some m \<Rightarrow>
          if \<not> is_nc_view_method m then Inl NCInvalidMethodCall
          else (case validate_nc_args_for_method (set_order (ne_runtime env)) (bm_sig m) (NCParsedArgs args kwargs) of
                  Inl e \<Rightarrow> Inl e
                | Inr vs \<Rightarrow> Inr (m, vs)))"

text \<open>\<open>_check_all_field_initialized\<close> looks at the cache of the instance first, then at its storage.\<close>

abbreviation KEY_SEPARATOR :: byte where "KEY_SEPARATOR \<equiv> 58"

definition INIT_KEY :: bytes where "INIT_KEY = map of_nat (ustr ''__init__'')"

definition field_prefix :: "field \<Rightarrow> bytes" where
  "field_prefix f = (case f of LeafField p _ \<Rightarrow> p | ContainerField p \<Rightarrow> p)"

definition field_is_initialized :: "nc_env \<Rightarrow> call_record \<Rightarrow> field \<Rightarrow> (runner, bool) sm" where
  "field_is_initialized env r f =
     sbind (on_call_info (sget (\<lambda>ci. dict_has (ci_caches ci ! cr_cache r) (field_prefix f)))) (\<lambda>hit.
       if hit then sret True
       else on_storage (cr_contract_id r) (cr_tracker r + 1) (\<lambda>ch.
              (case f of
                 LeafField p t \<Rightarrow> ct_has_obj (ne_runtime env) p (ch_layers ch) (ch_base ch)
               | ContainerField p \<Rightarrow>
                   (case ct_get_obj (ne_runtime env) (p @ KEY_SEPARATOR # INIT_KEY) BoolNC (Some (BoolV False))
                           (ch_layers ch) (ch_base ch) of
                      Inl e \<Rightarrow> Inl e
                    | Inr v \<Rightarrow> Inr (v = BoolV True)), ch)))"

primrec uninitialized_fields :: "nc_env \<Rightarrow> call_record \<Rightarrow> field list \<Rightarrow> (runner, field list) sm" where
  "uninitialized_fields env r [] = sret []"
| "uninitialized_fields env r (f # fs) =
     sbind (field_is_initialized env r f) (\<lambda>init.
     sbind (uninitialized_fields env r fs) (\<lambda>uninit. sret (if init then uninit else f # uninit)))"

definition check_all_field_initialized :: "nc_env \<Rightarrow> call_record \<Rightarrow> blueprint \<Rightarrow> (runner, unit) sm" where
  "check_all_field_initialized env r blueprint =
     sbind (uninitialized_fields env r (bp_fields blueprint)) (\<lambda>uninit. sguard (uninit = []) NCFail)"

section \<open>Executing a method\<close>

text \<open>\<open>MeteredExecutor.call\<close>: an exception that is no \<open>NCFail\<close> becomes one.\<close>

definition metered_call :: "(runner, 'a) sm \<Rightarrow> (runner, 'a) sm" where
  "metered_call m s =
     (case m s of
        (Inl e, s') \<Rightarrow> (Inl (if is_nc_fail e \<or> e = OutOfFuel then e else NCFail), s')
      | (Inr x, s') \<Rightarrow> (Inr x, s'))"

definition handle_index_update :: "nc_action \<Rightarrow> (runner, unit) sm" where
  "handle_index_update action =
     sbind get_current_call_record (\<lambda>r.
     sthen (sassert (cr_index_updates r \<noteq> None))
       (case action of
          NCDepositAction _ _ \<Rightarrow> sret ()
        | NCWithdrawalAction _ _ \<Rightarrow> sret ()
        | NCGrantAuthorityAction uid mint melt \<Rightarrow>
            sbind (sof (new_record (UpdateAuthoritiesRecord GRANT_AUTHORITIES uid mint melt))) (\<lambda>record.
              on_call_info (add_index_update (cr_index_updates r) record))
        | NCAcquireAuthorityAction uid mint melt \<Rightarrow>
            sbind (sof (new_record (UpdateAuthoritiesRecord GRANT_AUTHORITIES uid mint melt))) (\<lambda>record.
              on_call_info (add_index_update (cr_index_updates r) record))))"

text \<open>
  \<open>_execute_public_method_call\<close> from the point where the call record exists; \<open>run\<close> executes the code of a
  method.
\<close>

definition run_public_call ::
    "nc_env \<Rightarrow> (nc_value prog \<Rightarrow> (runner, nc_value) sm) \<Rightarrow> call_record \<Rightarrow> bp_method \<Rightarrow> blueprint \<Rightarrow> nc_context \<Rightarrow> bool \<Rightarrow>
     (runner, nc_value) sm" where
  "run_public_call env run r m blueprint ctx initializing =
     (let rt = ne_runtime env; contract_id = cr_contract_id r; n = cr_tracker r + 1 in
      sthen (on_call_info (pre_call r (new_tracker contract_id)))
      (sthen (sof (validate_actions m ctx))
      (sthen (sfor (ctx_all_actions ctx) (\<lambda>action.
         sthen (on_storage contract_id n (nc_callee_execution_rule rt action)) (handle_index_update action)))
      (sbind (sof (ctx_copy ctx)) (\<lambda>ctx'.
       sbind (metered_call (run (bm_code m (Some ctx') (cr_args r)))) (\<lambda>ret.
       sthen (if initializing then check_all_field_initialized env r blueprint else sret ())
      (sbind (on_call_info (sget (\<lambda>ci. length (trackers_of contract_id ci)))) (\<lambda>len.
       sthen (if 1 < len then on_storage contract_id n (ch_commit rt) else sret ())
      (sthen (on_call_info (post_call r))
         (sof (validate_return_type_for_method (set_order rt) (ms_return (bm_sig m)) ret)))))))))))"

definition execute_public_method_call ::
    "nc_env \<Rightarrow> (nc_value prog \<Rightarrow> (runner, nc_value) sm) \<Rightarrow> bytes \<Rightarrow> bytes \<Rightarrow> ustring \<Rightarrow> nc_context \<Rightarrow> nc_args \<Rightarrow> bool \<Rightarrow> bool \<Rightarrow>
     (runner, nc_value) sm" where
  "execute_public_method_call env run contract_id blueprint_id method_name ctx nc_args
       skip_reentrancy_validation forbid_fallback =
     sbind (sget r_metered_executor) (\<lambda>metered.
     sthen (sassert metered)
     (sthen (on_call_info (sret ()))
     (sthen (sof (validate_context ctx))
     (sbind (tracker_or_storage env contract_id) (\<lambda>n.
      sbind (create_blueprint_instance env blueprint_id) (\<lambda>(blueprint, cache).
      sbind (sof (find_public_method env blueprint method_name nc_args forbid_fallback)) (\<lambda>(m, called_method_name, args).
      sthen (if skip_reentrancy_validation then sret () else validate_reentrancy contract_id m)
     (sbind (on_call_info (sget (\<lambda>ci. length (ci_stack ci)))) (\<lambda>depth.
      sbind (on_call_info new_updates) (\<lambda>updates.
      run_public_call env run
        \<lparr>cr_type = PUBLIC, cr_depth = depth, cr_contract_id = contract_id, cr_blueprint_id = blueprint_id,
         cr_method_name = called_method_name, cr_ctx = Some ctx, cr_args = args, cr_tracker = n,
         cr_index_updates = Some updates, cr_cache = cache\<rparr>
        m blueprint ctx (method_name = NC_INITIALIZE_METHOD)))))))))))"

definition unsafe_call_view_method ::
    "nc_env \<Rightarrow> (nc_value prog \<Rightarrow> (runner, nc_value) sm) \<Rightarrow> bytes \<Rightarrow> bytes \<Rightarrow> ustring \<Rightarrow> nc_value list \<Rightarrow>
     (ustring, nc_value) dict \<Rightarrow> (runner, nc_value) sm" where
  "unsafe_call_view_method env run contract_id blueprint_id method_name args kwargs =
     sthen (on_call_info (sret ()))
     (sbind (has_contract_been_initialized contract_id) (\<lambda>init.
      sthen (sguard init NCUninitializedContractError)
     (sthen (smod (\<lambda>s. s\<lparr>r_metered_executor := True\<rparr>))
     (sbind (tracker_or_storage env contract_id) (\<lambda>n.
      sbind (create_blueprint_instance env blueprint_id) (\<lambda>(blueprint, cache).
      sbind (sof (find_view_method env blueprint method_name args kwargs)) (\<lambda>(m, vs).
      sbind (on_call_info (sget (\<lambda>ci. length (ci_stack ci)))) (\<lambda>depth.
      let r = \<lparr>cr_type = VIEW, cr_depth = depth, cr_contract_id = contract_id, cr_blueprint_id = blueprint_id,
               cr_method_name = method_name, cr_ctx = None, cr_args = Args vs, cr_tracker = n,
               cr_index_updates = None, cr_cache = cache\<rparr> in
      sthen (on_call_info (pre_call r (new_tracker contract_id)))
     (sbind (metered_call (run (bm_code m None (Args vs)))) (\<lambda>ret.
      sbind (on_storage contract_id (n + 1) (\<lambda>ch.
         (case ch_layers ch of [] \<Rightarrow> Inl IndexError | t # _ \<Rightarrow> ct_is_empty t, ch))) (\<lambda>empty.
      sthen (sguard empty NCViewMethodError)
     (sthen (on_call_info (post_call r))
        (sof (validate_return_type_for_method (set_order (ne_runtime env)) (ms_return (bm_sig m)) ret))))))))))))))"

end
