(* ===== verification/Runner_Syscalls.thy ===== *)
theory Runner_Syscalls
  imports Runner
begin

text \<open>
  The system calls of the runner (the methods \<open>syscall_*\<close> of \<open>Runner\<close> and what they share), and the execution of
  the code of a method, which may call other methods.
\<close>

section \<open>Tokens\<close>

text \<open>\<open>_get_token\<close>.\<close>

definition runner_get_token :: "nc_env \<Rightarrow> bytes \<Rightarrow> (runner, token_description) sm" where
  "runner_get_token env token_uid =
     sthen assert_current_tracker
     (sbind (on_current_tracker (\<lambda>ch. (ct_has_token token_uid (ch_layers ch) (ch_block ch), ch))) (\<lambda>known.
        if known
        then on_current_tracker (\<lambda>ch. (ct_get_token (ne_runtime env) token_uid (ch_layers ch) (ch_block ch), ch))
        else if token_uid = HATHOR_TOKEN_UID
        then sret \<lparr>td_token_id = HATHOR_TOKEN_UID, td_token_name = HATHOR_TOKEN_NAME,
                   td_token_symbol = HATHOR_TOKEN_SYMBOL, td_token_version = NATIVE\<rparr>
        else (case ne_token_tx env token_uid of
                None \<Rightarrow> sraise NCInvalidSyscall
              | Some (td, confirmed) \<Rightarrow> sthen (sguard confirmed NCInvalidSyscall) (sret td))))"

fun update_uid :: "index_record \<Rightarrow> bytes" where
  "update_uid (CreateTokenRecord uid _ _ _ _) = uid"
| "update_uid (UpdateTokenBalanceRecord uid _) = uid"
| "update_uid _ = []"

fun update_amount :: "index_record \<Rightarrow> int" where
  "update_amount (CreateTokenRecord _ amount _ _ _) = amount"
| "update_amount (UpdateTokenBalanceRecord _ amount) = amount"
| "update_amount _ = 0"

text \<open>\<open>_update_tokens_amount\<close>; \<open>records\<close> are the operation and the fee as far as they are given.\<close>

definition update_tokens_amount :: "nc_env \<Rightarrow> index_record list \<Rightarrow> (runner, unit) sm" where
  "update_tokens_amount env records =
     sbind get_current_call_record (\<lambda>r.
     sbind get_current_changes_tracker (\<lambda>_.
     sthen (sassert (records \<noteq> []))
     (sthen assert_current_tracker
     (sthen (sassert (cr_index_updates r \<noteq> None))
       (sfor records (\<lambda>record.
          sthen (on_current_tracker (m_add_balance (chain_methods (ne_runtime env)) (update_uid record) (update_amount record)))
          (sthen (smod (\<lambda>s. s\<lparr>r_updated_tokens_totals :=
                     add_total (update_uid record) (update_amount record) (r_updated_tokens_totals s)\<rparr>))
             (on_call_info (add_index_update (cr_index_updates r) record)))))))))"

text \<open>\<open>_register_paid_fee\<close> and \<open>_validate_actions_fees\<close>.\<close>

definition register_paid_fee :: "bytes \<Rightarrow> int \<Rightarrow> (runner, unit) sm" where
  "register_paid_fee uid amount =
     smod (\<lambda>s. s\<lparr>r_paid_actions_fees := add_total uid amount (r_paid_actions_fees s)\<rparr>)"

primrec sum_of_fees :: "nc_fee list \<Rightarrow> (runner, int) sm" where
  "sum_of_fees [] = sret 0"
| "sum_of_fees (fee # fees) =
     sbind (sget (\<lambda>s. dict_has (r_paid_actions_fees s) (fee_token_uid fee))) (\<lambda>paid.
     sthen (sassert paid)
     (sbind (sof (get_htr_value fee)) (\<lambda>n.
      sbind (sum_of_fees fees) (\<lambda>rest. sret (n + rest)))))"

primrec expected_fee :: "nc_env \<Rightarrow> (bytes, nc_action list) dict \<Rightarrow> (runner, int) sm" where
  "expected_fee env [] = sret 0"
| "expected_fee env (item # items) =
     sbind (sget (\<lambda>s. dict_has (r_paid_actions_fees s) (fst item))) (\<lambda>paid.
     sbind (if paid then sret 0
            else sbind (runner_get_token env (fst item)) (\<lambda>token.
                   sret (if td_token_version token = FEE
                         then int (length (filter (\<lambda>a. action_type a \<in> {DEPOSIT_ACTION, WITHDRAWAL_ACTION}) (snd item)))
                         else 0))) (\<lambda>n.
     sbind (expected_fee env items) (\<lambda>rest. sret (n + rest))))"

definition validate_actions_fees :: "nc_env \<Rightarrow> (bytes, nc_action list) dict \<Rightarrow> nc_fee list \<Rightarrow> (runner, unit) sm" where
  "validate_actions_fees env grouped fees =
     sbind (sget (\<lambda>s. map fst (r_paid_actions_fees s))) (\<lambda>uids.
     sthen (sfor uids (\<lambda>uid. sbind (runner_get_token env uid) (\<lambda>token.
              sguard (td_token_version token \<in> {DEPOSIT, NATIVE}) NCInvalidFeePaymentToken)))
     (sbind (sum_of_fees fees) (\<lambda>fee_sum.
      sbind (expected_fee env grouped) (\<lambda>expected. sguard (fee_sum = expected) NCInvalidFee))))"

definition syscall_revoke_authorities :: "nc_env \<Rightarrow> bytes \<Rightarrow> bool \<Rightarrow> bool \<Rightarrow> (runner, unit) sm" where
  "syscall_revoke_authorities env token_uid revoke_mint revoke_melt =
     sthen forbid_call_on_view
     (sbind get_current_call_record (\<lambda>r.
      sthen (sguard (token_uid \<noteq> HATHOR_TOKEN_UID) NCInvalidSyscall)
     (sthen assert_current_tracker
     (sbind (on_current_tracker (ch_get_balance (ne_runtime env) token_uid)) (\<lambda>balance.
      sthen (sguard (\<not> (revoke_mint \<and> \<not> can_mint balance)) NCInvalidSyscall)
     (sthen (sguard (\<not> (revoke_melt \<and> \<not> can_melt balance)) NCInvalidSyscall)
     (sthen (on_current_tracker (m_revoke_authorities (chain_methods (ne_runtime env)) token_uid revoke_mint revoke_melt))
     (sthen (sassert (cr_index_updates r \<noteq> None))
     (sbind (sof (new_record (UpdateAuthoritiesRecord REVOKE_AUTHORITIES token_uid revoke_mint revoke_melt))) (\<lambda>record.
        on_call_info (add_index_update (cr_index_updates r) record)))))))))))"

definition syscall_mint_tokens :: "nc_env \<Rightarrow> bytes \<Rightarrow> int \<Rightarrow> bytes \<Rightarrow> (runner, unit) sm" where
  "syscall_mint_tokens env token_uid amount fee_payment_token =
     sthen forbid_call_on_view
     (sthen (sguard (0 < amount) NCInvalidSyscall)
     (sbind get_current_call_record (\<lambda>r.
      sthen (sguard (token_uid \<noteq> HATHOR_TOKEN_UID) NCInvalidSyscall)
     (sthen assert_current_tracker
     (sbind (on_current_tracker (ch_get_balance (ne_runtime env) token_uid)) (\<lambda>balance.
      sthen (sguard (can_mint balance) NCInvalidSyscall)
     (sbind (runner_get_token env token_uid) (\<lambda>token_info.
      sbind (runner_get_token env fee_payment_token) (\<lambda>fee_token.
      sbind (sof (calculate_mint_fee (td_token_version token_info) amount fee_token)) (\<lambda>fee.
      sthen (sassert (0 < amount \<and> fee < 0))
        (update_tokens_amount env
           [UpdateTokenBalanceRecord token_uid amount, UpdateTokenBalanceRecord fee_payment_token fee])))))))))))"

definition syscall_melt_tokens :: "nc_env \<Rightarrow> bytes \<Rightarrow> int \<Rightarrow> bytes \<Rightarrow> (runner, unit) sm" where
  "syscall_melt_tokens env token_uid amount fee_payment_token =
     sthen forbid_call_on_view
     (sthen (sguard (0 < amount) NCInvalidSyscall)
     (sbind get_current_call_record (\<lambda>r.
      sthen (sguard (token_uid \<noteq> HATHOR_TOKEN_UID) NCInvalidSyscall)
     (sthen assert_current_tracker
     (sbind (on_current_tracker (ch_get_balance (ne_runtime env) token_uid)) (\<lambda>balance.
      sthen (sguard (can_melt balance) NCInvalidSyscall)
     (sbind (runner_get_token env token_uid) (\<lambda>token_info.
      sbind (runner_get_token env fee_payment_token) (\<lambda>fee_token.
      sbind (sof (calculate_melt_fee (td_token_version token_info) amount fee_token)) (\<lambda>fee.
      sthen (sassert (0 < amount))
     (sthen (case td_token_version token_info of
               NATIVE \<Rightarrow> sraise AssertionError
             | DEPOSIT \<Rightarrow> sassert (0 < fee)
             | FEE \<Rightarrow> sassert (fee < 0))
        (update_tokens_amount env
           [UpdateTokenBalanceRecord token_uid (- amount), UpdateTokenBalanceRecord fee_payment_token fee]))))))))))))"

text \<open>\<open>_create_token\<close> and the common body of the two system calls that create a token.\<close>

definition runner_create_token ::
    "nc_env \<Rightarrow> token_version \<Rightarrow> bytes \<Rightarrow> int \<Rightarrow> token_description \<Rightarrow> ustring \<Rightarrow> ustring \<Rightarrow> (runner, unit) sm" where
  "runner_create_token env version token_uid amount fee_payment_token symbol name =
     sthen (sassert (version \<in> {DEPOSIT, FEE}))
     (sbind (sof (calculate_mint_fee version amount fee_payment_token)) (\<lambda>fee.
      sthen (sassert (0 < amount \<and> fee < 0))
     (sbind (sof (new_record (CreateTokenRecord token_uid amount symbol name version))) (\<lambda>operation.
        update_tokens_amount env [operation, UpdateTokenBalanceRecord (td_token_id fee_payment_token) fee]))))"

definition create_child_token ::
    "nc_env \<Rightarrow> token_version \<Rightarrow> bytes \<Rightarrow> ustring \<Rightarrow> ustring \<Rightarrow> int \<Rightarrow> bool \<Rightarrow> bool \<Rightarrow> bytes \<Rightarrow> (runner, bytes) sm" where
  "create_child_token env version salt token_name token_symbol amount mint_authority melt_authority fee_payment_token =
     sthen forbid_call_on_view
     (sthen (sguard (0 < amount) NCInvalidSyscall)
     (sthen (sof (case validate_token_name_and_symbol (ne_runtime env) token_name token_symbol of
                    Inl e \<Rightarrow> Inl (if e = TransactionDataError then NCInvalidSyscall else e) | Inr u \<Rightarrow> Inr u))
     (sbind get_current_contract_id (\<lambda>parent_id.
      sbind (sof (derive_child_token_id (ne_runtime env) parent_id
                    (clean_token_string (ne_runtime env) token_symbol) salt)) (\<lambda>token_id.
      sthen (on_current_tracker (m_create_token (chain_methods (ne_runtime env))
               \<lparr>td_token_id = token_id, td_token_name = token_name, td_token_symbol = token_symbol,
                td_token_version = version\<rparr>))
     (sthen (on_current_tracker (m_grant_authorities (chain_methods (ne_runtime env)) token_id mint_authority melt_authority))
     (sbind (runner_get_token env fee_payment_token) (\<lambda>fee_token.
      sthen (runner_create_token env version token_id amount fee_token token_symbol token_name)
        (sret token_id)))))))))"

definition syscall_create_child_deposit_token ::
    "nc_env \<Rightarrow> bytes \<Rightarrow> ustring \<Rightarrow> ustring \<Rightarrow> int \<Rightarrow> bool \<Rightarrow> bool \<Rightarrow> (runner, bytes) sm" where
  "syscall_create_child_deposit_token env salt token_name token_symbol amount mint_authority melt_authority =
     create_child_token env DEPOSIT salt token_name token_symbol amount mint_authority melt_authority HATHOR_TOKEN_UID"

definition syscall_create_child_fee_token ::
    "nc_env \<Rightarrow> bytes \<Rightarrow> ustring \<Rightarrow> ustring \<Rightarrow> int \<Rightarrow> bool \<Rightarrow> bool \<Rightarrow> bytes \<Rightarrow> (runner, bytes) sm" where
  "syscall_create_child_fee_token env salt token_name token_symbol amount mint_authority melt_authority fee_payment_token =
     create_child_token env FEE salt token_name token_symbol amount mint_authority melt_authority fee_payment_token"

section \<open>Other system calls without a call\<close>

definition syscall_emit_event :: "bytes \<Rightarrow> (runner, unit) sm" where
  "syscall_emit_event data =
     sthen forbid_call_on_view
       (on_call_info (\<lambda>ci. case log_emit_event data (ci_logger ci) of (r, l) \<Rightarrow> (r, ci\<lparr>ci_logger := l\<rparr>)))"

definition syscall_change_blueprint :: "nc_env \<Rightarrow> bytes \<Rightarrow> (runner, unit) sm" where
  "syscall_change_blueprint env blueprint_id =
     sthen forbid_call_on_view
     (sbind get_current_call_record (\<lambda>r.
      sthen (sguard (cr_type r \<noteq> VIEW) NCInvalidPublicMethodCallFromView)
     (sthen (sguard (ne_blueprint env blueprint_id \<noteq> None) BlueprintDoesNotExist)
        (on_current_tracker (m_set_blueprint_id (chain_methods (ne_runtime env)) blueprint_id)))))"

text \<open>\<open>syscall_get_rng\<close>, and \<open>randbytes\<close> of the generator of the contract.\<close>

definition syscall_get_rng :: "nc_env \<Rightarrow> (runner, bytes) sm" where
  "syscall_get_rng env =
     sthen forbid_call_on_view
     (sbind (sget r_rng) (\<lambda>rng.
        case rng of
          None \<Rightarrow> sraise ValueError
        | Some g \<Rightarrow>
            sbind get_current_contract_id (\<lambda>contract_id.
            sbind (sget (\<lambda>s. dict_has (r_rng_per_contract s) contract_id)) (\<lambda>known.
              if known then sret contract_id
              else (case randbytes (ne_chacha20 env) 32 g of
                      (Inl e, g') \<Rightarrow> sthen (smod (\<lambda>s. s\<lparr>r_rng := Some g'\<rparr>)) (sraise e)
                    | (Inr seed, g') \<Rightarrow>
                        sthen (smod (\<lambda>s. s\<lparr>r_rng := Some g'\<rparr>))
                        (sbind (sof (new_rng seed)) (\<lambda>g''.
                         sthen (smod (\<lambda>s. s\<lparr>r_rng_per_contract := dict_put contract_id g'' (r_rng_per_contract s)\<rparr>))
                           (sret contract_id))))))))"

definition rng_randbytes :: "nc_env \<Rightarrow> int \<Rightarrow> (runner, bytes) sm" where
  "rng_randbytes env n =
     sbind (syscall_get_rng env) (\<lambda>contract_id.
     sbind (sget (\<lambda>s. dict_get (r_rng_per_contract s) contract_id)) (\<lambda>g.
       case g of
         None \<Rightarrow> sraise KeyError
       | Some g \<Rightarrow>
           (case randbytes (ne_chacha20 env) n g of
              (r, g') \<Rightarrow>
                sthen (smod (\<lambda>s. s\<lparr>r_rng_per_contract := dict_put contract_id g' (r_rng_per_contract s)\<rparr>)) (sof r))))"

text \<open>The storage and the cache of the running instance.\<close>

definition on_own_storage :: "(nc_chain, 'a) sm \<Rightarrow> (runner, 'a) sm" where
  "on_own_storage f = sbind get_current_call_record (\<lambda>r. on_storage (cr_contract_id r) (cr_tracker r + 1) f)"

definition on_own_cache :: "((bytes, cached) dict, 'a) sm \<Rightarrow> (runner, 'a) sm" where
  "on_own_cache f =
     sbind get_current_call_record (\<lambda>r.
       on_call_info (\<lambda>ci. case f (ci_caches ci ! cr_cache r) of
         (x, c) \<Rightarrow> (x, ci\<lparr>ci_caches := (ci_caches ci)[cr_cache r := c]\<rparr>)))"

definition cache_del :: "bytes \<Rightarrow> ((bytes, cached) dict, unit) sm" where
  "cache_del key =
     sbind (sget (\<lambda>d. dict_has d key)) (\<lambda>known. sthen (sguard known KeyError) (smod (dict_del key)))"

section \<open>Calls between contracts\<close>

definition validate_fees :: "nc_fee list \<Rightarrow> exc + unit" where
  "validate_fees fees =
     (case find (\<lambda>fee. validate_fee_amount (fee_token_uid fee) (fee_amount fee) \<noteq> Inr ()) fees of
        None \<Rightarrow> Inr ()
      | Some fee \<Rightarrow>
          (case validate_fee_amount (fee_token_uid fee) (fee_amount fee) of
             Inl e \<Rightarrow> Inl (if e = InvalidFeeAmount then NCInvalidFee else e)
           | Inr u \<Rightarrow> Inr u))"

definition pay_fees :: "nc_env \<Rightarrow> nc_fee list \<Rightarrow> (runner, unit) sm" where
  "pay_fees env fees =
     sfor fees (\<lambda>fee.
       sthen (sassert (0 < fee_amount fee))
       (sthen (update_tokens_amount env [UpdateTokenBalanceRecord (fee_token_uid fee) (- fee_amount fee)])
          (register_paid_fee (fee_token_uid fee) (fee_amount fee))))"

definition unsafe_call_another_contract_public_method ::
    "nc_env \<Rightarrow> (nc_value prog \<Rightarrow> (runner, nc_value) sm) \<Rightarrow> bytes \<Rightarrow> bytes \<Rightarrow> ustring \<Rightarrow> nc_action list \<Rightarrow> nc_fee list \<Rightarrow>
     nc_args \<Rightarrow> bool \<Rightarrow> bool \<Rightarrow> (runner, nc_value) sm" where
  "unsafe_call_another_contract_public_method env run contract_id blueprint_id method_name actions fees nc_args
       skip_reentrancy_validation forbid_fallback =
     sthen (on_call_info (sret ()))
     (sbind get_current_call_record (\<lambda>last_call_record.
      sthen (sguard (cr_type last_call_record \<noteq> VIEW) NCInvalidPublicMethodCallFromView)
     (sthen (sguard (list_all (\<lambda>a. \<not> negative_amount a) actions) NCInvalidContext)
     (sthen (sof (validate_fees fees))
     (sbind (on_call_info (sget (\<lambda>ci. cr_ctx (last (ci_stack ci))))) (\<lambda>first.
        case first of
          None \<Rightarrow> sraise AssertionError
        | Some first_ctx \<Rightarrow>
            sthen (sfor actions (\<lambda>action.
               on_storage (cr_contract_id last_call_record) (cr_tracker last_call_record + 1)
                 (nc_caller_execution_rule (ne_runtime env) action)))
            (sthen (pay_fees env fees)
            (sbind (sof (ctx_get_block first_ctx)) (\<lambda>block.
             sbind (execute_public_method_call env run contract_id blueprint_id method_name
                \<lparr>ctx_caller_id = ContractCaller (cr_contract_id last_call_record), ctx_vertex = ctx_vertex first_ctx,
                 ctx_block = Some block, ctx_actions = group_actions actions\<rparr>
                nc_args skip_reentrancy_validation forbid_fallback) (\<lambda>result.
             sthen (validate_actions_fees env (group_actions actions) fees) (sret result)))))))))))"

definition syscall_call_another_contract_public_method ::
    "nc_env \<Rightarrow> (nc_value prog \<Rightarrow> (runner, nc_value) sm) \<Rightarrow> bytes \<Rightarrow> ustring \<Rightarrow> nc_action list \<Rightarrow> nc_fee list \<Rightarrow>
     nc_value list \<Rightarrow> (ustring, nc_value) dict \<Rightarrow> bool \<Rightarrow> (runner, nc_value) sm" where
  "syscall_call_another_contract_public_method env run contract_id method_name actions fees args kwargs forbid_fallback =
     sthen forbid_call_on_view
     (sthen (sguard (method_name \<noteq> NC_INITIALIZE_METHOD) NCInvalidInitializeMethodCall)
     (sbind get_current_contract_id (\<lambda>current.
      sthen (sguard (current \<noteq> contract_id) NCInvalidContractId)
     (sbind (has_contract_been_initialized contract_id) (\<lambda>init.
      sthen (sguard init NCUninitializedContractError)
     (sbind (get_blueprint_id env contract_id) (\<lambda>blueprint_id.
        unsafe_call_another_contract_public_method env run contract_id blueprint_id method_name actions fees
          (NCParsedArgs args kwargs) False forbid_fallback)))))))"

text \<open>The checks of both proxy calls.\<close>

definition proxy_target :: "nc_env \<Rightarrow> bytes \<Rightarrow> (runner, bytes) sm" where
  "proxy_target env blueprint_id =
     sbind get_current_contract_id (\<lambda>contract_id.
     sbind (get_blueprint_id env contract_id) (\<lambda>own.
     sthen (sguard (blueprint_id \<noteq> own) NCInvalidSyscall)
     (sbind get_current_code_blueprint_id (\<lambda>code.
      sthen (sguard (blueprint_id \<noteq> code) NCInvalidSyscall) (sret contract_id)))))"

definition syscall_proxy_call_public_method ::
    "nc_env \<Rightarrow> (nc_value prog \<Rightarrow> (runner, nc_value) sm) \<Rightarrow> bytes \<Rightarrow> ustring \<Rightarrow> nc_action list \<Rightarrow> nc_fee list \<Rightarrow>
     nc_args \<Rightarrow> bool \<Rightarrow> (runner, nc_value) sm" where
  "syscall_proxy_call_public_method env run blueprint_id method_name actions fees nc_args forbid_fallback =
     sthen forbid_call_on_view
     (sthen (sguard (method_name \<noteq> NC_INITIALIZE_METHOD) NCInvalidInitializeMethodCall)
     (sbind (proxy_target env blueprint_id) (\<lambda>contract_id.
        unsafe_call_another_contract_public_method env run contract_id blueprint_id method_name actions fees
          nc_args True forbid_fallback)))"

definition syscall_proxy_call_view_method ::
    "nc_env \<Rightarrow> (nc_value prog \<Rightarrow> (runner, nc_value) sm) \<Rightarrow> bytes \<Rightarrow> ustring \<Rightarrow> nc_value list \<Rightarrow>
     (ustring, nc_value) dict \<Rightarrow> (runner, nc_value) sm" where
  "syscall_proxy_call_view_method env run blueprint_id method_name args kwargs =
     sbind (proxy_target env blueprint_id) (\<lambda>contract_id.
       unsafe_call_view_method env run contract_id blueprint_id method_name args kwargs)"

definition syscall_call_another_contract_view_method ::
    "nc_env \<Rightarrow> (nc_value prog \<Rightarrow> (runner, nc_value) sm) \<Rightarrow> bytes \<Rightarrow> ustring \<Rightarrow> nc_value list \<Rightarrow>
     (ustring, nc_value) dict \<Rightarrow> (runner, nc_value) sm" where
  "syscall_call_another_contract_view_method env run contract_id method_name args kwargs =
     sthen (on_call_info (sret ()))
     (sbind get_current_contract_id (\<lambda>current.
      sthen (sguard (current \<noteq> contract_id) NCInvalidContractId)
     (sbind (get_blueprint_id env contract_id) (\<lambda>blueprint_id.
        unsafe_call_view_method env run contract_id blueprint_id method_name args kwargs))))"

definition internal_create_contract :: "nc_env \<Rightarrow> bytes \<Rightarrow> bytes \<Rightarrow> (runner, unit) sm" where
  "internal_create_contract env contract_id blueprint_id =
     sbind (has_contract_been_initialized contract_id) (\<lambda>init.
     sthen (sassert (\<not> init))
     (sbind (sget (\<lambda>s. dict_has (r_storages s) contract_id)) (\<lambda>known.
      sthen (sassert (\<not> known))
     (sbind (on_block (bs_get_empty_contract_storage (ne_runtime env) contract_id)) (\<lambda>storage.
        case cs_set_blueprint_id (ne_runtime env) blueprint_id storage of
          (Inl e, _) \<Rightarrow> sraise e
        | (Inr _, storage') \<Rightarrow> smod (\<lambda>s. s\<lparr>r_storages := dict_put contract_id storage' (r_storages s)\<rparr>))))))"

definition syscall_create_another_contract ::
    "nc_env \<Rightarrow> (nc_value prog \<Rightarrow> (runner, nc_value) sm) \<Rightarrow> bytes \<Rightarrow> bytes \<Rightarrow> nc_action list \<Rightarrow> nc_fee list \<Rightarrow>
     nc_value list \<Rightarrow> (ustring, nc_value) dict \<Rightarrow> (runner, bytes \<times> nc_value) sm" where
  "syscall_create_another_contract env run blueprint_id salt actions fees args kwargs =
     sthen forbid_call_on_view
     (sthen (sguard (salt \<noteq> []) NCFail)
     (sthen (on_call_info (sret ()))
     (sbind get_current_call_record (\<lambda>last_call_record.
      let child_id = derive_child_contract_id (ne_runtime env) (cr_contract_id last_call_record) salt blueprint_id in
      sbind (has_contract_been_initialized child_id) (\<lambda>init.
      sthen (sguard (\<not> init) NCAlreadyInitializedContractError)
     (sthen (internal_create_contract env child_id blueprint_id)
     (sbind (unsafe_call_another_contract_public_method env run child_id blueprint_id NC_INITIALIZE_METHOD actions fees
               (NCParsedArgs args kwargs) False False) (\<lambda>ret.
      sthen (sassert (cr_index_updates last_call_record \<noteq> None))
     (sbind (sof (new_record (CreateContractRecord blueprint_id child_id))) (\<lambda>record.
      sthen (on_call_info (add_index_update (cr_index_updates last_call_record) record))
        (sret (child_id, ret))))))))))))"

section \<open>Running code\<close>

definition smap :: "('a \<Rightarrow> 'b) \<Rightarrow> ('s, 'a) sm \<Rightarrow> ('s, 'b) sm" where
  "smap f m = sbind m (\<lambda>x. sret (f x))"

abbreviation sunit :: "('s, unit) sm \<Rightarrow> ('s, sys_result) sm" where
  "sunit m \<equiv> smap (\<lambda>_. ResNone) m"

fun handle_syscall ::
    "nc_env \<Rightarrow> (nc_value prog \<Rightarrow> (runner, nc_value) sm) \<Rightarrow> syscall \<Rightarrow> (runner, sys_result) sm" where
  "handle_syscall env run (GetObj key t d) =
     smap ResValue (on_own_storage (\<lambda>ch. (ct_get_obj (ne_runtime env) key t d (ch_layers ch) (ch_base ch), ch)))"
| "handle_syscall env run (HasObj key) =
     smap ResBool (on_own_storage (\<lambda>ch. (ct_has_obj (ne_runtime env) key (ch_layers ch) (ch_base ch), ch)))"
| "handle_syscall env run (PutObj key t v) = sunit (on_own_storage (m_put_obj (chain_methods (ne_runtime env)) key t v))"
| "handle_syscall env run (DelObj key) = sunit (on_own_storage (m_del_obj (chain_methods (ne_runtime env)) key))"
| "handle_syscall env run (CacheGet key) = smap ResCached (on_own_cache (sget (\<lambda>d. dict_get d key)))"
| "handle_syscall env run (CachePut key v) = sunit (on_own_cache (smod (dict_put key v)))"
| "handle_syscall env run (CacheDel key) = sunit (on_own_cache (cache_del key))"
| "handle_syscall env run (RandBytes n) = smap ResBytes (rng_randbytes env n)"
| "handle_syscall env run GetContractId = smap ResBytes get_current_contract_id"
| "handle_syscall env run (GetBlueprintId contract_id) =
     smap ResBytes (case contract_id of
       None \<Rightarrow> sbind get_current_contract_id (get_blueprint_id env) | Some c \<Rightarrow> get_blueprint_id env c)"
| "handle_syscall env run GetCurrentCodeBlueprintId = smap ResBytes get_current_code_blueprint_id"
| "handle_syscall env run (GetBalance before_current_call contract_id token_uid) =
     smap ResBalance (case contract_id of
       None \<Rightarrow> sbind get_current_contract_id (\<lambda>c. runner_get_balance env c token_uid before_current_call)
     | Some c \<Rightarrow> runner_get_balance env c token_uid before_current_call)"
| "handle_syscall env run (RevokeAuthorities token_uid mint melt) =
     sunit (syscall_revoke_authorities env token_uid mint melt)"
| "handle_syscall env run (MintTokens token_uid amount fee_payment_token) =
     sunit (syscall_mint_tokens env token_uid amount fee_payment_token)"
| "handle_syscall env run (MeltTokens token_uid amount fee_payment_token) =
     sunit (syscall_melt_tokens env token_uid amount fee_payment_token)"
| "handle_syscall env run (CreateDepositToken salt name symbol amount mint melt) =
     smap ResBytes (syscall_create_child_deposit_token env salt name symbol amount mint melt)"
| "handle_syscall env run (CreateFeeToken salt name symbol amount mint melt fee_payment_token) =
     smap ResBytes (syscall_create_child_fee_token env salt name symbol amount mint melt fee_payment_token)"
| "handle_syscall env run (EmitEvent data) = sunit (syscall_emit_event data)"
| "handle_syscall env run (ChangeBlueprint blueprint_id) = sunit (syscall_change_blueprint env blueprint_id)"
| "handle_syscall env run ForbidCallOnView = sunit forbid_call_on_view"
| "handle_syscall env run (CallPublic contract_id method_name actions fees args kwargs forbid_fallback) =
     smap ResValue (syscall_call_another_contract_public_method env run contract_id method_name actions fees args
       kwargs forbid_fallback)"
| "handle_syscall env run (CallView contract_id method_name args kwargs) =
     smap ResValue (syscall_call_another_contract_view_method env run contract_id method_name args kwargs)"
| "handle_syscall env run (ProxyCallPublic blueprint_id method_name actions fees nc_args forbid_fallback) =
     smap ResValue (syscall_proxy_call_public_method env run blueprint_id method_name actions fees nc_args forbid_fallback)"
| "handle_syscall env run (ProxyCallView blueprint_id method_name args kwargs) =
     smap ResValue (syscall_proxy_call_view_method env run blueprint_id method_name args kwargs)"
| "handle_syscall env run (CreateContract blueprint_id salt actions fees args kwargs) =
     smap (\<lambda>(c, v). ResCreated c v)
       (syscall_create_another_contract env run blueprint_id salt actions fees args kwargs)"

primrec run_prog :: "(syscall \<Rightarrow> ('s, sys_result) sm) \<Rightarrow> 'a prog \<Rightarrow> ('s, 'a) sm" where
  "run_prog h (Return x) = sret x"
| "run_prog h (Raise e) = sraise e"
| "run_prog h (Syscall c k) = sbind (h c) (\<lambda>r. run_prog h (k r))"

text \<open>Each call of a method inside another one uses up one unit; \<open>MAX_RECURSION_DEPTH\<close> units are enough.\<close>

primrec run_code :: "nc_env \<Rightarrow> nat \<Rightarrow> nc_value prog \<Rightarrow> (runner, nc_value) sm" where
  "run_code env 0 p = sraise OutOfFuel"
| "run_code env (Suc n) p = run_prog (handle_syscall env (run_code env n)) p"

end
