(* ===== verification/Runner_Calls.thy ===== *)
theory Runner_Calls
  imports Runner_Syscalls
begin

text \<open>
  The entry points of the runner: a call of a public or of a view method from outside, the creation of a
  contract, and what follows an execution: the validation of the balances and the commit.
\<close>

section \<open>After the execution\<close>

text \<open>\<^verbatim>\<open>try: m finally: f\<close>; an exception of \<open>f\<close> takes the place of the result of \<open>m\<close>.\<close>

definition sfinally :: "('s, 'a) sm \<Rightarrow> ('s, unit) sm \<Rightarrow> ('s, 'a) sm" where
  "sfinally m f s =
     (case m s of (r, s') \<Rightarrow> (case f s' of (Inl e, s'') \<Rightarrow> (Inl e, s'') | (Inr _, s'') \<Rightarrow> (r, s'')))"

text \<open>\<open>_reset_all_change_trackers\<close>; the oldest tracker of a contract comes last in its list.\<close>

primrec block_trackers :: "tracker list \<Rightarrow> (exc + unit) \<times> tracker list" where
  "block_trackers [] = (Inr (), [])"
| "block_trackers (t # ts) =
     (case block_trackers ts of
        (Inl e, ts') \<Rightarrow> (Inl e, t # ts')
      | (Inr _, ts') \<Rightarrow>
          if ct_commited t then (Inr (), t # ts')
          else (case ct_block t of (r, t') \<Rightarrow> (r, t' # ts')))"

primrec block_all_trackers :: "(bytes, tracker list) dict \<Rightarrow> (exc + unit) \<times> (bytes, tracker list) dict" where
  "block_all_trackers [] = (Inr (), [])"
| "block_all_trackers (item # items) =
     (case block_trackers (snd item) of
        (Inl e, ts) \<Rightarrow> (Inl e, (fst item, ts) # items)
      | (Inr _, ts) \<Rightarrow> (case block_all_trackers items of (r, items') \<Rightarrow> (r, (fst item, ts) # items')))"

definition reset_all_change_trackers :: "(runner, unit) sm" where
  "reset_all_change_trackers =
     sthen (on_call_info (\<lambda>ci. case block_all_trackers (ci_trackers ci) of (r, d) \<Rightarrow> (r, ci\<lparr>ci_trackers := d\<rparr>)))
       (smod (\<lambda>s. s\<lparr>r_last_call_info := r_call_info s, r_call_info := None\<rparr>))"

text \<open>
  \<open>_validate_balances\<close>: the differences of the trackers, first; then the totals of the index updates of all
  calls against those the runner kept; then the actions of the call from outside.
\<close>

definition add_diffs :: "(trie_key, int) dict \<Rightarrow> (bytes, int) dict \<Rightarrow> (bytes, int) dict" where
  "add_diffs diffs totals = foldl (\<lambda>d (key, amount). add_total (balance_key_token key) amount d) totals diffs"

primrec tracker_totals ::
    "nc_env \<Rightarrow> (bytes, contract_storage) dict \<Rightarrow> (bytes, tracker list) dict \<Rightarrow> (bytes, int) dict \<Rightarrow>
     exc + (bytes, int) dict" where
  "tracker_totals env storages [] totals = Inr totals"
| "tracker_totals env storages (item # items) totals =
     (case snd item of
        [t] \<Rightarrow>
          (case dict_get storages (fst item) of
             None \<Rightarrow> Inl KeyError
           | Some cs \<Rightarrow>
               (case validate_balances_are_positive (ne_runtime env) t [] cs of
                  Inl e \<Rightarrow> Inl e
                | Inr _ \<Rightarrow> tracker_totals env storages items (add_diffs (ct_balance_diff t) totals)))
      | _ \<Rightarrow> Inl AssertionError)"

definition add_index_record :: "(bytes, int) dict \<Rightarrow> index_record \<Rightarrow> (bytes, int) dict" where
  "add_index_record totals record =
     (case record of
        CreateContractRecord _ _ \<Rightarrow> totals
      | UpdateAuthoritiesRecord _ _ _ _ \<Rightarrow> totals
      | CreateTokenRecord uid amount _ _ _ \<Rightarrow> add_total uid amount totals
      | UpdateTokenBalanceRecord uid amount \<Rightarrow> add_total uid amount totals)"

primrec calls_totals ::
    "index_record list list \<Rightarrow> call_record list \<Rightarrow> (bytes, int) dict \<Rightarrow> exc + (bytes, int) dict" where
  "calls_totals updates [] totals = Inr totals"
| "calls_totals updates (call # calls) totals =
     (case cr_index_updates call of
        None \<Rightarrow> if cr_type call = VIEW then calls_totals updates calls totals else Inl AssertionError
      | Some a \<Rightarrow> calls_totals updates calls (foldl add_index_record totals (updates ! a)))"

text \<open>\<^verbatim>\<open>==\<close> of two dictionaries.\<close>

definition dict_eq :: "('k, 'v) dict \<Rightarrow> ('k, 'v) dict \<Rightarrow> bool" where
  "dict_eq c d \<longleftrightarrow> fst ` set c = fst ` set d \<and> list_all (\<lambda>(k, _). dict_get c k = dict_get d k) c"

definition subtract_action :: "(bytes, int) dict \<Rightarrow> nc_action \<Rightarrow> (bytes, int) dict" where
  "subtract_action totals action =
     (case action of
        NCDepositAction uid amount \<Rightarrow> add_total uid (- amount) totals
      | NCWithdrawalAction uid amount \<Rightarrow> add_total uid amount totals
      | NCGrantAuthorityAction _ _ _ \<Rightarrow> totals
      | NCAcquireAuthorityAction _ _ _ \<Rightarrow> totals)"

definition validate_balances :: "nc_env \<Rightarrow> nc_context \<Rightarrow> (runner, unit) sm" where
  "validate_balances env ctx =
     sbind (on_call_info (sget (\<lambda>ci. ci))) (\<lambda>ci.
       case ci_calls ci of
         None \<Rightarrow> sraise AssertionError
       | Some calls \<Rightarrow>
           sbind (sget r_storages) (\<lambda>storages.
           sbind (sof (tracker_totals env storages (ci_trackers ci) [])) (\<lambda>total_diffs.
           sbind (sof (calls_totals (ci_updates ci) calls [])) (\<lambda>calculated_tokens_totals.
           sbind (sget r_updated_tokens_totals) (\<lambda>updated.
           sthen (sassert (dict_eq calculated_tokens_totals updated))
             (sassert (list_all (\<lambda>(_, diff). diff = 0)
                (foldl subtract_action
                   (foldl (\<lambda>d (uid, amount). add_total uid (- amount) d) total_diffs updated)
                   (ctx_all_actions ctx)))))))))"

text \<open>\<open>_commit_all_changes_to_storage\<close> and \<open>commit\<close>.\<close>

definition on_base :: "(contract_storage \<Rightarrow> contract_storage) \<Rightarrow> (nc_chain, unit) sm" where
  "on_base f = smod (\<lambda>ch. ch\<lparr>ch_base := f (ch_base ch)\<rparr>)"

definition commit_changes_of :: "nc_env \<Rightarrow> bytes \<Rightarrow> (runner, unit) sm" where
  "commit_changes_of env nc_id =
     sbind (on_call_info (sget (\<lambda>ci. length (trackers_of nc_id ci)))) (\<lambda>n.
     sthen (sassert (n = 1))
     (sthen (on_storage nc_id 0 (on_base cs_unlock))
     (sthen (on_storage nc_id 1 (ch_commit (ne_runtime env)))
     (sthen (on_storage nc_id 0 (on_base cs_lock))
     (sbind (on_storage nc_id 0 (sget (\<lambda>ch. cs_get_root_id (ne_runtime env) (ch_base ch)))) (\<lambda>root_id.
        on_block (bs_update_contract_trie nc_id root_id)))))))"

definition commit_all_changes_to_storage :: "nc_env \<Rightarrow> (runner, unit) sm" where
  "commit_all_changes_to_storage env =
     sbind (on_call_info (sget (\<lambda>ci. map fst (ci_trackers ci)))) (\<lambda>nc_ids. sfor nc_ids (commit_changes_of env))"

definition runner_commit :: "nc_env \<Rightarrow> (runner, unit) sm" where
  "runner_commit env =
     sbind (sget (\<lambda>s. map fst (r_storages s))) (\<lambda>nc_ids.
       sfor nc_ids (\<lambda>nc_id.
         sthen (on_storage nc_id 0 (on_base cs_unlock))
         (sthen (on_storage nc_id 0 (ch_commit (ne_runtime env)))
            (on_storage nc_id 0 (on_base cs_lock)))))"

section \<open>Calls from outside\<close>

definition unsafe_call_public_method ::
    "nc_env \<Rightarrow> bytes \<Rightarrow> ustring \<Rightarrow> nc_context \<Rightarrow> nc_args \<Rightarrow> (runner, nc_value) sm" where
  "unsafe_call_public_method env contract_id method_name ctx nc_args =
     sbind (sget (\<lambda>s. r_call_info s = None)) (\<lambda>idle.
     sthen (sassert idle)
     (sthen (smod (\<lambda>s. s\<lparr>r_call_info := Some (build_call_info (r_enable_call_trace s) contract_id)\<rparr>))
     (sbind (has_contract_been_initialized contract_id) (\<lambda>init.
      sthen (sguard init NCUninitializedContractError)
     (sthen (smod (\<lambda>s. s\<lparr>r_metered_executor := True\<rparr>))
     (sbind (get_blueprint_id env contract_id) (\<lambda>blueprint_id.
      sbind (execute_public_method_call env (run_code env MAX_RECURSION_DEPTH) contract_id blueprint_id method_name
               ctx nc_args False False) (\<lambda>ret.
      sthen (validate_balances env ctx)
     (sthen (commit_all_changes_to_storage env)
     (sthen (smod (\<lambda>s. s\<lparr>r_updated_tokens_totals := [], r_paid_actions_fees := []\<rparr>))
        (sret ret)))))))))))"

definition call_public_method_with_nc_args ::
    "nc_env \<Rightarrow> bytes \<Rightarrow> ustring \<Rightarrow> nc_context \<Rightarrow> nc_args \<Rightarrow> (runner, nc_value) sm" where
  "call_public_method_with_nc_args env contract_id method_name ctx nc_args =
     sthen (sguard (method_name \<noteq> NC_INITIALIZE_METHOD) NCInvalidInitializeMethodCall)
       (sfinally (unsafe_call_public_method env contract_id method_name ctx nc_args) reset_all_change_trackers)"

definition create_contract_with_nc_args ::
    "nc_env \<Rightarrow> bytes \<Rightarrow> bytes \<Rightarrow> nc_context \<Rightarrow> nc_args \<Rightarrow> (runner, nc_value) sm" where
  "create_contract_with_nc_args env contract_id blueprint_id ctx nc_args =
     sbind (has_contract_been_initialized contract_id) (\<lambda>init.
     sthen (sguard (\<not> init) NCAlreadyInitializedContractError)
     (sthen (internal_create_contract env contract_id blueprint_id)
        (sfinally (unsafe_call_public_method env contract_id NC_INITIALIZE_METHOD ctx nc_args)
           reset_all_change_trackers)))"

definition call_public_method ::
    "nc_env \<Rightarrow> bytes \<Rightarrow> ustring \<Rightarrow> nc_context \<Rightarrow> nc_value list \<Rightarrow> (ustring, nc_value) dict \<Rightarrow> (runner, nc_value) sm" where
  "call_public_method env contract_id method_name ctx args kwargs =
     call_public_method_with_nc_args env contract_id method_name ctx (NCParsedArgs args kwargs)"

definition create_contract ::
    "nc_env \<Rightarrow> bytes \<Rightarrow> bytes \<Rightarrow> nc_context \<Rightarrow> nc_value list \<Rightarrow> (ustring, nc_value) dict \<Rightarrow> (runner, nc_value) sm" where
  "create_contract env contract_id blueprint_id ctx args kwargs =
     create_contract_with_nc_args env contract_id blueprint_id ctx (NCParsedArgs args kwargs)"

definition call_view_method ::
    "nc_env \<Rightarrow> bytes \<Rightarrow> ustring \<Rightarrow> nc_value list \<Rightarrow> (ustring, nc_value) dict \<Rightarrow> (runner, nc_value) sm" where
  "call_view_method env contract_id method_name args kwargs =
     sbind (sget (\<lambda>s. r_call_info s = None)) (\<lambda>idle.
     sthen (sassert idle)
     (sthen (smod (\<lambda>s. s\<lparr>r_call_info := Some (build_call_info (r_enable_call_trace s) contract_id)\<rparr>))
        (sfinally
           (sbind (get_blueprint_id env contract_id) (\<lambda>blueprint_id.
              unsafe_call_view_method env (run_code env MAX_RECURSION_DEPTH) contract_id blueprint_id method_name args kwargs))
           reset_all_change_trackers)))"

definition disable_call_trace :: "(runner, unit) sm" where
  "disable_call_trace = smod (\<lambda>s. s\<lparr>r_enable_call_trace := False\<rparr>)"

definition get_last_call_info :: "(runner, call_info) sm" where
  "get_last_call_info =
     sbind (sget r_last_call_info) (\<lambda>ci. case ci of None \<Rightarrow> sraise AssertionError | Some ci \<Rightarrow> sret ci)"

end
