(* ===== verification/Runner_Frames.thy ===== *)
theory Runner_Frames
  imports Runner_Calls
begin

text \<open>
  What the code of a method can do to the state of the runner. An operation on a storage object of a contract
  changes its newest tracker only; from this a frame relation between the states before and after any code is
  built, and rules by which it is shown for sequences of operations.
\<close>

section \<open>Operations on the newest tracker\<close>

definition tr_weak :: "tracker \<Rightarrow> tracker \<Rightarrow> bool" where
  "tr_weak t t' \<longleftrightarrow> ct_nc_id t' = ct_nc_id t \<and> ct_blocked t' = ct_blocked t"

text \<open>A successful operation that adds \<open>\<delta>\<close> to the differences of the balances.\<close>

definition tr_step :: "(bytes \<Rightarrow> int) \<Rightarrow> tracker \<Rightarrow> tracker \<Rightarrow> bool" where
  "tr_step \<delta> t t' \<longleftrightarrow>
     tr_weak t t' \<and> ct_commited t' = ct_commited t \<and> (tracker_wf t \<longrightarrow> tracker_wf t') \<and>
     (\<forall>u. balance_diff_of t' u = balance_diff_of t u + \<delta> u)"

definition on_newest :: "(bytes \<Rightarrow> int) \<Rightarrow> (nc_chain, 'a) sm \<Rightarrow> bool" where
  "on_newest \<delta> f \<longleftrightarrow>
     (\<forall>ch t ts r ch'. ch_layers ch = t # ts \<longrightarrow> f ch = (r, ch') \<longrightarrow>
        (\<exists>t'. ch' = ch\<lparr>ch_layers := t' # ts\<rparr> \<and> tr_weak t t' \<and> (\<forall>x. r = Inr x \<longrightarrow> tr_step \<delta> t t')))"

lemma on_newestD:
  assumes "on_newest \<delta> f" and "ch_layers ch = t # ts" and "f ch = (r, ch')"
  shows "\<exists>t'. ch' = ch\<lparr>ch_layers := t' # ts\<rparr> \<and> tr_weak t t' \<and> (\<forall>x. r = Inr x \<longrightarrow> tr_step \<delta> t t')"
  using assms(1) [unfolded on_newest_def, rule_format, OF assms(2,3)] .

named_theorems newest \<open>operations on the newest tracker\<close>

lemma tr_refl [simp]: "tr_weak t t" "tr_step (\<lambda>_. 0) t t"
  by (simp_all add: tr_weak_def tr_step_def)

lemma tr_weak_trans: "tr_weak a b \<Longrightarrow> tr_weak b c \<Longrightarrow> tr_weak a c"
  by (simp add: tr_weak_def)

lemma tr_step_trans: "tr_step d a b \<Longrightarrow> tr_step e b c \<Longrightarrow> tr_step (\<lambda>u. d u + e u) a c"
  by (auto simp: tr_step_def intro: tr_weak_trans)

lemma on_newest_read [newest]: "on_newest (\<lambda>_. 0) (\<lambda>ch. (g ch, ch))"
proof -
  have "ch = ch\<lparr>ch_layers := t # ts\<rparr>" if "ch_layers ch = t # ts" for ch :: nc_chain and t ts
    using that by simp
  then show ?thesis unfolding on_newest_def by (metis prod.inject tr_refl)
qed

lemma on_newest_pure [newest]:
  "on_newest (\<lambda>_. 0) (sret x)" "on_newest (\<lambda>_. 0) (sraise e)" "on_newest (\<lambda>_. 0) (sguard b e)"
  "on_newest (\<lambda>_. 0) (sassert b)" "on_newest (\<lambda>_. 0) (ch_get_balance rt uid)"
proof -
  have 1: "sret x = (\<lambda>ch. (Inr x, ch))" "sraise e = (\<lambda>ch. (Inl e, ch))" "sguard b e = (\<lambda>ch. (if b then Inr () else Inl e, ch))"
      "sassert b = (\<lambda>ch. (if b then Inr () else Inl AssertionError, ch))"
      "ch_get_balance rt uid = (\<lambda>ch. (ct_get_balance rt uid (ch_layers ch) (ch_base ch), ch))"
    for x :: 'x and e b
    by (simp_all add: fun_eq_iff sm_simps ch_get_balance_def)
  show "on_newest (\<lambda>_. 0) (sret x)" "on_newest (\<lambda>_. 0) (sraise e)" "on_newest (\<lambda>_. 0) (sguard b e)"
    "on_newest (\<lambda>_. 0) (sassert b)" "on_newest (\<lambda>_. 0) (ch_get_balance rt uid)"
    unfolding 1 by (rule on_newest_read)+
qed

lemma on_newest_sbind:
  assumes "on_newest d m" and "\<And>x. on_newest e (f x)"
  shows "on_newest (\<lambda>u. d u + e u) (sbind m f)"
  unfolding on_newest_def
proof (intro allI impI)
  fix ch t ts r ch'
  assume ch: "ch_layers ch = t # ts" and run: "sbind m f ch = (r, ch')"
  obtain r1 ch1 where m: "m ch = (r1, ch1)" by fastforce
  obtain t1 where t1: "ch1 = ch\<lparr>ch_layers := t1 # ts\<rparr>" "tr_weak t t1" "\<forall>x. r1 = Inr x \<longrightarrow> tr_step d t t1"
    using on_newestD [OF assms(1) ch m] by blast
  show "\<exists>t'. ch' = ch\<lparr>ch_layers := t' # ts\<rparr> \<and> tr_weak t t' \<and> (\<forall>x. r = Inr x \<longrightarrow> tr_step (\<lambda>u. d u + e u) t t')"
  proof (cases r1)
    case (Inl err)
    then show ?thesis using run m t1 by (auto simp: sm_simps)
  next
    case (Inr x)
    have run1: "f x ch1 = (r, ch')" using run m Inr by (simp add: sm_simps)
    have ch1: "ch_layers ch1 = t1 # ts" using t1 by simp
    obtain t2 where "ch' = ch1\<lparr>ch_layers := t2 # ts\<rparr>" "tr_weak t1 t2" "\<forall>y. r = Inr y \<longrightarrow> tr_step e t1 t2"
      using on_newestD [OF assms(2) ch1 run1] by blast
    then show ?thesis using t1 Inr by (auto intro: tr_weak_trans tr_step_trans)
  qed
qed

lemma on_newest_sthen: "on_newest d m \<Longrightarrow> on_newest e n \<Longrightarrow> on_newest (\<lambda>u. d u + e u) (sthen m n)"
  unfolding sthen_def by (rule on_newest_sbind)

lemma on_newest_eq: "on_newest d f \<Longrightarrow> (\<And>u. d u = e u) \<Longrightarrow> on_newest e f"
  by (simp add: on_newest_def tr_step_def)

lemma on_newest_sfor:
  assumes "\<And>x. x \<in> set xs \<Longrightarrow> on_newest (d x) (f x)"
  shows "on_newest (\<lambda>u. \<Sum>x\<leftarrow>xs. d x u) (sfor xs f)"
  using assms
proof (induction xs)
  case Nil
  then show ?case by (simp add: newest)
next
  case (Cons x xs)
  then have "on_newest (\<lambda>u. d x u + (\<Sum>x\<leftarrow>xs. d x u)) (sthen (f x) (sfor xs f))"
    by (intro on_newest_sthen) simp_all
  then show ?case by simp
qed

text \<open>The methods of the storage.\<close>

lemma on_newest_on_top:
  assumes "\<And>t r t'. f t = (r, t') \<Longrightarrow> tr_weak t t' \<and> (\<forall>x. r = Inr x \<longrightarrow> tr_step d t t')"
  shows "on_newest d (ch_on_top f g)"
  unfolding on_newest_def ch_on_top_def using assms by (auto split: prod.splits)

lemma tracker_weak:
  "ct_put_obj rt k nt v t = (r, t') \<Longrightarrow> tr_weak t t'"
  "ct_del_obj k t = (r, t') \<Longrightarrow> tr_weak t t'"
  "ct_add_balance tok n t = (r, t') \<Longrightarrow> tr_weak t t'"
  "ct_grant_authorities tok a b t = (r, t') \<Longrightarrow> tr_weak t t'"
  "ct_revoke_authorities tok a b t = (r, t') \<Longrightarrow> tr_weak t t'"
  "ct_set_blueprint_id bp t = (r, t') \<Longrightarrow> tr_weak t t'"
  by (auto simp: ct_put_obj_def ct_del_obj_def ct_add_balance_def ct_grant_authorities_def ct_revoke_authorities_def
      ct_set_blueprint_id_def ct_check_if_locked_def raise_check_def sm_simps tr_weak_def ct_set_authority_diff_def Let_def
      split: if_splits sum.splits prod.splits)

lemma balance_diff_of_other [simp]:
  "balance_diff_of (t\<lparr>ct_data := x\<rparr>) = balance_diff_of t"
  "balance_diff_of (t\<lparr>ct_created_tokens := y\<rparr>) = balance_diff_of t"
  "balance_diff_of (t\<lparr>ct_blueprint_id := z\<rparr>) = balance_diff_of t"
  "balance_diff_of (ct_set_authority_diff tok st a b t) = balance_diff_of t"
  by (simp_all add: fun_eq_iff balance_diff_of_def)

lemma ct_set_authority_diff_flags [simp]:
  "ct_commited (ct_set_authority_diff tok st a b t) = ct_commited t"
  "ct_blocked (ct_set_authority_diff tok st a b t) = ct_blocked t"
  by (simp_all add: ct_set_authority_diff_def Let_def)

lemma tracker_step:
  "ct_put_obj rt k nt v t = (Inr x, t') \<Longrightarrow> tr_step (\<lambda>_. 0) t t'"
  "ct_del_obj k t = (Inr x, t') \<Longrightarrow> tr_step (\<lambda>_. 0) t t'"
  "ct_add_balance tok n t = (Inr x, t') \<Longrightarrow> tr_step (\<lambda>u. if u = tok then n else 0) t t'"
  "ct_grant_authorities tok a b t = (Inr x, t') \<Longrightarrow> tr_step (\<lambda>_. 0) t t'"
  "ct_revoke_authorities tok a b t = (Inr x, t') \<Longrightarrow> tr_step (\<lambda>_. 0) t t'"
  "ct_set_blueprint_id bp t = (Inr x, t') \<Longrightarrow> tr_step (\<lambda>_. 0) t t'"
  by (auto simp: ct_methods_Inr tr_step_def tr_weak_def tracker_wf_updates)

lemma on_newest_methods [newest]:
  "on_newest (\<lambda>_. 0) (m_put_obj (chain_methods rt) k nt v)"
  "on_newest (\<lambda>_. 0) (m_del_obj (chain_methods rt) k)"
  "on_newest (\<lambda>u. if u = tok then n else 0) (m_add_balance (chain_methods rt) tok n)"
  "on_newest (\<lambda>_. 0) (m_grant_authorities (chain_methods rt) tok a b)"
  "on_newest (\<lambda>_. 0) (m_revoke_authorities (chain_methods rt) tok a b)"
  "on_newest (\<lambda>_. 0) (m_set_blueprint_id (chain_methods rt) bp)"
proof -
  show "on_newest (\<lambda>_. 0) (m_put_obj (chain_methods rt) k nt v)"
    unfolding chain_methods_def storage_methods.simps
    by (rule on_newest_on_top) (auto intro: tracker_weak tracker_step)
  show "on_newest (\<lambda>_. 0) (m_del_obj (chain_methods rt) k)"
    unfolding chain_methods_def storage_methods.simps
    by (rule on_newest_on_top) (auto intro: tracker_weak tracker_step)
  show "on_newest (\<lambda>u. if u = tok then n else 0) (m_add_balance (chain_methods rt) tok n)"
    unfolding chain_methods_def storage_methods.simps
    by (rule on_newest_on_top) (auto dest: tracker_weak tracker_step)
  show "on_newest (\<lambda>_. 0) (m_grant_authorities (chain_methods rt) tok a b)"
    unfolding chain_methods_def storage_methods.simps
    by (rule on_newest_on_top) (auto intro: tracker_weak tracker_step)
  show "on_newest (\<lambda>_. 0) (m_revoke_authorities (chain_methods rt) tok a b)"
    unfolding chain_methods_def storage_methods.simps
    by (rule on_newest_on_top) (auto intro: tracker_weak tracker_step)
  show "on_newest (\<lambda>_. 0) (m_set_blueprint_id (chain_methods rt) bp)"
    unfolding chain_methods_def storage_methods.simps
    by (rule on_newest_on_top) (auto intro: tracker_weak tracker_step)
qed

lemma on_newest_create_token [newest]: "on_newest (\<lambda>_. 0) (m_create_token (chain_methods rt) td)"
proof -
  have same: "ch\<lparr>ch_layers := t # ts\<rparr> = ch" if "ch_layers ch = t # ts" for ch :: nc_chain and t ts
    using that by simp
  show ?thesis
    unfolding on_newest_def
  proof (intro allI impI)
    fix ch t ts r ch'
    assume ch: "ch_layers ch = t # ts" and run: "m_create_token (chain_methods rt) td ch = (r, ch')"
    let ?t = "t\<lparr>ct_created_tokens := dict_put (td_token_id td) td (ct_created_tokens t)\<rparr>"
    have "ch' = ch \<and> isl r \<or> ch' = ch\<lparr>ch_layers := ?t # ts\<rparr>"
      using run ch by (auto simp: chain_methods_def ch_create_token_def split: sum.splits bool.splits if_splits)
    then show "\<exists>t'. ch' = ch\<lparr>ch_layers := t' # ts\<rparr> \<and> tr_weak t t' \<and> (\<forall>x. r = Inr x \<longrightarrow> tr_step (\<lambda>_. 0) t t')"
    proof
      assume "ch' = ch \<and> isl r"
      then show ?thesis using same [OF ch] by (intro exI [of _ t]) auto
    next
      assume "ch' = ch\<lparr>ch_layers := ?t # ts\<rparr>"
      then show ?thesis
        by (intro exI [of _ ?t]) (auto simp: tr_step_def tr_weak_def tracker_wf_updates)
    qed
  qed
qed

section \<open>Actions and commits\<close>

fun action_delta :: "nc_action \<Rightarrow> bytes \<Rightarrow> int" where
  "action_delta (NCDepositAction uid amount) u = (if u = uid then amount else 0)"
| "action_delta (NCWithdrawalAction uid amount) u = (if u = uid then - amount else 0)"
| "action_delta (NCGrantAuthorityAction _ _ _) u = 0"
| "action_delta (NCAcquireAuthorityAction _ _ _) u = 0"

lemma on_newest_seq0:
  "on_newest (\<lambda>_. 0) m \<Longrightarrow> on_newest e n \<Longrightarrow> on_newest e (sthen m n)"
  "on_newest (\<lambda>_. 0) m' \<Longrightarrow> (\<And>x. on_newest e (f x)) \<Longrightarrow> on_newest e (sbind m' f)"
  using on_newest_sthen [of "\<lambda>_. 0" m e n] on_newest_sbind [of "\<lambda>_. 0" m' e f] by simp_all

lemma on_newest_require [newest]: "on_newest (\<lambda>_. 0) (require_authorities rt uid mint melt)"
  unfolding require_authorities_def by (intro on_newest_seq0 newest)

lemma on_newest_callee [newest]: "on_newest (action_delta a) (nc_callee_execution_rule rt a)"
proof (cases a)
  case (NCDepositAction uid n)
  then show ?thesis by (auto intro: on_newest_eq [OF on_newest_methods(3)])
next
  case (NCWithdrawalAction uid n)
  then show ?thesis by (auto intro: on_newest_eq [OF on_newest_methods(3)])
next
  case (NCGrantAuthorityAction uid a b)
  then show ?thesis by (auto intro!: on_newest_seq0 newest intro: on_newest_eq [of "\<lambda>_. 0"])
next
  case (NCAcquireAuthorityAction uid a b)
  then show ?thesis by (auto intro!: on_newest_seq0 newest intro: on_newest_eq [of "\<lambda>_. 0"])
qed

lemma on_newest_caller [newest]: "on_newest (\<lambda>u. - action_delta a u) (nc_caller_execution_rule rt a)"
proof (cases a)
  case (NCDepositAction uid n)
  then show ?thesis by (auto intro: on_newest_eq [OF on_newest_methods(3)])
next
  case (NCWithdrawalAction uid n)
  then show ?thesis by (auto intro: on_newest_eq [OF on_newest_methods(3)])
next
  case (NCGrantAuthorityAction uid a b)
  then show ?thesis by (auto intro!: on_newest_seq0 newest)
next
  case (NCAcquireAuthorityAction uid a b)
  then show ?thesis by (auto intro!: on_newest_seq0 newest)
qed

text \<open>Writing a tracker down to the tracker below it.\<close>

lemma sum_list_token:
  assumes "list_all (\<lambda>i. fst i = BalanceKey c (balance_key_token (fst i))) d" and "distinct (map fst d)"
  shows "(\<Sum>i\<leftarrow>d. if u = balance_key_token (fst i) then snd i else 0) =
           (case dict_get d (BalanceKey c u) of None \<Rightarrow> 0 | Some n \<Rightarrow> (n :: int))"
  using assms
proof (induction d)
  case (Cons i d)
  obtain k n where i: "i = (k, n)" by (cases i)
  have k: "k = BalanceKey c (balance_key_token k)" using Cons.prems(1) i by simp
  have notin: "k \<notin> fst ` set d" using Cons.prems(2) i by simp
  show ?case
  proof (cases "u = balance_key_token k")
    case True
    then have "dict_get d (BalanceKey c u) = None" using notin k by (metis map_of_eq_None_iff)
    then show ?thesis using Cons True k i by (auto simp: i)
  next
    case False
    then have "k \<noteq> BalanceKey c u" by auto
    then show ?thesis using Cons False i by simp
  qed
qed simp

lemma on_newest_flush:
  assumes "tracker_wf t"
  shows "on_newest (balance_diff_of t) (flush_tracker (chain_methods rt) t)"
proof -
  have "on_newest (\<lambda>_. 0) (flush_data (chain_methods rt) item)" for item
    unfolding flush_data_def by (auto split: prod.splits option.splits intro: newest)
  then have 1: "on_newest (\<lambda>_. 0) (sfor (ct_data t) (flush_data (chain_methods rt)))"
    using on_newest_sfor [where d = "\<lambda>_ _. 0" and xs = "ct_data t"] by simp
  have "on_newest (\<lambda>u. if u = balance_key_token (fst i) then snd i else 0)
      (case i of (key, amount) \<Rightarrow> m_add_balance (chain_methods rt) (balance_key_token key) amount)" for i
    using on_newest_methods(3) [of "balance_key_token (fst i)" "snd i"] by (simp add: split_beta)
  then have 2: "on_newest (\<lambda>u. \<Sum>i\<leftarrow>ct_balance_diff t. if u = balance_key_token (fst i) then snd i else 0)
      (sfor (ct_balance_diff t) (\<lambda>(key, amount). m_add_balance (chain_methods rt) (balance_key_token key) amount))"
    by (rule on_newest_sfor)
  have "on_newest (\<lambda>_. 0) (flush_authorities (chain_methods rt) item)" for item
    unfolding flush_authorities_def by (auto split: prod.splits intro!: on_newest_seq0 newest)
  then have 3: "on_newest (\<lambda>_. 0) (sfor (ct_authorities_diff t) (flush_authorities (chain_methods rt)))"
    using on_newest_sfor [where d = "\<lambda>_ _. 0" and xs = "ct_authorities_diff t"] by simp
  have 4: "on_newest (\<lambda>_. 0) (sfor (ct_created_tokens t) (\<lambda>(_, td). m_create_token (chain_methods rt) td))"
    using on_newest_sfor [where d = "\<lambda>_ _. 0" and xs = "ct_created_tokens t"
        and f = "\<lambda>(_, td). m_create_token (chain_methods rt) td"]
    by (simp add: split_beta newest)
  have 5: "on_newest (\<lambda>_. 0) (case ct_blueprint_id t of None \<Rightarrow> sret () | Some b \<Rightarrow> m_set_blueprint_id (chain_methods rt) b)"
    by (auto split: option.splits intro: newest)
  have "on_newest (\<lambda>u. (\<Sum>i\<leftarrow>ct_balance_diff t. if u = balance_key_token (fst i) then snd i else 0) + 0)
      (flush_tracker (chain_methods rt) t)"
    unfolding flush_tracker_def by (intro on_newest_seq0 on_newest_sthen 1 2 3 4 5)
  then show ?thesis
    by (rule on_newest_eq) (use assms in \<open>simp add: sum_list_token [of "ct_nc_id t"] tracker_wf_def balance_diff_of_def\<close>)
qed

text \<open>The commit of a tracker that has a tracker below.\<close>

lemma commit_into_tracker:
  assumes "ch_layers ch = t # p # ts" and "ch_commit rt ch = (r, ch')" and "tracker_wf t"
  shows "\<exists>t' p'. ch' = ch\<lparr>ch_layers := t' # p' # ts\<rparr> \<and> tr_weak t t' \<and> tr_weak p p' \<and>
           (\<forall>x. r = Inr x \<longrightarrow> t' = t\<lparr>ct_commited := True\<rparr> \<and> tr_step (balance_diff_of t) p p')"
proof (cases "fst (ct_check_if_locked t)")
  case (Inl e)
  then have "r = Inl e" "ch' = ch" using assms(1,2) by (simp_all add: ch_commit_def)
  then have "ch' = ch\<lparr>ch_layers := t # p # ts\<rparr>" "isl r" using assms(1) by simp_all
  then show ?thesis by (intro exI [of _ t] exI [of _ p]) auto
next
  case (Inr u)
  obtain r1 b where fl: "flush_tracker (chain_methods rt) t (ch\<lparr>ch_layers := p # ts\<rparr>) = (r1, b)" by fastforce
  obtain p' where p': "b = ch\<lparr>ch_layers := p' # ts\<rparr>" "tr_weak p p'" "\<forall>x. r1 = Inr x \<longrightarrow> tr_step (balance_diff_of t) p p'"
    using on_newestD [OF on_newest_flush [OF assms(3)] _ fl, of p ts] by auto
  let ?t = "if isl r1 then t else t\<lparr>ct_commited := True\<rparr>"
  have "ch_commit rt ch = (r1, ch\<lparr>ch_layers := ?t # p' # ts\<rparr>)"
    by (cases r1) (simp_all add: ch_commit_def assms(1) Inr fl p'(1))
  then have "(r, ch') = (r1, ch\<lparr>ch_layers := ?t # p' # ts\<rparr>)" using assms(2) by simp
  moreover have "tr_weak t ?t" by (simp add: tr_weak_def)
  ultimately show ?thesis using p'(2,3) by (intro exI [of _ ?t] exI [of _ p']) auto
qed

end
