(* ===== verification/Runner_Keeps.thy ===== *)
theory Runner_Keeps
  imports Runner_Frames
begin

text \<open>
  The invariant of the runner while code runs, the relation between the states before and after a piece of code,
  and the proof that every system call keeps them. The relation has two parts: what holds whether or not the code
  raises (the stored contracts are untouched), and what holds when it returns (the stack is as before, and no
  tokens appeared or vanished but those accounted for).
\<close>

section \<open>The invariant\<close>

definition good_tracker :: "bytes \<Rightarrow> tracker \<Rightarrow> bool" where
  "good_tracker c t \<longleftrightarrow> ct_nc_id t = c \<and> \<not> ct_commited t \<and> \<not> ct_blocked t \<and> tracker_wf t"

definition trackers_ok :: "(bytes, contract_storage) dict \<Rightarrow> (bytes, tracker list) dict \<Rightarrow> bool" where
  "trackers_ok storages d \<longleftrightarrow>
     distinct (map fst d) \<and>
     (\<forall>c ts. dict_get d c = Some ts \<longrightarrow>
        ts \<noteq> [] \<and> dict_has storages c \<and> (\<forall>t \<in> set ts. good_tracker c t))"

text \<open>
  The trackers of a contract belong to its calls on the stack, one each; the oldest stays when its call is done.
\<close>

fun stack_ok :: "(bytes \<Rightarrow> nat) \<Rightarrow> call_record list \<Rightarrow> bool" where
  "stack_ok n [] \<longleftrightarrow> (\<forall>c. n c \<le> 1)"
| "stack_ok n (r # rs) \<longleftrightarrow>
     n (cr_contract_id r) = Suc (cr_tracker r) \<and> stack_ok (n(cr_contract_id r := max 1 (cr_tracker r))) rs"

text \<open>The token records among the index updates, and the totals the runner keeps.\<close>

definition is_token_record :: "index_record \<Rightarrow> bool" where
  "is_token_record r \<longleftrightarrow> is_CreateTokenRecord r \<or> is_UpdateTokenBalanceRecord r"

definition record_sum :: "index_record list \<Rightarrow> bytes \<Rightarrow> int" where
  "record_sum recs u = (\<Sum>r\<leftarrow>recs. if is_token_record r \<and> update_uid r = u then update_amount r else 0)"

definition total_of :: "(bytes, int) dict \<Rightarrow> bytes \<Rightarrow> int" where
  "total_of d u = (case dict_get d u of None \<Rightarrow> 0 | Some n \<Rightarrow> n)"

definition totals_ok :: "index_record list \<Rightarrow> (bytes, int) dict \<Rightarrow> bool" where
  "totals_ok recs d \<longleftrightarrow>
     distinct (map fst d) \<and>
     (\<forall>u. dict_has d u \<longleftrightarrow> (\<exists>r \<in> set recs. is_token_record r \<and> update_uid r = u)) \<and>
     (\<forall>u. total_of d u = record_sum recs u)"

definition calls_of :: "call_info \<Rightarrow> call_record list" where
  "calls_of ci = (case ci_calls ci of None \<Rightarrow> [] | Some cs \<Rightarrow> cs)"

definition updates_ok :: "call_info \<Rightarrow> bool" where
  "updates_ok ci \<longleftrightarrow>
     (\<forall>r \<in> set (ci_stack ci). case cr_index_updates r of None \<Rightarrow> cr_type r = VIEW | Some a \<Rightarrow> a < length (ci_updates ci)) \<and>
     (ci_enable_call_trace ci \<longrightarrow>
        map the (filter (\<lambda>a. a \<noteq> None) (map cr_index_updates (calls_of ci))) = [0..<length (ci_updates ci)] \<and>
        (\<forall>r \<in> set (calls_of ci). cr_index_updates r = None \<longrightarrow> cr_type r = VIEW) \<and>
        (ci_calls ci = None \<longrightarrow> (\<forall>c. trackers_of c ci = [])))"

definition ci_ok :: "(bytes, contract_storage) dict \<Rightarrow> (bytes, int) dict \<Rightarrow> call_info \<Rightarrow> bool" where
  "ci_ok storages totals ci \<longleftrightarrow>
     trackers_ok storages (ci_trackers ci) \<and> stack_ok (\<lambda>c. length (trackers_of c ci)) (ci_stack ci) \<and>
     length (ci_stack ci) \<le> MAX_RECURSION_DEPTH \<and> ci_call_counter ci \<le> MAX_CALL_COUNTER \<and>
     updates_ok ci \<and> totals_ok (concat (ci_updates ci)) totals"

definition run_inv :: "runner \<Rightarrow> bool" where
  "run_inv s \<longleftrightarrow> (\<exists>ci. r_call_info s = Some ci \<and> ci_ok (r_storages s) (r_updated_tokens_totals s) ci)"

section \<open>The relation\<close>

text \<open>Also in a state in which an exception was raised.\<close>

definition unblocked :: "(bytes, tracker list) dict \<Rightarrow> bool" where
  "unblocked d \<longleftrightarrow> (\<forall>i \<in> set d. \<forall>t \<in> set (snd i). \<not> ct_blocked t)"

definition live :: "runner \<Rightarrow> bool" where
  "live s \<longleftrightarrow>
     (\<exists>ci. r_call_info s = Some ci \<and> length (ci_stack ci) \<le> MAX_RECURSION_DEPTH \<and> ci_call_counter ci \<le> MAX_CALL_COUNTER \<and>
        unblocked (ci_trackers ci))"

definition isolated :: "runner \<Rightarrow> runner \<Rightarrow> bool" where
  "isolated s s' \<longleftrightarrow>
     bs_trie (r_block s') = bs_trie (r_block s) \<and>
     (\<forall>c cs. dict_get (r_storages s) c = Some cs \<longrightarrow> dict_get (r_storages s') c = Some cs) \<and>
     r_last_call_info s' = r_last_call_info s \<and> r_enable_call_trace s' = r_enable_call_trace s"

definition stk :: "runner \<Rightarrow> call_record list" where
  "stk s = (case r_call_info s of None \<Rightarrow> [] | Some ci \<Rightarrow> ci_stack ci)"

definition traced :: "runner \<Rightarrow> bool" where
  "traced s = (case r_call_info s of None \<Rightarrow> False | Some ci \<Rightarrow> ci_enable_call_trace ci)"

definition tracked :: "(bytes, tracker list) dict \<Rightarrow> bytes \<Rightarrow> int" where
  "tracked d u = (\<Sum>i\<leftarrow>d. \<Sum>t\<leftarrow>snd i. balance_diff_of t u)"

definition net :: "runner \<Rightarrow> bytes \<Rightarrow> int" where
  "net s u =
     (case r_call_info s of None \<Rightarrow> 0 | Some ci \<Rightarrow> tracked (ci_trackers ci) u) - total_of (r_updated_tokens_totals s) u"

definition grown :: "runner \<Rightarrow> runner \<Rightarrow> bool" where
  "grown s s' \<longleftrightarrow>
     (\<forall>c. if layers_of c s = [] then length (layers_of c s') \<le> 1
          else length (layers_of c s') = length (layers_of c s))"

definition moved :: "(bytes \<Rightarrow> int) \<Rightarrow> runner \<Rightarrow> runner \<Rightarrow> bool" where
  "moved \<delta> s s' \<longleftrightarrow>
     stk s' = stk s \<and> traced s' = traced s \<and> r_metered_executor s \<le> r_metered_executor s' \<and>
     grown s s' \<and> (\<forall>u. net s' u = net s u + \<delta> u)"

definition keeps :: "call_record list \<Rightarrow> (bytes \<Rightarrow> int) \<Rightarrow> (runner, 'a) sm \<Rightarrow> bool" where
  "keeps K \<delta> m \<longleftrightarrow>
     (\<forall>s r s'. run_inv s \<longrightarrow> stk s = K \<longrightarrow> m s = (r, s') \<longrightarrow>
        live s' \<and> isolated s s' \<and> (\<forall>x. r = Inr x \<longrightarrow> run_inv s' \<and> moved \<delta> s s'))"

named_theorems keeping \<open>code that keeps the invariant\<close>

lemma isolated_refl [simp]: "isolated s s"
  by (simp add: isolated_def)

lemma isolated_trans: "isolated a b \<Longrightarrow> isolated b c \<Longrightarrow> isolated a c"
  by (simp add: isolated_def)

lemma moved_refl [simp]: "moved (\<lambda>_. 0) s s"
  by (simp add: moved_def grown_def)

lemma grown_refl [simp]: "grown s s"
  by (simp add: grown_def)

lemma grown_trans:
  assumes "grown a b" and "grown b c"
  shows "grown a c"
  unfolding grown_def
proof
  fix x
  have "if layers_of x a = [] then length (layers_of x b) \<le> 1 else length (layers_of x b) = length (layers_of x a)"
      "if layers_of x b = [] then length (layers_of x c) \<le> 1 else length (layers_of x c) = length (layers_of x b)"
    using assms unfolding grown_def by blast+
  then show "if layers_of x a = [] then length (layers_of x c) \<le> 1 else length (layers_of x c) = length (layers_of x a)"
    by (cases "layers_of x a = []"; cases "layers_of x b = []") simp_all
qed

lemma moved_trans: "moved d a b \<Longrightarrow> moved e b c \<Longrightarrow> moved (\<lambda>u. d u + e u) a c"
  using grown_trans by (auto simp: moved_def)

lemma run_inv_live: "run_inv s \<Longrightarrow> live s"
proof -
  assume "run_inv s"
  then obtain ci where ci: "r_call_info s = Some ci" "ci_ok (r_storages s) (r_updated_tokens_totals s) ci"
    unfolding run_inv_def by blast
  have d: "distinct (map fst (ci_trackers ci))" using ci(2) by (simp add: ci_ok_def trackers_ok_def)
  have "\<not> ct_blocked t" if "(c, ts) \<in> set (ci_trackers ci)" "t \<in> set ts" for c ts t
    using ci(2) that map_of_is_SomeI [OF d that(1)] by (auto simp: ci_ok_def trackers_ok_def good_tracker_def)
  then have "unblocked (ci_trackers ci)" by (auto simp: unblocked_def)
  then show "live s" using ci by (simp add: live_def ci_ok_def)
qed

lemma keepsD:
  assumes "keeps K \<delta> m" and "run_inv s" and "stk s = K" and "m s = (r, s')"
  shows "live s'" "isolated s s'" "r = Inr x \<Longrightarrow> run_inv s'" "r = Inr x \<Longrightarrow> moved \<delta> s s'"
  using assms unfolding keeps_def by blast+

lemma keepsI:
  assumes "\<And>s r s'. run_inv s \<Longrightarrow> stk s = K \<Longrightarrow> m s = (r, s') \<Longrightarrow>
      live s' \<and> isolated s s' \<and> (\<forall>x. r = Inr x \<longrightarrow> run_inv s' \<and> moved \<delta> s s')"
  shows "keeps K \<delta> m"
  using assms unfolding keeps_def by blast

lemma keeps_eq:
  assumes "keeps K d m" and "\<And>u. d u = e u"
  shows "keeps K e m"
proof -
  have "d = e" using assms(2) by (rule ext)
  then show ?thesis using assms(1) by simp
qed

text \<open>Code that does not change the state.\<close>

lemma keeps_same:
  assumes "\<And>s. snd (m s) = s"
  shows "keeps K (\<lambda>_. 0) m"
proof (rule keepsI)
  fix s r s'
  assume "run_inv s" "m s = (r, s')"
  then show "live s' \<and> isolated s s' \<and> (\<forall>x. r = Inr x \<longrightarrow> run_inv s' \<and> moved (\<lambda>_. 0) s s')"
    using assms [of s] by (simp add: run_inv_live)
qed

lemma keeps_pure [keeping]:
  "keeps K (\<lambda>_. 0) (sret x)" "keeps K (\<lambda>_. 0) (sraise e)" "keeps K (\<lambda>_. 0) (sguard b e)"
  "keeps K (\<lambda>_. 0) (sassert b)" "keeps K (\<lambda>_. 0) (sget f)" "keeps K (\<lambda>_. 0) (sof y)"
  by (rule keeps_same, simp add: sm_simps sof_def)+

lemma keeps_sbind:
  assumes "keeps K d m" and "\<And>x. keeps K e (f x)"
  shows "keeps K (\<lambda>u. d u + e u) (sbind m f)"
proof (rule keepsI)
  fix s r s'
  assume inv: "run_inv s" and K: "stk s = K" and run: "sbind m f s = (r, s')"
  obtain r1 s1 where m: "m s = (r1, s1)" by fastforce
  note 1 = keepsD [OF assms(1) inv K m]
  show "live s' \<and> isolated s s' \<and> (\<forall>x. r = Inr x \<longrightarrow> run_inv s' \<and> moved (\<lambda>u. d u + e u) s s')"
  proof (cases r1)
    case (Inl err)
    then show ?thesis using run m 1 by (auto simp: sm_simps)
  next
    case (Inr x)
    then have "f x s1 = (r, s')" "stk s1 = K" using run m 1(4) [OF Inr] K by (simp_all add: sm_simps moved_def)
    from keepsD [OF assms(2) 1(3) [OF Inr] this(2,1)] show ?thesis
      using 1(2) 1(4) [OF Inr] by (auto intro: isolated_trans moved_trans)
  qed
qed

lemma keeps_sthen: "keeps K d m \<Longrightarrow> keeps K e n \<Longrightarrow> keeps K (\<lambda>u. d u + e u) (sthen m n)"
  unfolding sthen_def by (rule keeps_sbind)

lemma keeps_seq:
  "keeps K (\<lambda>_. 0) m \<Longrightarrow> keeps K e n \<Longrightarrow> keeps K e (sthen m n)"
  "keeps K (\<lambda>_. 0) m' \<Longrightarrow> (\<And>x. keeps K e (f x)) \<Longrightarrow> keeps K e (sbind m' f)"
  using keeps_sthen [of K "\<lambda>_. 0" m e n] keeps_sbind [of K "\<lambda>_. 0" m' e f] by simp_all

lemma keeps_sfor:
  assumes "\<And>x. x \<in> set xs \<Longrightarrow> keeps K (d x) (f x)"
  shows "keeps K (\<lambda>u. \<Sum>x\<leftarrow>xs. d x u) (sfor xs f)"
  using assms
proof (induction xs)
  case Nil
  then show ?case by (simp add: keeping)
next
  case (Cons x xs)
  then have "keeps K (\<lambda>u. d x u + (\<Sum>x\<leftarrow>xs. d x u)) (sthen (f x) (sfor xs f))"
    by (intro keeps_sthen) simp_all
  then show ?case by simp
qed

lemma keeps_sfor0 [keeping]: "(\<And>x. keeps K (\<lambda>_. 0) (f x)) \<Longrightarrow> keeps K (\<lambda>_. 0) (sfor xs f)"
  using keeps_sfor [where d = "\<lambda>_ _. 0" and xs = xs and f = f and K = K] by simp

text \<open>The current call.\<close>

lemma stk_call_info: "r_call_info s = Some ci \<Longrightarrow> stk s = ci_stack ci"
  by (simp add: stk_def)

lemma run_inv_ci: "run_inv s \<Longrightarrow> \<exists>ci. r_call_info s = Some ci \<and> ci_stack ci = stk s \<and> ci_ok (r_storages s) (r_updated_tokens_totals s) ci"
  by (auto simp: run_inv_def stk_def)

lemma get_current_call_record_at:
  "run_inv s \<Longrightarrow> stk s = r # rs \<Longrightarrow> get_current_call_record s = (Inr r, s)"
  by (auto simp: get_current_call_record_def run_inv_def on_call_info_def sm_simps stk_def)

lemma keeps_at:
  assumes "\<And>s. run_inv s \<Longrightarrow> stk s = K \<Longrightarrow> m s = (Inr x, s)" and "keeps K d (f x)"
  shows "keeps K d (sbind m f)"
  using assms(2) unfolding keeps_def by (simp add: sm_simps assms(1))

lemma keeps_current [keeping]:
  "keeps (r # rs) d (f r) \<Longrightarrow> keeps (r # rs) d (sbind get_current_call_record f)"
  by (rule keeps_at) (rule get_current_call_record_at)

lemma keeps_current_id [keeping]:
  "keeps (r # rs) d (f (cr_contract_id r)) \<Longrightarrow> keeps (r # rs) d (sbind get_current_contract_id f)"
  "keeps (r # rs) d (g (cr_blueprint_id r)) \<Longrightarrow> keeps (r # rs) d (sbind get_current_code_blueprint_id g)"
  by (rule keeps_at, simp_all add: get_current_contract_id_def get_current_code_blueprint_id_def
      get_current_call_record_at sm_simps)+

section \<open>Parts of the state that the invariant does not speak of\<close>

definition quiet :: "call_info \<Rightarrow> call_info \<Rightarrow> bool" where
  "quiet ci ci' \<longleftrightarrow>
     ci_stack ci' = ci_stack ci \<and> ci_trackers ci' = ci_trackers ci \<and> ci_enable_call_trace ci' = ci_enable_call_trace ci \<and>
     ci_calls ci' = ci_calls ci \<and> ci_call_counter ci' = ci_call_counter ci \<and> ci_updates ci' = ci_updates ci"

lemma quiet_ci_ok:
  assumes "quiet ci ci'" and "ci_ok st tot ci"
  shows "ci_ok st tot ci'"
proof -
  have e: "ci_stack ci' = ci_stack ci" "ci_trackers ci' = ci_trackers ci" "ci_enable_call_trace ci' = ci_enable_call_trace ci"
      "ci_call_counter ci' = ci_call_counter ci" "ci_updates ci' = ci_updates ci" "calls_of ci' = calls_of ci"
      "ci_calls ci' = ci_calls ci" "\<And>c. trackers_of c ci' = trackers_of c ci"
    using assms(1) by (simp_all add: quiet_def calls_of_def trackers_of_def)
  show ?thesis using assms(2) unfolding ci_ok_def updates_ok_def e .
qed

lemma keeps_quiet:
  assumes "\<And>ci r ci'. f ci = (r, ci') \<Longrightarrow> quiet ci ci'"
  shows "keeps K (\<lambda>_. 0) (on_call_info f)"
proof (rule keepsI)
  fix s r s'
  assume inv: "run_inv s" and run: "on_call_info f s = (r, s')"
  then obtain ci where ci: "r_call_info s = Some ci" "ci_ok (r_storages s) (r_updated_tokens_totals s) ci"
    unfolding run_inv_def by blast
  obtain ci' where f: "f ci = (r, ci')" and s': "s' = s\<lparr>r_call_info := Some ci'\<rparr>"
    using run ci(1) by (auto simp: on_call_info_def split: prod.splits)
  have q: "quiet ci ci'" using assms f .
  then have inv': "run_inv s'" using quiet_ci_ok [OF q ci(2)] by (simp add: run_inv_def s')
  have "moved (\<lambda>_. 0) s s'"
    using q ci by (simp add: moved_def grown_def s' quiet_def stk_def traced_def layers_of_def net_def trackers_of_def)
  then show "live s' \<and> isolated s s' \<and> (\<forall>x. r = Inr x \<longrightarrow> run_inv s' \<and> moved (\<lambda>_. 0) s s')"
    using inv' run_inv_live [OF inv'] by (simp add: isolated_def s')
qed

lemma keeps_call_info_read [keeping]:
  "keeps K (\<lambda>_. 0) (on_call_info (sget f))" "keeps K (\<lambda>_. 0) (on_call_info (sret x))"
  "keeps K (\<lambda>_. 0) (on_call_info new_cache)"
  by (rule keeps_quiet; auto simp: sm_simps quiet_def new_cache_def)+

lemma keeps_smod_other:
  assumes "\<And>s. r_block (g s) = r_block s \<and> r_storages (g s) = r_storages s \<and> r_call_info (g s) = r_call_info s \<and>
      r_last_call_info (g s) = r_last_call_info s \<and> r_enable_call_trace (g s) = r_enable_call_trace s \<and>
      r_updated_tokens_totals (g s) = r_updated_tokens_totals s \<and> r_metered_executor s \<le> r_metered_executor (g s)"
  shows "keeps K (\<lambda>_. 0) (smod g)"
proof (rule keepsI)
  fix s r s'
  assume inv: "run_inv s" and "smod g s = (r, s')"
  then have s': "s' = g s" by (simp add: sm_simps)
  have inv': "run_inv s'" using inv assms by (simp add: run_inv_def s')
  moreover have "moved (\<lambda>_. 0) s s'"
    using assms by (simp add: moved_def grown_def s' stk_def traced_def layers_of_def net_def)
  ultimately show "live s' \<and> isolated s s' \<and> (\<forall>x. r = Inr x \<longrightarrow> run_inv s' \<and> moved (\<lambda>_. 0) s s')"
    using run_inv_live [OF inv'] assms by (simp add: isolated_def s')
qed

lemma keeps_smods [keeping]:
  "keeps K (\<lambda>_. 0) (smod (\<lambda>s. s\<lparr>r_rng := g\<rparr>))"
  "keeps K (\<lambda>_. 0) (smod (\<lambda>s. s\<lparr>r_rng_per_contract := h s\<rparr>))"
  "keeps K (\<lambda>_. 0) (smod (\<lambda>s. s\<lparr>r_metered_executor := True\<rparr>))"
  "keeps K (\<lambda>_. 0) (register_paid_fee uid amount)"
  unfolding register_paid_fee_def by (rule keeps_smod_other, simp)+

section \<open>Storages\<close>

lemma dict_put_same: "dict_get d k = Some v \<Longrightarrow> dict_put k v d = d"
  by (induction d) auto

lemma trackers_of_Some: "dict_get (ci_trackers ci) c = Some ts \<Longrightarrow> trackers_of c ci = ts"
  by (simp add: trackers_of_def)

lemma trackers_of_Cons: "trackers_of c ci = t # ts \<Longrightarrow> dict_get (ci_trackers ci) c = Some (t # ts)"
  by (auto simp: trackers_of_def split: option.splits)

lemma put_chain_same:
  assumes "r_call_info s = Some ci" and "dict_get (r_storages s) c = Some cs" and "newer @ ch_layers ch = trackers_of c ci"
    and "ch_base ch = cs" and "ch_block ch = r_block s"
  shows "put_chain c newer ch s = s"
proof (cases "trackers_of c ci")
  case Nil
  then show ?thesis using assms by (simp add: put_chain_def dict_put_same)
next
  case (Cons t ts)
  then have "dict_put c (trackers_of c ci) (ci_trackers ci) = ci_trackers ci"
    using trackers_of_Cons [OF Cons] by (simp add: dict_put_same)
  then show ?thesis using assms by (simp add: put_chain_def dict_put_same Cons)
qed

lemma on_storage_read:
  assumes "run_inv s"
  shows "snd (on_storage c n (\<lambda>ch. (g ch, ch)) s) = s"
proof -
  obtain ci where ci: "r_call_info s = Some ci" using assms unfolding run_inv_def by blast
  show ?thesis
    using put_chain_same [OF ci]
    by (cases "dict_get (r_storages s) c") (simp_all add: on_storage_def Let_def layers_of_def ci)
qed

lemma keeps_read [keeping]: "keeps K (\<lambda>_. 0) (on_storage c n (\<lambda>ch. (g ch, ch)))"
proof (rule keepsI)
  fix s r s'
  assume inv: "run_inv s" and "on_storage c n (\<lambda>ch. (g ch, ch)) s = (r, s')"
  then have "s' = s" using on_storage_read [OF inv, of c n g] by simp
  then show "live s' \<and> isolated s s' \<and> (\<forall>x. r = Inr x \<longrightarrow> run_inv s' \<and> moved (\<lambda>_. 0) s s')"
    using inv run_inv_live [OF inv] by simp
qed

lemma keeps_read_balance [keeping]: "keeps K (\<lambda>_. 0) (on_storage c n (ch_get_balance rt uid))"
  unfolding ch_get_balance_def [abs_def] by (rule keeps_read)

text \<open>An operation on the newest tracker of a contract.\<close>

definition with_newest :: "call_info \<Rightarrow> bytes \<Rightarrow> tracker list \<Rightarrow> runner \<Rightarrow> runner" where
  "with_newest ci c ts s = s\<lparr>r_call_info := Some (ci\<lparr>ci_trackers := dict_put c ts (ci_trackers ci)\<rparr>)\<rparr>"

lemma on_storage_newest:
  assumes ci: "r_call_info s = Some ci" and ts: "trackers_of c ci = t # ts" and n: "n = Suc (length ts)"
    and f: "on_newest \<delta> f" and run: "on_storage c n f s = (r, s')"
  shows "dict_get (r_storages s) c = None \<and> s' = s \<and> r = Inl KeyError \<or>
         (\<exists>t'. s' = with_newest ci c (t' # ts) s \<and> tr_weak t t' \<and> (\<forall>x. r = Inr x \<longrightarrow> tr_step \<delta> t t'))"
proof (cases "dict_get (r_storages s) c")
  case None
  then show ?thesis using run by (simp add: on_storage_def)
next
  case (Some cs)
  let ?ch = "\<lparr>ch_layers = t # ts, ch_base = cs, ch_block = r_block s\<rparr>"
  obtain ch' where fch: "f ?ch = (r, ch')" and s': "s' = put_chain c [] ch' s"
    using run by (auto simp: on_storage_def Some Let_def layers_of_def ci ts n split: prod.splits)
  obtain t' where t': "ch' = ?ch\<lparr>ch_layers := t' # ts\<rparr>" "tr_weak t t'" "\<forall>x. r = Inr x \<longrightarrow> tr_step \<delta> t t'"
    using on_newestD [OF f _ fch, of t ts] by auto
  have "s' = with_newest ci c (t' # ts) s"
    by (simp add: s' t'(1) put_chain_def with_newest_def ci dict_put_same [OF Some])
  then show ?thesis using t'(2,3) by blast
qed

lemma set_dict_put: "set (dict_put k v d) \<subseteq> insert (k, v) (set d)"
  by (induction d) auto

lemma unblocked_put:
  assumes "unblocked d" and "\<forall>t \<in> set ts. \<not> ct_blocked t"
  shows "unblocked (dict_put c ts d)"
  unfolding unblocked_def
proof
  fix i
  assume "i \<in> set (dict_put c ts d)"
  then have "i = (c, ts) \<or> i \<in> set d" using set_dict_put by fast
  then show "\<forall>t \<in> set (snd i). \<not> ct_blocked t" using assms by (auto simp: unblocked_def)
qed

lemma unblocked_get: "unblocked d \<Longrightarrow> dict_get d c = Some ts \<Longrightarrow> \<forall>t \<in> set ts. \<not> ct_blocked t"
  by (force simp: unblocked_def dest: map_of_SomeD)

lemma with_newest_weak:
  assumes "run_inv s" and ci: "r_call_info s = Some ci" and ts: "trackers_of c ci = t # ts" and t': "tr_weak t t'"
  shows "live (with_newest ci c (t' # ts) s)" "isolated s (with_newest ci c (t' # ts) s)"
proof -
  have live: "live s" using run_inv_live assms(1) .
  then have un: "unblocked (ci_trackers ci)" using ci by (simp add: live_def)
  have "\<forall>x \<in> set (t' # ts). \<not> ct_blocked x"
    using unblocked_get [OF un trackers_of_Cons [OF ts]] t' by (simp add: tr_weak_def)
  then show "live (with_newest ci c (t' # ts) s)"
    using live ci unblocked_put [OF un] by (simp add: live_def with_newest_def)
  show "isolated s (with_newest ci c (t' # ts) s)" by (simp add: isolated_def with_newest_def)
qed

lemma tracked_put:
  "distinct (map fst d) \<Longrightarrow>
     tracked (dict_put c ts d) u = tracked d u + (\<Sum>t\<leftarrow>ts. balance_diff_of t u) -
       (case dict_get d c of None \<Rightarrow> 0 | Some ts0 \<Rightarrow> \<Sum>t\<leftarrow>ts0. balance_diff_of t u)"
  by (induction d) (auto simp: tracked_def map_of_eq_None_iff split: option.splits)

lemma trackers_of_put: "trackers_of d (ci\<lparr>ci_trackers := dict_put c ts x\<rparr>) = (if d = c then ts else trackers_of d (ci\<lparr>ci_trackers := x\<rparr>))"
  by (simp add: trackers_of_def)

lemma trackers_okD:
  assumes "trackers_ok st d" and "dict_get d c = Some ts"
  shows "ts \<noteq> []" "dict_has st c" "t \<in> set ts \<Longrightarrow> good_tracker c t" "distinct (map fst d)"
  using assms by (auto simp: trackers_ok_def)

lemma trackers_ok_put:
  assumes "trackers_ok st d" and "ts \<noteq> []" and "dict_has st c" and "\<forall>t \<in> set ts. good_tracker c t"
  shows "trackers_ok st (dict_put c ts d)"
  using assms by (simp add: trackers_ok_def)

lemma tr_step_good: "tr_step \<delta> t t' \<Longrightarrow> good_tracker c t \<Longrightarrow> good_tracker c t'"
  by (simp add: good_tracker_def tr_step_def tr_weak_def)

lemma ci_ok_trackers:
  assumes "ci_ok st tot ci" and "trackers_ok st d" and "\<And>c. length (trackers_of c (ci\<lparr>ci_trackers := d\<rparr>)) = length (trackers_of c ci)"
  shows "ci_ok st tot (ci\<lparr>ci_trackers := d\<rparr>)"
proof -
  have e: "calls_of (ci\<lparr>ci_trackers := d\<rparr>) = calls_of ci" by (simp add: calls_of_def)
  have f: "ci_stack (ci\<lparr>ci_trackers := d\<rparr>) = ci_stack ci" "ci_updates (ci\<lparr>ci_trackers := d\<rparr>) = ci_updates ci"
      "ci_calls (ci\<lparr>ci_trackers := d\<rparr>) = ci_calls ci" by simp_all
  have g: "trackers_of c (ci\<lparr>ci_trackers := d\<rparr>) = [] \<longleftrightarrow> trackers_of c ci = []" for c
    using assms(3) [of c] by (metis length_0_conv)
  show ?thesis using assms(1,2) unfolding ci_ok_def updates_ok_def e f g assms(3) by simp
qed

lemma with_newest_strong:
  assumes inv: "run_inv s" and ci: "r_call_info s = Some ci" and ts: "trackers_of c ci = t # ts" and t': "tr_step \<delta> t t'"
  shows "run_inv (with_newest ci c (t' # ts) s)" "moved \<delta> s (with_newest ci c (t' # ts) s)"
proof -
  have ok: "ci_ok (r_storages s) (r_updated_tokens_totals s) ci" using inv ci by (simp add: run_inv_def)
  then have tok: "trackers_ok (r_storages s) (ci_trackers ci)" by (simp add: ci_ok_def)
  have get: "dict_get (ci_trackers ci) c = Some (t # ts)" using trackers_of_Cons [OF ts] .
  note D = trackers_okD [OF tok get]
  have "\<forall>x \<in> set (t' # ts). good_tracker c x" using D(3) tr_step_good [OF t'] by simp
  then have tok': "trackers_ok (r_storages s) (dict_put c (t' # ts) (ci_trackers ci))"
    by (intro trackers_ok_put [OF tok] D(2)) simp
  have len: "length (trackers_of d (ci\<lparr>ci_trackers := dict_put c (t' # ts) (ci_trackers ci)\<rparr>)) = length (trackers_of d ci)" for d
    using ts by (simp add: trackers_of_put)
  show "run_inv (with_newest ci c (t' # ts) s)"
    using ci_ok_trackers [OF ok tok' len] by (simp add: run_inv_def with_newest_def)
  have "tracked (dict_put c (t' # ts) (ci_trackers ci)) u = tracked (ci_trackers ci) u + \<delta> u" for u
    using t' by (simp add: tracked_put [OF D(4)] get tr_step_def)
  moreover have "length (layers_of d (with_newest ci c (t' # ts) s)) = length (layers_of d s)" for d
    using len [of d] by (simp add: layers_of_def with_newest_def ci)
  then have "grown s (with_newest ci c (t' # ts) s)" by (simp add: grown_def)
  ultimately show "moved \<delta> s (with_newest ci c (t' # ts) s)"
    using ci by (simp add: moved_def with_newest_def stk_def traced_def net_def)
qed

lemma keeps_newest_at:
  assumes inv: "run_inv s" and ci: "r_call_info s = Some ci" and ts: "trackers_of c ci = t # ts" and n: "n = Suc (length ts)"
    and f: "on_newest \<delta> f" and run: "on_storage c n f s = (r, s')"
  shows "live s' \<and> isolated s s' \<and> (\<forall>x. r = Inr x \<longrightarrow> run_inv s' \<and> moved \<delta> s s')"
  using on_storage_newest [OF ci ts n f run]
proof
  assume "dict_get (r_storages s) c = None \<and> s' = s \<and> r = Inl KeyError"
  then show ?thesis using run_inv_live [OF inv] by simp
next
  assume "\<exists>t'. s' = with_newest ci c (t' # ts) s \<and> tr_weak t t' \<and> (\<forall>x. r = Inr x \<longrightarrow> tr_step \<delta> t t')"
  then show ?thesis
    using with_newest_weak [OF inv ci ts] with_newest_strong [OF inv ci ts] by blast
qed

lemma own_tracker:
  assumes "run_inv s" and "stk s = r # rs" and "r_call_info s = Some ci"
  shows "\<exists>t ts. trackers_of (cr_contract_id r) ci = t # ts \<and> cr_tracker r = length ts"
proof -
  have "length (trackers_of (cr_contract_id r) ci) = Suc (cr_tracker r)"
    using assms by (auto simp: run_inv_def ci_ok_def stk_def)
  then show ?thesis by (cases "trackers_of (cr_contract_id r) ci") auto
qed

lemma keeps_own [keeping]:
  assumes "on_newest \<delta> f"
  shows "keeps (r # rs) \<delta> (on_storage (cr_contract_id r) (cr_tracker r + 1) f)"
proof (rule keepsI)
  fix s x s'
  assume inv: "run_inv s" and K: "stk s = r # rs"
    and run: "on_storage (cr_contract_id r) (cr_tracker r + 1) f s = (x, s')"
  obtain ci where ci: "r_call_info s = Some ci" using inv unfolding run_inv_def by blast
  obtain t ts where ts: "trackers_of (cr_contract_id r) ci = t # ts" "cr_tracker r = length ts"
    using own_tracker [OF inv K ci] by blast
  show "live s' \<and> isolated s s' \<and> (\<forall>y. x = Inr y \<longrightarrow> run_inv s' \<and> moved \<delta> s s')"
    by (rule keeps_newest_at [OF inv ci ts(1) _ assms run]) (simp add: ts(2))
qed

lemma current_tracker_at:
  assumes "run_inv s" and "stk s = r # rs"
  shows "get_current_changes_tracker s = (Inr (cr_contract_id r, cr_tracker r + 1), s)"
proof -
  obtain ci where ci: "r_call_info s = Some ci" using assms(1) unfolding run_inv_def by blast
  obtain t ts where ts: "trackers_of (cr_contract_id r) ci = t # ts" "cr_tracker r = length ts"
    using own_tracker [OF assms ci] by blast
  have upd: "s\<lparr>r_call_info := Some ci\<rparr> = s" using ci by simp
  show ?thesis
    using assms ci ts(2) trackers_of_Cons [OF ts(1)]
    by (simp add: get_current_changes_tracker_def get_current_contract_id_def get_current_call_record_at
        on_call_info_def sm_simps upd)
qed

lemma keeps_current_tracker [keeping]:
  assumes "on_newest \<delta> f"
  shows "keeps (r # rs) \<delta> (on_current_tracker f)"
  unfolding on_current_tracker_def
  by (rule keeps_at, rule current_tracker_at, assumption, assumption)
    (use keeps_own [OF assms] in simp)

end
