(* ===== verification/Syscall_Keeps.thy ===== *)
theory Syscall_Keeps
  imports Runner_Keeps
begin

text \<open>
  Every system call that is no call of a method keeps the invariant and moves no tokens that the runner does not
  account for.
\<close>

section \<open>Loading contracts\<close>

definition widened :: "runner \<Rightarrow> runner \<Rightarrow> bool" where
  "widened s s' \<longleftrightarrow>
     (\<exists>b d. s' = s\<lparr>r_block := b, r_storages := d\<rparr> \<and> bs_trie b = bs_trie (r_block s) \<and>
        (\<forall>c cs. dict_get (r_storages s) c = Some cs \<longrightarrow> dict_get d c = Some cs))"

lemma widened_refl: "widened s s"
  unfolding widened_def by (intro exI [of _ "r_block s"] exI [of _ "r_storages s"]) simp

lemma dict_has_get: "dict_has d k \<longleftrightarrow> (\<exists>v. dict_get d k = Some v)"
  by (auto simp: dict_has_def split: option.splits)

lemma trackers_ok_mono:
  assumes "trackers_ok st d" and "\<And>c cs. dict_get st c = Some cs \<Longrightarrow> dict_get st' c = Some cs"
  shows "trackers_ok st' d"
proof -
  have "dict_has st c \<Longrightarrow> dict_has st' c" for c using assms(2) by (auto simp: dict_has_get)
  then show ?thesis using assms(1) unfolding trackers_ok_def by blast
qed

lemma widened_kept:
  assumes inv: "run_inv s" and "widened s s'"
  shows "run_inv s'" "isolated s s'" "moved (\<lambda>_. 0) s s'"
proof -
  obtain b d where s': "s' = s\<lparr>r_block := b, r_storages := d\<rparr>" and b: "bs_trie b = bs_trie (r_block s)"
      and d: "\<And>c cs. dict_get (r_storages s) c = Some cs \<Longrightarrow> dict_get d c = Some cs"
    using assms(2) unfolding widened_def by blast
  obtain ci where ci: "r_call_info s = Some ci" "ci_ok (r_storages s) (r_updated_tokens_totals s) ci"
    using inv unfolding run_inv_def by blast
  have "trackers_ok (r_storages s) (ci_trackers ci)" using ci(2) by (simp add: ci_ok_def)
  then have "trackers_ok d (ci_trackers ci)" using d by (rule trackers_ok_mono)
  then have "ci_ok d (r_updated_tokens_totals s) ci" using ci(2) by (simp add: ci_ok_def)
  then show "run_inv s'" using ci(1) by (simp add: run_inv_def s')
  show "isolated s s'" using b d by (simp add: isolated_def s')
  show "moved (\<lambda>_. 0) s s'" by (simp add: moved_def grown_def s' stk_def traced_def layers_of_def net_def)
qed

lemma keeps_widened:
  assumes "\<And>s r s'. m s = (r, s') \<Longrightarrow> widened s s'"
  shows "keeps K (\<lambda>_. 0) m"
proof (rule keepsI)
  fix s r s'
  assume inv: "run_inv s" and "m s = (r, s')"
  then have "widened s s'" using assms by blast
  from widened_kept [OF inv this]
  show "live s' \<and> isolated s s' \<and> (\<forall>x. r = Inr x \<longrightarrow> run_inv s' \<and> moved (\<lambda>_. 0) s s')"
    using run_inv_live by blast
qed

lemma bs_get_trie_trie: "bs_get_trie rt x b = (r, b') \<Longrightarrow> bs_trie b' = bs_trie b"
  by (auto simp: bs_get_trie_def store_trie_def sm_simps split: option.splits if_splits)

lemma bs_get_contract_storage_trie: "bs_get_contract_storage rt c b = (r, b') \<Longrightarrow> bs_trie b' = bs_trie b"
  by (auto simp: bs_get_contract_storage_def split: sum.splits prod.splits dest: bs_get_trie_trie)

lemma bs_get_empty_contract_storage_trie: "bs_get_empty_contract_storage rt c b = (r, b') \<Longrightarrow> bs_trie b' = bs_trie b"
  by (auto simp: bs_get_empty_contract_storage_def sm_simps split: sum.splits prod.splits dest: bs_get_trie_trie)

lemma widened_block: "bs_trie b = bs_trie (r_block s) \<Longrightarrow> widened s (s\<lparr>r_block := b\<rparr>)"
  unfolding widened_def by (intro exI [of _ b] exI [of _ "r_storages s"]) simp

lemma widened_new:
  "bs_trie b = bs_trie (r_block s) \<Longrightarrow> \<not> dict_has (r_storages s) c \<Longrightarrow>
     widened s (s\<lparr>r_block := b, r_storages := dict_put c cs (r_storages s)\<rparr>)"
  unfolding widened_def dict_has_get
  by (intro exI [of _ b] exI [of _ "dict_put c cs (r_storages s)"]) auto

lemma get_storage_widened:
  assumes "get_storage env c s = (r, s')"
  shows "widened s s'" "r = Inr () \<Longrightarrow> dict_has (r_storages s') c" "r_call_info s' = r_call_info s"
proof -
  have "(dict_has (r_storages s) c \<and> s' = s) \<or>
      (\<not> dict_has (r_storages s) c \<and> (\<exists>x b. bs_get_contract_storage (ne_runtime env) c (r_block s) = (x, b) \<and>
         (isl x \<and> isl r \<and> s' = s\<lparr>r_block := b\<rparr> \<or>
          (\<exists>cs. s' = s\<lparr>r_block := b, r_storages := dict_put c cs (r_storages s)\<rparr>))))"
    using assms by (auto simp: get_storage_def on_block_def sm_simps split: if_splits prod.splits sum.splits)
  then show "widened s s'" "r = Inr () \<Longrightarrow> dict_has (r_storages s') c" "r_call_info s' = r_call_info s"
    using widened_refl widened_block widened_new bs_get_contract_storage_trie by (auto; blast)+
qed

lemma keeps_get_storage [keeping]: "keeps K (\<lambda>_. 0) (get_storage env c)"
  by (rule keeps_widened) (rule get_storage_widened(1))

lemma internal_create_widened:
  assumes "internal_create_contract env c bp s = (r, s')"
  shows "widened s s'"
proof -
  have "s' = s \<or> (\<exists>x b. bs_get_empty_contract_storage (ne_runtime env) c (r_block s) = (x, b) \<and> s' = s\<lparr>r_block := b\<rparr>) \<or>
      (\<not> dict_has (r_storages s) c \<and> (\<exists>x b cs. bs_get_empty_contract_storage (ne_runtime env) c (r_block s) = (x, b) \<and>
          s' = s\<lparr>r_block := b, r_storages := dict_put c cs (r_storages s)\<rparr>))"
    using assms
    by (auto simp: internal_create_contract_def has_contract_been_initialized_def on_block_def sm_simps
        split: if_splits prod.splits sum.splits)
  then show ?thesis
    using widened_refl widened_block widened_new bs_get_empty_contract_storage_trie by blast
qed

lemma keeps_internal_create [keeping]: "keeps K (\<lambda>_. 0) (internal_create_contract env c bp)"
  by (rule keeps_widened) (rule internal_create_widened)

lemma keeps_initialized [keeping]: "keeps K (\<lambda>_. 0) (has_contract_been_initialized c)"
  by (rule keeps_same) (simp add: has_contract_been_initialized_def)

section \<open>Reading\<close>

lemma keeps_tracker_or_storage [keeping]: "keeps K (\<lambda>_. 0) (tracker_or_storage env c)"
  unfolding tracker_or_storage_def by (intro keeps_seq keeping) (auto split: option.splits intro!: keeps_seq keeping)

lemma keeps_get_blueprint_id [keeping]: "keeps K (\<lambda>_. 0) (get_blueprint_id env c)"
  unfolding get_blueprint_id_def by (intro keeps_seq keeping)

lemma keeps_plain_current [keeping]:
  "keeps (r # rs) (\<lambda>_. 0) get_current_call_record" "keeps (r # rs) (\<lambda>_. 0) get_current_contract_id"
  "keeps (r # rs) (\<lambda>_. 0) get_current_code_blueprint_id"
  "keeps (r # rs) (\<lambda>_. 0) get_current_changes_tracker"
  using keeps_current [where r = r and rs = rs and f = sret] keeps_current_id(1) [where r = r and rs = rs and f = sret]
    keeps_current_id(2) [where r = r and rs = rs and g = sret] keeps_at [OF current_tracker_at, where f = sret]
  by (simp_all add: keeps_pure)

lemma keeps_assert_current_tracker [keeping]: "keeps (r # rs) (\<lambda>_. 0) assert_current_tracker"
  unfolding assert_current_tracker_def sassert_apply
  by (intro keeps_current_id(1) keeps_current_tracker on_newest_read)

lemma keeps_forbid [keeping]: "keeps (r # rs) (\<lambda>_. 0) forbid_call_on_view"
  unfolding forbid_call_on_view_def by (intro keeps_seq keeping)

lemma keeps_runner_get_balance [keeping]: "keeps (r # rs) (\<lambda>_. 0) (runner_get_balance env c tok before)"
  unfolding runner_get_balance_def Let_def
  by (intro keeps_seq keeping) (auto intro!: keeps_seq keeping split: prod.splits)

lemma keeps_create_blueprint_instance [keeping]: "keeps K (\<lambda>_. 0) (create_blueprint_instance env bp)"
  unfolding create_blueprint_instance_def by (intro keeps_seq keeping) (auto intro: keeping split: option.splits)

lemma keeps_runner_get_token [keeping]: "keeps (r # rs) (\<lambda>_. 0) (runner_get_token env tok)"
  unfolding runner_get_token_def
  by (intro keeps_seq keeping newest) (auto intro!: keeps_seq keeping newest split: option.splits)

section \<open>Index records\<close>

lemma mset_concat_update:
  "a < length xs \<Longrightarrow> mset (concat (xs[a := xs ! a @ [r]])) = add_mset r (mset (concat xs))"
proof (induction xs arbitrary: a)
  case (Cons x xs)
  then show ?case by (cases a) auto
qed simp

lemma record_sum_mset:
  "record_sum recs u = (\<Sum>r\<in>#mset recs. if is_token_record r \<and> update_uid r = u then update_amount r else 0)"
  unfolding record_sum_def by (simp flip: sum_mset_sum_list)

lemma totals_ok_mset: "mset recs = mset recs' \<Longrightarrow> totals_ok recs d \<longleftrightarrow> totals_ok recs' d"
  unfolding totals_ok_def record_sum_mset by (metis set_mset_mset)

lemma total_of_add: "total_of (add_total k n d) u = total_of d u + (if u = k then n else 0)"
  by (simp add: total_of_def add_total_def)

lemma dict_has_add [simp]: "dict_has (add_total k n d) u \<longleftrightarrow> u = k \<or> dict_has d u"
  by (simp add: add_total_def)

lemma distinct_add_total [simp]: "distinct (map fst (add_total k n d)) \<longleftrightarrow> distinct (map fst d)"
  by (simp add: add_total_def)

lemma totals_ok_token:
  "totals_ok recs d \<Longrightarrow> is_token_record r \<Longrightarrow> totals_ok (r # recs) (add_total (update_uid r) (update_amount r) d)"
  by (auto simp: totals_ok_def total_of_add record_sum_def)

lemma totals_ok_other: "totals_ok recs d \<Longrightarrow> \<not> is_token_record r \<Longrightarrow> totals_ok (r # recs) d"
  by (auto simp: totals_ok_def record_sum_def)

definition add_record :: "nat \<Rightarrow> index_record \<Rightarrow> call_info \<Rightarrow> call_info" where
  "add_record a r ci = ci\<lparr>ci_updates := (ci_updates ci)[a := ci_updates ci ! a @ [r]]\<rparr>"

lemma ci_ok_add_record:
  assumes ok: "ci_ok st tot ci" and a: "a < length (ci_updates ci)" and tot': "totals_ok (r # concat (ci_updates ci)) tot'"
  shows "ci_ok st tot' (add_record a r ci)"
proof -
  have e: "ci_stack (add_record a r ci) = ci_stack ci" "ci_trackers (add_record a r ci) = ci_trackers ci"
      "length (ci_updates (add_record a r ci)) = length (ci_updates ci)" "ci_call_counter (add_record a r ci) = ci_call_counter ci"
      "\<And>c. trackers_of c (add_record a r ci) = trackers_of c ci" "calls_of (add_record a r ci) = calls_of ci"
      "ci_enable_call_trace (add_record a r ci) = ci_enable_call_trace ci" "ci_calls (add_record a r ci) = ci_calls ci"
    by (simp_all add: add_record_def trackers_of_def calls_of_def)
  have "mset (concat (ci_updates (add_record a r ci))) = mset (r # concat (ci_updates ci))"
    using mset_concat_update [OF a] by (simp add: add_record_def)
  then have "totals_ok (concat (ci_updates (add_record a r ci))) tot'" using tot' totals_ok_mset by blast
  then show ?thesis using ok unfolding ci_ok_def updates_ok_def e by simp
qed

text \<open>The state after the record of an update.\<close>

definition with_record :: "call_info \<Rightarrow> nat \<Rightarrow> index_record \<Rightarrow> (bytes, int) dict \<Rightarrow> runner \<Rightarrow> runner" where
  "with_record ci a r tot s = s\<lparr>r_updated_tokens_totals := tot, r_call_info := Some (add_record a r ci)\<rparr>"

lemma with_record_kept:
  assumes inv: "run_inv s" and ci: "r_call_info s = Some ci" and a: "a < length (ci_updates ci)"
    and tot: "tot = (if is_token_record r then add_total (update_uid r) (update_amount r) (r_updated_tokens_totals s)
                     else r_updated_tokens_totals s)"
  shows "run_inv (with_record ci a r tot s)" "isolated s (with_record ci a r tot s)"
    "moved (\<lambda>u. if is_token_record r \<and> u = update_uid r then - update_amount r else 0) s (with_record ci a r tot s)"
proof -
  have ok: "ci_ok (r_storages s) (r_updated_tokens_totals s) ci" using inv ci by (simp add: run_inv_def)
  then have "totals_ok (concat (ci_updates ci)) (r_updated_tokens_totals s)" by (simp add: ci_ok_def)
  then have "totals_ok (r # concat (ci_updates ci)) tot" using tot by (simp add: totals_ok_token totals_ok_other)
  from ci_ok_add_record [OF ok a this] show "run_inv (with_record ci a r tot s)"
    by (simp add: run_inv_def with_record_def)
  show "isolated s (with_record ci a r tot s)" by (simp add: isolated_def with_record_def)
  have "layers_of c (with_record ci a r tot s) = layers_of c s" for c
    using ci by (simp add: layers_of_def with_record_def add_record_def trackers_of_def)
  then have "grown s (with_record ci a r tot s)" by (simp add: grown_def)
  then show "moved (\<lambda>u. if is_token_record r \<and> u = update_uid r then - update_amount r else 0) s (with_record ci a r tot s)"
    using ci tot by (simp add: moved_def with_record_def add_record_def stk_def traced_def net_def total_of_add)
qed

lemma update_address:
  assumes "run_inv s" and "stk s = r # rs" and "r_call_info s = Some ci" and "cr_index_updates r = Some a"
  shows "a < length (ci_updates ci)"
  using assms by (auto simp: run_inv_def ci_ok_def updates_ok_def stk_def split: option.splits)

lemma keeps_add_record [keeping]:
  assumes "\<not> is_token_record upd"
  shows "keeps (r # rs) (\<lambda>_. 0) (on_call_info (add_index_update (cr_index_updates r) upd))"
proof (cases "cr_index_updates r")
  case None
  then show ?thesis by (auto intro!: keeps_same simp: add_index_update_def on_call_info_def sm_simps split: option.splits)
next
  case (Some a)
  show ?thesis
  proof (rule keepsI)
    fix s x s'
    assume inv: "run_inv s" and K: "stk s = r # rs"
      and run: "on_call_info (add_index_update (cr_index_updates r) upd) s = (x, s')"
    obtain ci where ci: "r_call_info s = Some ci" using inv unfolding run_inv_def by blast
    have "s' = with_record ci a upd (r_updated_tokens_totals s) s"
      using run by (simp add: on_call_info_def ci add_index_update_def Some sm_simps with_record_def add_record_def)
    then show "live s' \<and> isolated s s' \<and> (\<forall>y. x = Inr y \<longrightarrow> run_inv s' \<and> moved (\<lambda>_. 0) s s')"
      using with_record_kept [OF inv ci update_address [OF inv K ci Some], of "r_updated_tokens_totals s" upd] assms
        run_inv_live by simp
  qed
qed

lemma keeps_totals_record:
  assumes rec: "is_token_record upd" and up: "cr_index_updates r = Some a"
  shows "keeps (r # rs) (\<lambda>u. if u = update_uid upd then - update_amount upd else 0)
     (sthen (smod (\<lambda>s. s\<lparr>r_updated_tokens_totals :=
                 add_total (update_uid upd) (update_amount upd) (r_updated_tokens_totals s)\<rparr>))
        (on_call_info (add_index_update (Some a) upd)))" (is "keeps _ ?d ?m")
proof (rule keepsI)
  fix s x s'
  assume inv: "run_inv s" and K: "stk s = r # rs" and run: "?m s = (x, s')"
  obtain ci where ci: "r_call_info s = Some ci" using inv unfolding run_inv_def by blast
  let ?tot = "add_total (update_uid upd) (update_amount upd) (r_updated_tokens_totals s)"
  have "s' = with_record ci a upd ?tot s"
    using run by (simp add: on_call_info_def ci add_index_update_def sm_simps with_record_def add_record_def)
  then show "live s' \<and> isolated s s' \<and> (\<forall>y. x = Inr y \<longrightarrow> run_inv s' \<and> moved ?d s s')"
    using with_record_kept [OF inv ci update_address [OF inv K ci up], of ?tot upd] rec run_inv_live by simp
qed

lemma keeps_update_tokens_amount:
  assumes "\<forall>upd \<in> set records. is_token_record upd"
  shows "keeps (r # rs) (\<lambda>_. 0) (update_tokens_amount env records)"
proof -
  have one: "keeps (r # rs) (\<lambda>_. 0) (sthen (on_current_tracker (m_add_balance (chain_methods (ne_runtime env)) (update_uid upd) (update_amount upd)))
          (sthen (smod (\<lambda>s. s\<lparr>r_updated_tokens_totals :=
                     add_total (update_uid upd) (update_amount upd) (r_updated_tokens_totals s)\<rparr>))
             (on_call_info (add_index_update (cr_index_updates r) upd))))"
    if "upd \<in> set records" "cr_index_updates r = Some a" for upd a
    unfolding that(2)
    by (rule keeps_eq [OF keeps_sthen [OF keeps_current_tracker [OF on_newest_methods(3)] keeps_totals_record [OF _ that(2)]]])
      (use assms that in auto)
  have "keeps (r # rs) (\<lambda>_. 0) (sthen (sassert (cr_index_updates r \<noteq> None)) (sfor records (\<lambda>upd.
      sthen (on_current_tracker (m_add_balance (chain_methods (ne_runtime env)) (update_uid upd) (update_amount upd)))
          (sthen (smod (\<lambda>s. s\<lparr>r_updated_tokens_totals :=
                     add_total (update_uid upd) (update_amount upd) (r_updated_tokens_totals s)\<rparr>))
             (on_call_info (add_index_update (cr_index_updates r) upd))))))"
  proof (cases "cr_index_updates r")
    case None
    then show ?thesis by (intro keeps_same) (simp add: sm_simps)
  next
    case (Some a)
    have "keeps (r # rs) (\<lambda>u. \<Sum>x\<leftarrow>records. 0) (sfor records (\<lambda>upd.
      sthen (on_current_tracker (m_add_balance (chain_methods (ne_runtime env)) (update_uid upd) (update_amount upd)))
          (sthen (smod (\<lambda>s. s\<lparr>r_updated_tokens_totals :=
                     add_total (update_uid upd) (update_amount upd) (r_updated_tokens_totals s)\<rparr>))
             (on_call_info (add_index_update (cr_index_updates r) upd)))))"
      by (rule keeps_sfor) (rule one [OF _ Some])
    then show ?thesis by (intro keeps_seq(1) [OF keeps_pure(4)]) simp
  qed
  from keeps_seq(1) [OF keeps_assert_current_tracker this]
  have "keeps (r # rs) (\<lambda>_. 0) (sthen (sassert (records \<noteq> [])) (sthen assert_current_tracker
      (sthen (sassert (cr_index_updates r \<noteq> None)) (sfor records (\<lambda>upd.
      sthen (on_current_tracker (m_add_balance (chain_methods (ne_runtime env)) (update_uid upd) (update_amount upd)))
          (sthen (smod (\<lambda>s. s\<lparr>r_updated_tokens_totals :=
                     add_total (update_uid upd) (update_amount upd) (r_updated_tokens_totals s)\<rparr>))
             (on_call_info (add_index_update (cr_index_updates r) upd))))))))"
    by (rule keeps_seq(1) [OF keeps_pure(4)])
  then show ?thesis
    unfolding update_tokens_amount_def by (intro keeps_current keeps_seq(2) [OF keeps_plain_current(4)])
qed

lemma keeps_update_balance [keeping]:
  "keeps (r # rs) (\<lambda>_. 0) (update_tokens_amount env [UpdateTokenBalanceRecord t n])"
  "keeps (r # rs) (\<lambda>_. 0) (update_tokens_amount env [UpdateTokenBalanceRecord t n, UpdateTokenBalanceRecord t' n'])"
  by (rule keeps_update_tokens_amount; simp add: is_token_record_def)+

section \<open>The system calls\<close>

lemma keeps_sof_bind [keeping]:
  "(\<And>x. y = Inr x \<Longrightarrow> keeps K d (f x)) \<Longrightarrow> keeps K d (sbind (sof y) f)"
proof (cases y)
  case (Inl e)
  then have e: "sbind (sof y) f = sraise e" by (simp add: fun_eq_iff sof_def sm_simps)
  have "keeps K d (sraise e)" for d by (auto intro!: keepsI simp: sm_simps run_inv_live)
  then show ?thesis unfolding e .
next
  case (Inr x)
  assume "\<And>x. y = Inr x \<Longrightarrow> keeps K d (f x)"
  then have "keeps K d (f x)" using Inr by blast
  moreover have "sbind (sof y) f = f x" using Inr by (simp add: fun_eq_iff sof_def sm_simps)
  ultimately show ?thesis by simp
qed

lemma keeps_syscall_revoke [keeping]: "keeps (r # rs) (\<lambda>_. 0) (syscall_revoke_authorities env t a b)"
  unfolding syscall_revoke_authorities_def
  by (intro keeps_current keeps_sof_bind keeps_seq keeping newest)
    (auto simp: new_record_def is_token_record_def split: if_splits)

lemma keeps_syscall_mint [keeping]: "keeps (r # rs) (\<lambda>_. 0) (syscall_mint_tokens env t n f)"
  unfolding syscall_mint_tokens_def by (intro keeps_current keeps_seq keeping newest)

lemma keeps_syscall_melt [keeping]: "keeps (r # rs) (\<lambda>_. 0) (syscall_melt_tokens env t n f)"
  unfolding syscall_melt_tokens_def
  by (intro keeps_current keeps_seq keeping newest) (auto intro: keeping split: token_version.splits)

lemma keeps_runner_create_token [keeping]: "keeps (r # rs) (\<lambda>_. 0) (runner_create_token env v t n f symb name)"
  unfolding runner_create_token_def
  by (intro keeps_sof_bind keeps_seq keeps_pure keeps_update_tokens_amount)
    (auto simp: new_record_def is_token_record_def split: if_splits)

lemma keeps_create_child_token [keeping]: "keeps (r # rs) (\<lambda>_. 0) (create_child_token env v salt name symb n a b f)"
  unfolding create_child_token_def by (intro keeps_current_id(1) keeps_seq keeping newest)

lemma keeps_syscall_create_tokens [keeping]:
  "keeps (r # rs) (\<lambda>_. 0) (syscall_create_child_deposit_token env salt name symb n a b)"
  "keeps (r # rs) (\<lambda>_. 0) (syscall_create_child_fee_token env salt name symb n a b f)"
  unfolding syscall_create_child_deposit_token_def syscall_create_child_fee_token_def by (rule keeping)+

lemma keeps_emit_event [keeping]: "keeps (r # rs) (\<lambda>_. 0) (syscall_emit_event data)"
  unfolding syscall_emit_event_def
  by (intro keeps_seq keeping keeps_quiet) (auto simp: quiet_def split: prod.splits)

lemma keeps_change_blueprint [keeping]: "keeps (r # rs) (\<lambda>_. 0) (syscall_change_blueprint env bp)"
  unfolding syscall_change_blueprint_def by (intro keeps_current keeps_seq keeping newest)

lemma keeps_get_rng [keeping]: "keeps (r # rs) (\<lambda>_. 0) (syscall_get_rng env)"
  unfolding syscall_get_rng_def
  by (intro keeps_seq keeping) (auto intro!: keeps_seq keeping split: option.splits prod.splits sum.splits)

lemma keeps_rng_randbytes [keeping]: "keeps (r # rs) (\<lambda>_. 0) (rng_randbytes env n)"
  unfolding rng_randbytes_def
  by (intro keeps_seq keeping) (auto intro!: keeps_seq keeping split: option.splits prod.splits sum.splits)

lemma keeps_own_storage [keeping]: "on_newest \<delta> f \<Longrightarrow> keeps (r # rs) \<delta> (on_own_storage f)"
  unfolding on_own_storage_def by (intro keeps_current keeps_own)

lemma keeps_own_cache [keeping]: "keeps (r # rs) (\<lambda>_. 0) (on_own_cache f)"
  unfolding on_own_cache_def
  by (intro keeps_current keeps_quiet) (auto simp: quiet_def split: prod.splits)

lemma keeps_pay_fees [keeping]: "keeps (r # rs) (\<lambda>_. 0) (pay_fees env fees)"
  unfolding pay_fees_def by (intro keeps_sfor0 keeps_seq keeping)

lemma keeps_sum_of_fees [keeping]: "keeps K (\<lambda>_. 0) (sum_of_fees fees)"
  by (induction fees) (auto intro!: keeps_seq keeping)

lemma keeps_expected_fee [keeping]: "keeps (r # rs) (\<lambda>_. 0) (expected_fee env items)"
  by (induction items) (auto intro!: keeps_seq keeping)

lemma keeps_validate_actions_fees [keeping]: "keeps (r # rs) (\<lambda>_. 0) (validate_actions_fees env grouped fees)"
  unfolding validate_actions_fees_def by (intro keeps_sfor0 keeps_seq keeping)

lemma keeps_proxy_target [keeping]: "keeps (r # rs) (\<lambda>_. 0) (proxy_target env bp)"
  unfolding proxy_target_def by (intro keeps_seq keeping)

lemma keeps_uninitialized [keeping]: "keeps K (\<lambda>_. 0) (uninitialized_fields env r fs)"
  by (induction fs) (auto simp: field_is_initialized_def intro!: keeps_seq keeping)

lemma keeps_check_all_field_initialized [keeping]: "keeps K (\<lambda>_. 0) (check_all_field_initialized env r bp)"
  unfolding check_all_field_initialized_def by (intro keeps_seq keeping)

lemma keeps_handle_index_update [keeping]: "keeps (r # rs) (\<lambda>_. 0) (handle_index_update a)"
  unfolding handle_index_update_def
  by (cases a) (auto intro!: keeps_current keeps_sof_bind keeps_seq(1) keeps_pure keeps_add_record
      simp: new_record_def is_token_record_def split: if_splits)

lemma keeps_metered_call [keeping]: "keeps K \<delta> m \<Longrightarrow> keeps K \<delta> (metered_call m)"
  unfolding keeps_def metered_call_def by (auto split: prod.splits sum.splits)

lemma keeps_validate_reentrancy [keeping]: "keeps K (\<lambda>_. 0) (validate_reentrancy c m)"
  unfolding validate_reentrancy_def by (intro keeps_seq keeping) (auto intro: keeping)

end
