(* ===== verification/Call_Keeps.thy ===== *)
theory Call_Keeps
  imports Syscall_Keeps
begin

text \<open>
  Calls of methods keep the invariant: what opening and closing a call do to the state, that a public call moves
  into the called contract what its context says and nothing else, and the same for all code.
\<close>

section \<open>From one state\<close>

definition safe :: "runner \<Rightarrow> ('a \<Rightarrow> runner \<Rightarrow> bool) \<Rightarrow> (runner, 'a) sm \<Rightarrow> bool" where
  "safe s Q m \<longleftrightarrow> (\<forall>r s'. m s = (r, s') \<longrightarrow> live s' \<and> isolated s s' \<and> (\<forall>x. r = Inr x \<longrightarrow> Q x s'))"

lemma safeD:
  assumes "safe s Q m" and "m s = (r, s')"
  shows "live s'" "isolated s s'" "r = Inr x \<Longrightarrow> Q x s'"
  using assms unfolding safe_def by blast+

lemma keeps_safe: "keeps K \<delta> m \<longleftrightarrow> (\<forall>s. run_inv s \<longrightarrow> stk s = K \<longrightarrow> safe s (\<lambda>_ s'. run_inv s' \<and> moved \<delta> s s') m)"
  unfolding keeps_def safe_def by blast

lemma safe_sbind:
  assumes "safe s Q m" and "\<And>x s1. Q x s1 \<Longrightarrow> safe s1 R (f x)"
  shows "safe s R (sbind m f)"
  unfolding safe_def
proof (intro allI impI)
  fix r s'
  assume run: "sbind m f s = (r, s')"
  obtain r1 s1 where m: "m s = (r1, s1)" by fastforce
  note 1 = safeD [OF assms(1) m]
  show "live s' \<and> isolated s s' \<and> (\<forall>x. r = Inr x \<longrightarrow> R x s')"
  proof (cases r1)
    case (Inl e)
    then show ?thesis using run m 1 by (auto simp: sm_simps)
  next
    case (Inr x)
    have "f x s1 = (r, s')" using run m Inr by (simp add: sm_simps)
    from safeD [OF assms(2) [OF 1(3) [OF Inr]] this] show ?thesis using 1(2) isolated_trans by blast
  qed
qed

lemma safe_sthen: "safe s Q m \<Longrightarrow> (\<And>x s1. Q x s1 \<Longrightarrow> safe s1 R n) \<Longrightarrow> safe s R (sthen m n)"
  unfolding sthen_def by (rule safe_sbind)

lemma safe_mono: "safe s Q m \<Longrightarrow> (\<And>x s'. Q x s' \<Longrightarrow> R x s') \<Longrightarrow> safe s R m"
  unfolding safe_def by blast

lemma safe_same: "live s \<Longrightarrow> snd (m s) = s \<Longrightarrow> (\<And>x. fst (m s) = Inr x \<Longrightarrow> Q x s) \<Longrightarrow> safe s Q m"
  unfolding safe_def by auto

section \<open>Opening and closing a call\<close>

definition opened :: "call_record \<Rightarrow> runner \<Rightarrow> runner \<Rightarrow> bool" where
  "opened r s s' \<longleftrightarrow>
     run_inv s' \<and> stk s' = r # stk s \<and> traced s' = traced s \<and> r_metered_executor s' = r_metered_executor s \<and>
     (\<forall>u. net s' u = net s u) \<and> cr_tracker r = length (layers_of (cr_contract_id r) s) \<and>
     (\<forall>d. length (layers_of d s') = length (layers_of d s) + (if d = cr_contract_id r then 1 else 0))"

definition closed :: "call_record \<Rightarrow> runner \<Rightarrow> runner \<Rightarrow> bool" where
  "closed r s s' \<longleftrightarrow>
     run_inv s' \<and> stk s = r # stk s' \<and> traced s' = traced s \<and> r_metered_executor s' = r_metered_executor s \<and>
     (\<forall>u. net s' u = net s u) \<and>
     (\<forall>d. length (layers_of d s') = (if d = cr_contract_id r then max 1 (cr_tracker r) else length (layers_of d s)))"

lemma bracket_moved:
  assumes o: "opened r s s1" and m: "moved \<delta> s1 s2" and c: "closed r s2 s3"
  shows "moved \<delta> s s3"
proof -
  have "grown s s3"
    unfolding grown_def
  proof
    fix d
    have g: "if layers_of d s1 = [] then length (layers_of d s2) \<le> 1 else length (layers_of d s2) = length (layers_of d s1)"
      using m unfolding moved_def grown_def by blast
    have l1: "length (layers_of d s1) = length (layers_of d s) + (if d = cr_contract_id r then 1 else 0)"
      and n: "cr_tracker r = length (layers_of (cr_contract_id r) s)" using o unfolding opened_def by blast+
    have l3: "length (layers_of d s3) = (if d = cr_contract_id r then max 1 (cr_tracker r) else length (layers_of d s2))"
      using c unfolding closed_def by blast
    show "if layers_of d s = [] then length (layers_of d s3) \<le> 1 else length (layers_of d s3) = length (layers_of d s)"
    proof (cases "d = cr_contract_id r")
      case True
      then show ?thesis using l3 n by (cases "layers_of d s") auto
    next
      case False
      then have "layers_of d s1 = [] \<longleftrightarrow> layers_of d s = []" using l1 by (metis add_0_right length_0_conv)
      then show ?thesis using False g l1 l3 by (cases "layers_of d s = []") simp_all
    qed
  qed
  then show ?thesis using o m c by (auto simp: moved_def opened_def closed_def)
qed

lemma safe_bracket:
  assumes o: "safe s (\<lambda>y. opened (q y) s) op"
    and body: "\<And>y. keeps (q y # stk s) \<delta> (body y)"
    and cl: "\<And>y v s2. run_inv s2 \<Longrightarrow> stk s2 = q y # stk s \<Longrightarrow> safe s2 (\<lambda>_. closed (q y) s2) (close y v)"
  shows "safe s (\<lambda>_ s'. run_inv s' \<and> moved \<delta> s s' \<and> (\<exists>y. layers_of (cr_contract_id (q y)) s' \<noteq> []))
     (sbind op (\<lambda>y. sbind (body y) (close y)))"
proof (rule safe_sbind [OF o])
  fix y s1
  assume op: "opened (q y) s s1"
  then have inv: "run_inv s1" and K: "stk s1 = q y # stk s" by (simp_all add: opened_def)
  have "safe s1 (\<lambda>_ s'. run_inv s' \<and> moved \<delta> s1 s') (body y)" using body inv K unfolding keeps_safe by blast
  then show "safe s1 (\<lambda>_ s'. run_inv s' \<and> moved \<delta> s s' \<and> (\<exists>y. layers_of (cr_contract_id (q y)) s' \<noteq> [])) (sbind (body y) (close y))"
  proof (rule safe_sbind)
    fix v s2
    assume 2: "run_inv s2 \<and> moved \<delta> s1 s2"
    then have "stk s2 = q y # stk s" using K by (simp add: moved_def)
    with 2 have "safe s2 (\<lambda>_. closed (q y) s2) (close y v)" using cl by blast
    then show "safe s2 (\<lambda>_ s'. run_inv s' \<and> moved \<delta> s s' \<and> (\<exists>y. layers_of (cr_contract_id (q y)) s' \<noteq> [])) (close y v)"
    proof (rule safe_mono)
      fix x s3
      assume c: "closed (q y) s2 s3"
      then have "length (layers_of (cr_contract_id (q y)) s3) = max 1 (cr_tracker (q y))" by (simp add: closed_def)
      then have "layers_of (cr_contract_id (q y)) s3 \<noteq> []" by auto
      then show "run_inv s3 \<and> moved \<delta> s s3 \<and> (\<exists>y. layers_of (cr_contract_id (q y)) s3 \<noteq> [])"
        using op 2 c bracket_moved by (auto simp: closed_def)
    qed
  qed
qed

text \<open>Opening.\<close>

lemma stack_ok_new: "stack_ok n rs \<Longrightarrow> n c = 0 \<Longrightarrow> stack_ok (n(c := 1)) rs"
proof (induction rs arbitrary: n)
  case (Cons r rs)
  then have ne: "cr_contract_id r \<noteq> c" by auto
  have "stack_ok (n(cr_contract_id r := max 1 (cr_tracker r))) rs" using Cons.prems(1) by simp
  moreover have "(n(cr_contract_id r := max 1 (cr_tracker r))) c = 0" using Cons.prems(2) ne by simp
  ultimately have "stack_ok ((n(cr_contract_id r := max 1 (cr_tracker r)))(c := 1)) rs" by (rule Cons.IH)
  then have "stack_ok ((n(c := 1))(cr_contract_id r := max 1 (cr_tracker r))) rs"
    unfolding fun_upd_twist [OF ne, of n "max 1 (cr_tracker r)" 1] .
  moreover have "(n(c := 1)) (cr_contract_id r) = Suc (cr_tracker r)" using Cons.prems(1) ne by simp
  ultimately show ?case unfolding stack_ok.simps by blast
qed simp

lemma stack_ok_push:
  assumes "stack_ok n rs" and "cr_tracker r = n (cr_contract_id r)"
  shows "stack_ok (n(cr_contract_id r := Suc (cr_tracker r))) (r # rs)"
proof (cases "cr_tracker r")
  case 0
  then show ?thesis using assms stack_ok_new [OF assms(1), of "cr_contract_id r"] by simp
next
  case (Suc k)
  then have "n(cr_contract_id r := Suc k) = n" using assms(2) by (simp add: fun_eq_iff)
  then show ?thesis using assms Suc by simp
qed

definition with_call :: "call_record \<Rightarrow> index_record list list \<Rightarrow> call_info \<Rightarrow> call_info" where
  "with_call r ups ci = ci\<lparr>
     ci_updates := ups,
     ci_calls := (if ci_enable_call_trace ci then Some (calls_of ci @ [r]) else ci_calls ci),
     ci_trackers := dict_put (cr_contract_id r) (new_tracker (cr_contract_id r) # trackers_of (cr_contract_id r) ci) (ci_trackers ci),
     ci_call_counter := ci_call_counter ci + 1,
     ci_stack := r # ci_stack ci,
     ci_logger := log_call_begin r (ci_logger ci)\<rparr>"

definition fits :: "call_record \<Rightarrow> index_record list list \<Rightarrow> call_info \<Rightarrow> bool" where
  "fits r ups ci \<longleftrightarrow>
     cr_tracker r = length (trackers_of (cr_contract_id r) ci) \<and>
     (cr_index_updates r = None \<and> cr_type r = VIEW \<and> ups = ci_updates ci \<or>
      cr_index_updates r = Some (length (ci_updates ci)) \<and> ups = ci_updates ci @ [[]])"

lemma with_call_updates_ok:
  assumes "updates_ok ci" and "fits r ups ci"
  shows "updates_ok (with_call r ups ci)"
proof -
  have e: "ci_updates (with_call r ups ci) = ups" "ci_stack (with_call r ups ci) = r # ci_stack ci"
      "ci_enable_call_trace (with_call r ups ci) = ci_enable_call_trace ci"
      "ci_enable_call_trace ci \<Longrightarrow> calls_of (with_call r ups ci) = calls_of ci @ [r]"
      "ci_enable_call_trace ci \<Longrightarrow> ci_calls (with_call r ups ci) \<noteq> None"
    by (simp_all add: with_call_def calls_of_def)
  have len: "length ups = length (ci_updates ci) + (if cr_index_updates r = None then 0 else 1)"
    using assms(2) by (auto simp: fits_def)
  have 1: "\<forall>q \<in> set (r # ci_stack ci). case cr_index_updates q of None \<Rightarrow> cr_type q = VIEW | Some a \<Rightarrow> a < length ups"
  proof
    fix q
    assume "q \<in> set (r # ci_stack ci)"
    then consider "q = r" | "q \<in> set (ci_stack ci)" by auto
    then show "case cr_index_updates q of None \<Rightarrow> cr_type q = VIEW | Some a \<Rightarrow> a < length ups"
    proof cases
      case 1
      then show ?thesis using assms(2) by (auto simp: fits_def)
    next
      case 2
      then have "case cr_index_updates q of None \<Rightarrow> cr_type q = VIEW | Some a \<Rightarrow> a < length (ci_updates ci)"
        using assms(1) unfolding updates_ok_def by blast
      then show ?thesis using len by (auto split: option.splits)
    qed
  qed
  show ?thesis
    unfolding updates_ok_def e(1-3)
    using 1 e(4,5) assms by (auto simp: updates_ok_def fits_def)
qed

lemma good_new_tracker: "good_tracker c (new_tracker c)"
  by (simp add: good_tracker_def new_tracker_def tracker_wf_def)

lemma trackers_good:
  assumes "trackers_ok st (ci_trackers ci)"
  shows "\<forall>t \<in> set (trackers_of c ci). good_tracker c t"
  using trackers_okD(3) [OF assms] by (cases "dict_get (ci_trackers ci) c") (auto simp: trackers_of_def)

lemma with_call_ok:
  assumes ok: "ci_ok st tot ci" and fit: "fits r ups ci" and has: "dict_has st (cr_contract_id r)"
    and "length (ci_stack ci) < MAX_RECURSION_DEPTH" and "ci_call_counter ci < MAX_CALL_COUNTER"
  shows "ci_ok st tot (with_call r ups ci)"
proof -
  have tok: "trackers_ok st (ci_trackers ci)" and st: "stack_ok (\<lambda>c. length (trackers_of c ci)) (ci_stack ci)"
      and up: "updates_ok ci" and tot: "totals_ok (concat (ci_updates ci)) tot"
    using ok by (simp_all add: ci_ok_def)
  have "trackers_ok st (ci_trackers (with_call r ups ci))"
    using trackers_ok_put [OF tok _ has, of "new_tracker (cr_contract_id r) # trackers_of (cr_contract_id r) ci"]
      good_new_tracker trackers_good [OF tok] by (simp add: with_call_def)
  moreover have "(\<lambda>c. length (trackers_of c (with_call r ups ci))) =
      (\<lambda>c. length (trackers_of c ci))(cr_contract_id r := Suc (cr_tracker r))"
    using fit by (auto simp: with_call_def trackers_of_def fits_def fun_eq_iff)
  then have "stack_ok (\<lambda>c. length (trackers_of c (with_call r ups ci))) (ci_stack (with_call r ups ci))"
    using stack_ok_push [OF st, of r] fit by (simp add: with_call_def fits_def)
  moreover have "concat ups = concat (ci_updates ci)" using fit by (auto simp: fits_def)
  then have "totals_ok (concat (ci_updates (with_call r ups ci))) tot" using tot by (simp add: with_call_def)
  ultimately show ?thesis
    using with_call_updates_ok [OF up fit] assms(4,5) by (simp add: ci_ok_def with_call_def)
qed

lemma with_call_opened:
  assumes inv: "run_inv s" and ci: "r_call_info s = Some ci" and fit: "fits r ups ci"
    and has: "dict_has (r_storages s) (cr_contract_id r)"
    and lim: "length (ci_stack ci) < MAX_RECURSION_DEPTH" "ci_call_counter ci < MAX_CALL_COUNTER"
  shows "opened r s (s\<lparr>r_call_info := Some (with_call r ups ci)\<rparr>)" (is "opened r s ?s")
proof -
  have ok: "ci_ok (r_storages s) (r_updated_tokens_totals s) ci" using inv ci by (simp add: run_inv_def)
  then have d: "distinct (map fst (ci_trackers ci))" by (simp add: ci_ok_def trackers_ok_def)
  have inv': "run_inv ?s" using with_call_ok [OF ok fit has lim] by (simp add: run_inv_def)
  have "tracked (ci_trackers (with_call r ups ci)) u = tracked (ci_trackers ci) u" for u
    by (simp add: with_call_def tracked_put [OF d] trackers_of_def new_tracker_def balance_diff_of_def split: option.splits)
  then have "net ?s u = net s u" for u using ci by (simp add: net_def)
  moreover have "length (layers_of d ?s) = length (layers_of d s) + (if d = cr_contract_id r then 1 else 0)" for d
    using ci by (simp add: layers_of_def with_call_def trackers_of_def)
  moreover have "cr_tracker r = length (layers_of (cr_contract_id r) s)" using fit ci by (simp add: fits_def layers_of_def)
  ultimately show ?thesis
    unfolding opened_def using inv' ci by (simp add: stk_def traced_def with_call_def)
qed

text \<open>The two ways a call is opened.\<close>

lemma pre_call_result:
  "pre_call r (new_tracker (cr_contract_id r)) ci =
     (if \<not> length (ci_stack ci) < MAX_RECURSION_DEPTH then (Inl NCRecursionError, ci)
      else if \<not> ci_call_counter ci < MAX_CALL_COUNTER then (Inl NCNumberOfCallsExceeded, ci)
      else (Inr (), with_call r (ci_updates ci) ci))"
  by (simp add: pre_call_def sm_simps with_call_def calls_of_def)

lemma with_call_new_updates:
  "with_call r (ci_updates (ci\<lparr>ci_updates := ups\<rparr>)) (ci\<lparr>ci_updates := ups\<rparr>) = with_call r ups ci"
  by (simp add: with_call_def calls_of_def trackers_of_def)

definition open_public :: "(nat \<Rightarrow> call_record) \<Rightarrow> bytes \<Rightarrow> (runner, nat) sm" where
  "open_public q c =
     sbind (on_call_info new_updates) (\<lambda>a. sthen (on_call_info (pre_call (q a) (new_tracker c))) (sret a))"

lemma live_with_updates:
  "run_inv s \<Longrightarrow> r_call_info s = Some ci \<Longrightarrow> live (s\<lparr>r_call_info := Some (ci\<lparr>ci_updates := ups\<rparr>)\<rparr>)"
  using run_inv_live [of s] by (simp add: live_def)

lemma safe_open_public:
  assumes inv: "run_inv s" and n: "n = length (layers_of c s)" and has: "dict_has (r_storages s) c"
    and q: "\<And>a. cr_contract_id (q a) = c \<and> cr_tracker (q a) = n \<and> cr_index_updates (q a) = Some a"
  shows "safe s (\<lambda>a. opened (q a) s) (open_public q c)"
proof -
  obtain ci where ci: "r_call_info s = Some ci" using inv unfolding run_inv_def by blast
  let ?a = "length (ci_updates ci)" and ?ups = "ci_updates ci @ [[]]"
  let ?lim = "length (ci_stack ci) < MAX_RECURSION_DEPTH \<and> ci_call_counter ci < MAX_CALL_COUNTER"
  let ?s = "s\<lparr>r_call_info := Some (with_call (q ?a) ?ups ci)\<rparr>"
  have fit: "fits (q ?a) ?ups ci" using q [of ?a] n ci by (simp add: fits_def layers_of_def)
  have "opened (q ?a) s ?s" if ?lim
    using with_call_opened [OF inv ci fit] has q [of ?a] that by simp
  moreover have "\<exists>e. open_public q c s =
      (if ?lim then (Inr ?a, ?s) else (Inl e, s\<lparr>r_call_info := Some (ci\<lparr>ci_updates := ?ups\<rparr>)\<rparr>))"
    using pre_call_result [of "q ?a" "ci\<lparr>ci_updates := ?ups\<rparr>"] with_call_new_updates [where r = "q ?a" and ci = ci and ups = ?ups] q [of ?a]
    by (simp add: open_public_def on_call_info_def ci new_updates_def sm_simps)
  then obtain e where "open_public q c s =
      (if ?lim then (Inr ?a, ?s) else (Inl e, s\<lparr>r_call_info := Some (ci\<lparr>ci_updates := ?ups\<rparr>)\<rparr>))" by blast
  ultimately show ?thesis
    unfolding safe_def using live_with_updates [OF inv ci] run_inv_live
    by (auto simp: isolated_def opened_def split: if_splits)
qed

lemma safe_open_view:
  assumes inv: "run_inv s" and n: "n = length (layers_of c s)" and has: "dict_has (r_storages s) c"
    and r: "cr_contract_id r = c" "cr_tracker r = n" "cr_index_updates r = None" "cr_type r = VIEW"
  shows "safe s (\<lambda>_. opened r s) (on_call_info (pre_call r (new_tracker c)))"
proof -
  obtain ci where ci: "r_call_info s = Some ci" using inv unfolding run_inv_def by blast
  let ?lim = "length (ci_stack ci) < MAX_RECURSION_DEPTH \<and> ci_call_counter ci < MAX_CALL_COUNTER"
  let ?s = "s\<lparr>r_call_info := Some (with_call r (ci_updates ci) ci)\<rparr>"
  have fit: "fits r (ci_updates ci) ci" using r n ci by (simp add: fits_def layers_of_def)
  have "opened r s ?s" if ?lim
    using with_call_opened [OF inv ci fit] has r(1) that by simp
  moreover have "s\<lparr>r_call_info := Some ci\<rparr> = s" using ci by simp
  then have "\<exists>e. on_call_info (pre_call r (new_tracker c)) s = (if ?lim then (Inr (), ?s) else (Inl e, s))"
    using pre_call_result [of r ci] r(1) by (simp add: on_call_info_def ci)
  then obtain e where "on_call_info (pre_call r (new_tracker c)) s = (if ?lim then (Inr (), ?s) else (Inl e, s))" by blast
  ultimately show ?thesis
    unfolding safe_def using run_inv_live [OF inv] run_inv_live
    by (auto simp: isolated_def opened_def split: if_splits)
qed

text \<open>Closing.\<close>

lemma dict_put_put [simp]: "dict_put k v (dict_put k w d) = dict_put k v d"
  by (induction d) auto

definition without_call :: "bytes \<Rightarrow> tracker list \<Rightarrow> call_record list \<Rightarrow> nc_logger \<Rightarrow> call_info \<Rightarrow> call_info" where
  "without_call c ts K l ci = ci\<lparr>ci_stack := K, ci_trackers := dict_put c ts (ci_trackers ci), ci_logger := l\<rparr>"

lemma without_call_ok:
  assumes ok: "ci_ok st tot ci" and stack: "ci_stack ci = r # K" and ts: "ts \<noteq> []" "length ts = max 1 (cr_tracker r)"
    and good: "\<forall>t \<in> set ts. good_tracker (cr_contract_id r) t"
  shows "ci_ok st tot (without_call (cr_contract_id r) ts K l ci)" (is "ci_ok _ _ ?ci")
proof -
  have tok: "trackers_ok st (ci_trackers ci)" and st: "stack_ok (\<lambda>c. length (trackers_of c ci)) (r # K)" and up: "updates_ok ci"
    using ok stack by (simp_all add: ci_ok_def)
  have "trackers_of (cr_contract_id r) ci \<noteq> []" using st by auto
  then obtain x where "dict_get (ci_trackers ci) (cr_contract_id r) = Some x" by (auto simp: trackers_of_def split: option.splits)
  then have "dict_has st (cr_contract_id r)" using trackers_okD(2) [OF tok] by blast
  then have "trackers_ok st (ci_trackers ?ci)"
    using trackers_ok_put [OF tok ts(1) _ good] by (simp add: without_call_def)
  moreover have "(\<lambda>c. length (trackers_of c ?ci)) = (\<lambda>c. length (trackers_of c ci))(cr_contract_id r := max 1 (cr_tracker r))"
    using ts(2) by (auto simp: without_call_def trackers_of_def fun_eq_iff)
  then have "stack_ok (\<lambda>c. length (trackers_of c ?ci)) (ci_stack ?ci)" using st by (simp add: without_call_def)
  moreover have e: "ci_stack ?ci = K" "ci_updates ?ci = ci_updates ci" "calls_of ?ci = calls_of ci"
      "ci_enable_call_trace ?ci = ci_enable_call_trace ci" "ci_call_counter ?ci = ci_call_counter ci"
    by (simp_all add: without_call_def calls_of_def)
  have "ci_calls ?ci = ci_calls ci" by (simp add: without_call_def)
  then have "updates_ok ?ci"
    using up \<open>trackers_of (cr_contract_id r) ci \<noteq> []\<close> unfolding updates_ok_def e stack by (metis insert_iff list.simps(15))
  ultimately show ?thesis using ok stack unfolding ci_ok_def e by simp
qed

lemma without_call_closed:
  assumes inv: "run_inv s" and ci: "r_call_info s = Some ci" and stack: "ci_stack ci = r # K"
    and ts: "ts \<noteq> []" "length ts = max 1 (cr_tracker r)" and good: "\<forall>t \<in> set ts. good_tracker (cr_contract_id r) t"
    and sum: "\<And>u. (\<Sum>t\<leftarrow>ts. balance_diff_of t u) = (\<Sum>t\<leftarrow>trackers_of (cr_contract_id r) ci. balance_diff_of t u)"
  shows "closed r s (s\<lparr>r_call_info := Some (without_call (cr_contract_id r) ts K l ci)\<rparr>)" (is "closed r s ?s")
proof -
  have ok: "ci_ok (r_storages s) (r_updated_tokens_totals s) ci" using inv ci by (simp add: run_inv_def)
  then have d: "distinct (map fst (ci_trackers ci))" by (simp add: ci_ok_def trackers_ok_def)
  have inv': "run_inv ?s" using without_call_ok [OF ok stack ts good] by (simp add: run_inv_def)
  have "tracked (dict_put (cr_contract_id r) ts (ci_trackers ci)) u = tracked (ci_trackers ci) u" for u
    by (simp add: tracked_put [OF d] sum trackers_of_def split: option.splits)
  then have "net ?s u = net s u" for u using ci by (simp add: net_def without_call_def)
  moreover have "length (layers_of d ?s) = (if d = cr_contract_id r then max 1 (cr_tracker r) else length (layers_of d s))" for d
    using ci ts(2) by (simp add: layers_of_def without_call_def trackers_of_def)
  ultimately show ?thesis
    unfolding closed_def using inv' ci stack by (simp add: stk_def traced_def without_call_def)
qed

lemma post_call_result:
  assumes "ci_stack ci = r # K" and "dict_get (ci_trackers ci) (cr_contract_id r) = Some (t # ts)"
    and "post_call r ci = (x, ci')"
  shows "ci' = ci\<lparr>ci_stack := K\<rparr> \<and> isl x \<or>
     ci' = without_call (cr_contract_id r) (if ts = [] then [t] else ts) K (log_call_end (ci_logger ci)) ci"
  using assms
  by (auto simp: post_call_def sm_simps without_call_def dict_put_same split: if_splits)

lemma live_popped:
  "live s \<Longrightarrow> r_call_info s = Some ci \<Longrightarrow> ci_stack ci = r # K \<Longrightarrow> live (s\<lparr>r_call_info := Some (ci\<lparr>ci_stack := K\<rparr>)\<rparr>)"
  by (simp add: live_def)

text \<open>The end of a call, from a state that differs in the trackers of the contract only.\<close>

lemma safe_post_call:
  assumes inv: "run_inv s" and ci: "r_call_info s = Some ci" and stack: "ci_stack ci = r # K"
    and s1: "s1 = with_newest ci (cr_contract_id r) (t # ts) s" and un: "\<forall>t \<in> set (t # ts). \<not> ct_blocked t"
    and ts': "ts' = (if ts = [] then [t] else ts)" "length ts' = max 1 (cr_tracker r)"
    and good: "\<forall>t \<in> set ts'. good_tracker (cr_contract_id r) t"
    and sum: "\<And>u. (\<Sum>t\<leftarrow>ts'. balance_diff_of t u) = (\<Sum>t\<leftarrow>trackers_of (cr_contract_id r) ci. balance_diff_of t u)"
  shows "safe s1 (\<lambda>_. closed r s) (on_call_info (post_call r))"
  unfolding safe_def
proof (intro allI impI)
  fix x s'
  assume run: "on_call_info (post_call r) s1 = (x, s')"
  let ?ci = "ci\<lparr>ci_trackers := dict_put (cr_contract_id r) (t # ts) (ci_trackers ci)\<rparr>"
  have ci1: "r_call_info s1 = Some ?ci" by (simp add: s1 with_newest_def)
  obtain ci' where post: "post_call r ?ci = (x, ci')" and s': "s' = s1\<lparr>r_call_info := Some ci'\<rparr>"
    using run by (auto simp: on_call_info_def ci1 split: prod.splits)
  have "unblocked (ci_trackers ci)" using run_inv_live [OF inv] ci by (simp add: live_def)
  then have live1: "live s1"
    using run_inv_live [OF inv] ci unblocked_put [OF _ un] by (simp add: live_def s1 with_newest_def)
  have iso: "isolated s1 s'" by (simp add: isolated_def s')
  have "dict_get (ci_trackers ?ci) (cr_contract_id r) = Some (t # ts)" "ci_stack ?ci = r # K" using stack by simp_all
  from post_call_result [OF this(2,1) post]
  show "live s' \<and> isolated s1 s' \<and> (\<forall>y. x = Inr y \<longrightarrow> closed r s s')"
  proof
    assume "ci' = ?ci\<lparr>ci_stack := K\<rparr> \<and> isl x"
    then show ?thesis using live_popped [OF live1 ci1] stack iso s' by auto
  next
    assume "ci' = without_call (cr_contract_id r) (if ts = [] then [t] else ts) K (log_call_end (ci_logger ?ci)) ?ci"
    then have "s' = s\<lparr>r_call_info := Some (without_call (cr_contract_id r) ts' K (log_call_end (ci_logger ci)) ci)\<rparr>"
      by (simp add: s' s1 with_newest_def without_call_def ts'(1))
    moreover have "ts' \<noteq> []" using ts'(1) by auto
    ultimately have "closed r s s'" using without_call_closed [OF inv ci stack _ ts'(2) good sum] by blast
    then show ?thesis using iso run_inv_live by (simp add: closed_def)
  qed
qed

lemma with_newest_same:
  "r_call_info s = Some ci \<Longrightarrow> trackers_of c ci = t # ts \<Longrightarrow> with_newest ci c (t # ts) s = s"
  using trackers_of_Cons [of c ci t ts] by (simp add: with_newest_def dict_put_same)

lemma call_trackers:
  assumes "run_inv s" and "stk s = r # K"
  shows "\<exists>ci t ts. r_call_info s = Some ci \<and> ci_stack ci = r # K \<and> trackers_of (cr_contract_id r) ci = t # ts \<and>
           cr_tracker r = length ts \<and> (\<forall>x \<in> set (t # ts). good_tracker (cr_contract_id r) x)"
proof -
  obtain ci where ci: "r_call_info s = Some ci" "ci_stack ci = r # K" "ci_ok (r_storages s) (r_updated_tokens_totals s) ci"
    using run_inv_ci [OF assms(1)] assms(2) by auto
  obtain t ts where ts: "trackers_of (cr_contract_id r) ci = t # ts" "cr_tracker r = length ts"
    using own_tracker [OF assms ci(1)] by blast
  have "\<forall>x \<in> set (trackers_of (cr_contract_id r) ci). good_tracker (cr_contract_id r) x"
    using trackers_good ci(3) unfolding ci_ok_def by blast
  then show ?thesis using ci ts by auto
qed

lemma safe_commit:
  assumes inv: "run_inv s" and ci: "r_call_info s = Some ci" and ts: "trackers_of c ci = t # p # ts"
    and n: "n = Suc (Suc (length ts))" and good: "\<forall>x \<in> set (t # p # ts). good_tracker c x"
  shows "safe s (\<lambda>_ s'. \<exists>p'. s' = with_newest ci c (t\<lparr>ct_commited := True\<rparr> # p' # ts) s \<and> tr_step (balance_diff_of t) p p')
           (on_storage c n (ch_commit rt))"
  unfolding safe_def
proof (intro allI impI)
  fix r s'
  assume run: "on_storage c n (ch_commit rt) s = (r, s')"
  have ok: "ci_ok (r_storages s) (r_updated_tokens_totals s) ci" using inv ci by (simp add: run_inv_def)
  then have "dict_has (r_storages s) c" using trackers_okD(2) trackers_of_Cons [OF ts] unfolding ci_ok_def by blast
  then obtain cs where cs: "dict_get (r_storages s) c = Some cs" by (auto simp: dict_has_get)
  let ?ch = "\<lparr>ch_layers = t # p # ts, ch_base = cs, ch_block = r_block s\<rparr>"
  obtain ch' where com: "ch_commit rt ?ch = (r, ch')" and s': "s' = put_chain c [] ch' s"
    using run by (auto simp: on_storage_def cs Let_def layers_of_def ci ts n split: prod.splits)
  have "tracker_wf t" using good by (simp add: good_tracker_def)
  then obtain t' p' where ch': "ch' = ?ch\<lparr>ch_layers := t' # p' # ts\<rparr>" and w: "tr_weak t t'" "tr_weak p p'"
      and ok: "\<And>x. r = Inr x \<Longrightarrow> t' = t\<lparr>ct_commited := True\<rparr> \<and> tr_step (balance_diff_of t) p p'"
    using commit_into_tracker [OF _ com] by auto
  have s'': "s' = with_newest ci c (t' # p' # ts) s"
    by (simp add: s' ch' put_chain_def with_newest_def ci dict_put_same [OF cs])
  have un: "unblocked (ci_trackers ci)" using run_inv_live [OF inv] ci by (simp add: live_def)
  have "\<forall>x \<in> set (t' # p' # ts). \<not> ct_blocked x" using good w by (auto simp: good_tracker_def tr_weak_def)
  then have "live s'"
    using run_inv_live [OF inv] ci unblocked_put [OF un] by (simp add: live_def s'' with_newest_def)
  moreover have "isolated s s'" by (simp add: isolated_def s'' with_newest_def)
  ultimately show "live s' \<and> isolated s s' \<and> (\<forall>x. r = Inr x \<longrightarrow>
      (\<exists>p'. s' = with_newest ci c (t\<lparr>ct_commited := True\<rparr> # p' # ts) s \<and> tr_step (balance_diff_of t) p p'))"
    using s'' ok by blast
qed

definition close_public :: "runtime \<Rightarrow> call_record \<Rightarrow> (runner, unit) sm" where
  "close_public rt r =
     sbind (on_call_info (sget (\<lambda>ci. length (trackers_of (cr_contract_id r) ci)))) (\<lambda>len.
       sthen (if 1 < len then on_storage (cr_contract_id r) (cr_tracker r + 1) (ch_commit rt) else sret ())
         (on_call_info (post_call r)))"

lemma safe_close_public:
  assumes inv: "run_inv s" and K: "stk s = r # K"
  shows "safe s (\<lambda>_. closed r s) (close_public rt r)"
proof -
  obtain ci t ts where ci: "r_call_info s = Some ci" "ci_stack ci = r # K" and ts: "trackers_of (cr_contract_id r) ci = t # ts"
      "cr_tracker r = length ts" and good: "\<forall>x \<in> set (t # ts). good_tracker (cr_contract_id r) x"
    using call_trackers [OF assms] by blast
  have same: "s\<lparr>r_call_info := Some ci\<rparr> = s" using ci by simp
  have len: "close_public rt r s = sthen (if ts \<noteq> [] then on_storage (cr_contract_id r) (cr_tracker r + 1) (ch_commit rt) else sret ())
      (on_call_info (post_call r)) s"
    by (simp add: close_public_def sm_simps on_call_info_def ci ts same)
  have "safe s (\<lambda>_. closed r s) (sthen (if ts \<noteq> [] then on_storage (cr_contract_id r) (cr_tracker r + 1) (ch_commit rt) else sret ())
      (on_call_info (post_call r)))"
  proof (cases ts)
    case Nil
    have "safe s (\<lambda>_. closed r s) (on_call_info (post_call r))"
      by (rule safe_post_call [OF inv ci, of s t ts "[t]"])
        (use ts good Nil with_newest_same [OF ci(1) ts(1)] in \<open>simp_all add: good_tracker_def\<close>)
    then show ?thesis using Nil by (simp add: sthen_def)
  next
    case (Cons p us)
    have 1: "safe s (\<lambda>_ s'. \<exists>p'. s' = with_newest ci (cr_contract_id r) (t\<lparr>ct_commited := True\<rparr> # p' # us) s \<and> tr_step (balance_diff_of t) p p')
        (on_storage (cr_contract_id r) (cr_tracker r + 1) (ch_commit rt))"
      by (rule safe_commit [OF inv ci(1)]) (use ts good Cons in simp_all)
    have "safe s (\<lambda>_. closed r s) (sthen (on_storage (cr_contract_id r) (cr_tracker r + 1) (ch_commit rt)) (on_call_info (post_call r)))"
    proof (rule safe_sthen [OF 1])
      fix x s1
      assume "\<exists>p'. s1 = with_newest ci (cr_contract_id r) (t\<lparr>ct_commited := True\<rparr> # p' # us) s \<and> tr_step (balance_diff_of t) p p'"
      then obtain p' where s1: "s1 = with_newest ci (cr_contract_id r) (t\<lparr>ct_commited := True\<rparr> # p' # us) s" and p': "tr_step (balance_diff_of t) p p'"
        by blast
      have good': "\<forall>x \<in> set (p' # us). good_tracker (cr_contract_id r) x" using good Cons tr_step_good [OF p'] by simp
      show "safe s1 (\<lambda>_. closed r s) (on_call_info (post_call r))"
        by (rule safe_post_call [OF inv ci s1, of "p' # us"])
          (use ts good good' Cons p' in \<open>auto simp: good_tracker_def tr_step_def\<close>)
    qed
    then show ?thesis using Cons by simp
  qed
  then show ?thesis unfolding safe_def len .
qed

definition close_view :: "call_record \<Rightarrow> (runner, unit) sm" where
  "close_view r =
     sbind (on_storage (cr_contract_id r) (cr_tracker r + 1) (\<lambda>ch.
        (case ch_layers ch of [] \<Rightarrow> Inl IndexError | t # _ \<Rightarrow> ct_is_empty t, ch))) (\<lambda>empty.
     sthen (sguard empty NCViewMethodError) (on_call_info (post_call r)))"

lemma safe_close_view:
  assumes inv: "run_inv s" and K: "stk s = r # K"
  shows "safe s (\<lambda>_. closed r s) (close_view r)"
proof -
  obtain ci t ts where ci: "r_call_info s = Some ci" "ci_stack ci = r # K" and ts: "trackers_of (cr_contract_id r) ci = t # ts"
      "cr_tracker r = length ts" and good: "\<forall>x \<in> set (t # ts). good_tracker (cr_contract_id r) x"
    using call_trackers [OF assms] by blast
  have 1: "safe s (\<lambda>_ s'. s' = s \<and> (\<forall>u. balance_diff_of t u = 0)) (on_storage (cr_contract_id r) (cr_tracker r + 1) (\<lambda>ch.
        (case ch_layers ch of [] \<Rightarrow> Inl IndexError | t # _ \<Rightarrow> ct_is_empty t, ch)))"
    by (rule safe_same, rule run_inv_live [OF inv], rule on_storage_read [OF inv])
      (auto simp: on_storage_def Let_def layers_of_def ci ts ct_is_empty_def balance_diff_of_def split: option.splits if_splits)
  show ?thesis
    unfolding close_view_def
  proof (rule safe_sbind [OF 1])
    fix b s1
    assume s1: "s1 = s \<and> (\<forall>u. balance_diff_of t u = 0)"
    have 2: "safe s (\<lambda>_. closed r s) (on_call_info (post_call r))"
      by (rule safe_post_call [OF inv ci, of s t ts "if ts = [] then [t] else ts"])
        (use ts good s1 with_newest_same [OF ci(1) ts(1)] in \<open>auto simp: good_tracker_def max_def Suc_le_eq split: if_splits\<close>)
    have 3: "safe s (\<lambda>_ s'. s' = s) (sguard b NCViewMethodError)"
      by (rule safe_same [OF run_inv_live [OF inv]]) (simp_all add: sm_simps)
    show "safe s1 (\<lambda>_. closed r s) (sthen (sguard b NCViewMethodError) (on_call_info (post_call r)))"
      using s1 safe_sthen [OF 3] 2 by blast
  qed
qed

section \<open>Calls\<close>

text \<open>The object that \<open>tracker_or_storage\<close> gives is there, and still the same when the call is opened.\<close>

definition call_ready :: "runner \<Rightarrow> bytes \<Rightarrow> nat \<Rightarrow> runner \<Rightarrow> bool" where
  "call_ready s c n s' \<longleftrightarrow>
     run_inv s' \<and> moved (\<lambda>_. 0) s s' \<and> dict_has (r_storages s') c \<and> n = length (layers_of c s')"

lemma safe_tracker_or_storage:
  assumes inv: "run_inv s1" and m: "moved (\<lambda>_. 0) s s1"
  shows "safe s1 (\<lambda>n. call_ready s c n) (tracker_or_storage env c)"
proof -
  obtain ci where ci: "r_call_info s1 = Some ci" "ci_ok (r_storages s1) (r_updated_tokens_totals s1) ci"
    using inv unfolding run_inv_def by blast
  have base: "safe s1 (\<lambda>_ s'. run_inv s' \<and> moved (\<lambda>_. 0) s1 s') (tracker_or_storage env c)"
    using keeps_tracker_or_storage inv unfolding keeps_safe by blast
  have "dict_has (r_storages s2) c \<and> n = length (layers_of c s2)"
    if run: "tracker_or_storage env c s1 = (Inr n, s2)" for n s2
  proof (cases "dict_get (ci_trackers ci) c")
    case (Some ts)
    have "dict_has (r_storages s1) c" using trackers_okD(2) [OF _ Some] ci(2) unfolding ci_ok_def by blast
    moreover have "s2 = s1" "n = length ts"
      using run Some by (auto simp: tracker_or_storage_def sm_simps ci split: if_splits)
    ultimately show ?thesis using Some ci(1) by (simp add: layers_of_def trackers_of_def)
  next
    case None
    then have g: "get_storage env c s1 = (Inr (), s2)" "n = 0"
      using run by (auto simp: tracker_or_storage_def sm_simps ci split: prod.splits sum.splits)
    then show ?thesis
      using get_storage_widened(2,3) [OF g(1)] ci(1) None by (simp add: layers_of_def trackers_of_def)
  qed
  moreover have "moved (\<lambda>_. 0) s s2" if "moved (\<lambda>_. 0) s1 s2" for s2 using moved_trans [OF m that] by simp
  ultimately show ?thesis using base unfolding safe_def call_ready_def by blast
qed

lemma call_ready_live: "call_ready s c n s' \<Longrightarrow> live s'"
  by (simp add: call_ready_def run_inv_live)

lemma call_ready_same:
  assumes "call_ready s c n s1" and "\<And>s. snd (m s) = s"
  shows "safe s1 (\<lambda>_. call_ready s c n) m"
  by (rule safe_same) (use assms call_ready_live in auto)

lemma call_ready_quiet:
  assumes re: "call_ready s c n s1" and q: "\<And>ci r ci'. f ci = (r, ci') \<Longrightarrow> quiet ci ci'"
  shows "safe s1 (\<lambda>_. call_ready s c n) (on_call_info f)"
proof -
  have inv: "run_inv s1" using re by (simp add: call_ready_def)
  have "keeps (stk s1) (\<lambda>_. 0) (on_call_info f)" by (rule keeps_quiet) (rule q)
  then have "safe s1 (\<lambda>_ s'. run_inv s' \<and> moved (\<lambda>_. 0) s1 s') (on_call_info f)"
    using inv unfolding keeps_safe by blast
  moreover have "r_storages s2 = r_storages s1 \<and> layers_of c s2 = layers_of c s1"
    if "on_call_info f s1 = (x, s2)" for x s2
    using that q by (fastforce simp: on_call_info_def layers_of_def quiet_def trackers_of_def split: option.splits prod.splits)
  moreover have "moved (\<lambda>_. 0) s s2" if "moved (\<lambda>_. 0) s1 s2" for s2
    using re moved_trans [OF _ that, of "\<lambda>_. 0" s] by (simp add: call_ready_def)
  ultimately show ?thesis using re unfolding safe_def call_ready_def by metis
qed

lemma call_ready_create_instance:
  assumes "call_ready s c n s1"
  shows "safe s1 (\<lambda>_. call_ready s c n) (create_blueprint_instance env bp)"
  unfolding create_blueprint_instance_def
proof (rule safe_sbind [OF call_ready_quiet [OF assms]])
  fix x s2
  assume "call_ready s c n s2"
  then show "safe s2 (\<lambda>_. call_ready s c n) (case ne_blueprint env bp of None \<Rightarrow> sraise BlueprintDoesNotExist | Some b \<Rightarrow> sret (b, x))"
    by (rule call_ready_same) (auto simp: sm_simps split: option.splits)
qed (auto simp: new_cache_def quiet_def)

lemma call_ready_moved:
  "call_ready s c n s1 \<Longrightarrow> safe s1 (\<lambda>_ s'. run_inv s' \<and> moved \<delta> s1 s' \<and> P s') m \<Longrightarrow>
     safe s1 (\<lambda>_ s'. run_inv s' \<and> moved \<delta> s s' \<and> P s') m"
proof (erule safe_mono)
  fix x s'
  assume "call_ready s c n s1" and s': "run_inv s' \<and> moved \<delta> s1 s' \<and> P s'"
  then have "moved (\<lambda>u. 0 + \<delta> u) s s'" using moved_trans [of "\<lambda>_. 0" s s1 \<delta> s'] by (simp add: call_ready_def)
  then show "run_inv s' \<and> moved \<delta> s s' \<and> P s'" using s' by simp
qed

text \<open>A public call is the opening, the body and the closing.\<close>

definition public_body ::
    "nc_env \<Rightarrow> (nc_value prog \<Rightarrow> (runner, nc_value) sm) \<Rightarrow> call_record \<Rightarrow> bp_method \<Rightarrow> blueprint \<Rightarrow> nc_context \<Rightarrow> bool \<Rightarrow>
     (runner, nc_value) sm" where
  "public_body env run r m blueprint ctx initializing =
     sthen (sof (validate_actions m ctx))
     (sthen (sfor (ctx_all_actions ctx) (\<lambda>action.
         sthen (on_storage (cr_contract_id r) (cr_tracker r + 1) (nc_callee_execution_rule (ne_runtime env) action))
           (handle_index_update action)))
     (sbind (sof (ctx_copy ctx)) (\<lambda>ctx'.
      sbind (metered_call (run (bm_code m (Some ctx') (cr_args r)))) (\<lambda>ret.
      sthen (if initializing then check_all_field_initialized env r blueprint else sret ()) (sret ret)))))"

lemma run_public_call_eq:
  "run_public_call env run r m blueprint ctx initializing =
     sthen (on_call_info (pre_call r (new_tracker (cr_contract_id r))))
       (sbind (public_body env run r m blueprint ctx initializing) (\<lambda>ret.
          sthen (close_public (ne_runtime env) r)
            (sof (validate_return_type_for_method (set_order (ne_runtime env)) (ms_return (bm_sig m)) ret))))"
  by (simp only: run_public_call_def public_body_def close_public_def sthen_def sbind_assoc sbind_sret Let_def)

definition runs_ok :: "(nc_value prog \<Rightarrow> (runner, nc_value) sm) \<Rightarrow> bool" where
  "runs_ok run \<longleftrightarrow> (\<forall>r rs p. keeps (r # rs) (\<lambda>_. 0) (run p))"

definition deltas :: "nc_action list \<Rightarrow> bytes \<Rightarrow> int" where
  "deltas actions u = (\<Sum>a\<leftarrow>actions. action_delta a u)"

lemma keeps_callee_actions:
  "keeps (r # rs) (deltas actions) (sfor actions (\<lambda>action.
     sthen (on_storage (cr_contract_id r) (cr_tracker r + 1) (nc_callee_execution_rule (ne_runtime env) action))
       (handle_index_update action)))"
proof -
  have 1: "keeps (r # rs) (action_delta a)
      (sthen (on_storage (cr_contract_id r) (cr_tracker r + 1) (nc_callee_execution_rule (ne_runtime env) a)) (handle_index_update a))" for a
    by (rule keeps_eq [OF keeps_sthen [OF keeps_own [OF on_newest_callee] keeps_handle_index_update]]) simp
  show ?thesis
    by (rule keeps_eq [OF keeps_sfor [where d = action_delta]], rule 1) (simp add: deltas_def)
qed

lemma keeps_public_body:
  assumes "runs_ok run"
  shows "keeps (r # rs) (deltas (ctx_all_actions ctx)) (public_body env run r m blueprint ctx initializing)"
proof -
  have 2: "keeps (r # rs) (\<lambda>_. 0) (metered_call (run p))" for p
    using assms keeps_metered_call unfolding runs_ok_def by blast
  have 3: "keeps (r # rs) (\<lambda>_. 0) (sbind (sof (ctx_copy ctx)) (\<lambda>ctx'.
      sbind (metered_call (run (bm_code m (Some ctx') (cr_args r)))) (\<lambda>ret.
      sthen (if initializing then check_all_field_initialized env r blueprint else sret ()) (sret ret))))"
    by (intro keeps_seq keeps_pure 2) (auto intro: keeping)
  show ?thesis
    unfolding public_body_def
    by (rule keeps_eq [OF keeps_seq(1) [OF keeps_pure(6) keeps_sthen [OF keeps_callee_actions 3]]]) simp
qed

lemma public_call_eq:
  assumes "\<And>a. cr_contract_id (q a) = c \<and> cr_tracker (q a) = n \<and> cr_index_updates (q a) = Some a"
  shows "sbind (on_call_info new_updates) (\<lambda>a. run_public_call env run (q a) m blueprint ctx initializing) =
      sbind (open_public q c) (\<lambda>a. sbind (public_body env run (q a) m blueprint ctx initializing) (\<lambda>ret.
        sthen (close_public (ne_runtime env) (q a))
          (sof (validate_return_type_for_method (set_order (ne_runtime env)) (ms_return (bm_sig m)) ret))))"
  using assms by (simp add: open_public_def run_public_call_eq sthen_def sbind_assoc)

lemma safe_closing:
  assumes "safe s (\<lambda>_. closed r s0) m"
  shows "safe s (\<lambda>_. closed r s0) (sthen m (sof x))"
proof (rule safe_sthen [OF assms])
  fix y s1
  assume "closed r s0 s1"
  then show "safe s1 (\<lambda>_. closed r s0) (sof x)" by (intro safe_same) (auto simp: closed_def run_inv_live sof_def)
qed

lemma safe_run_public:
  assumes re: "call_ready s c n s1" and run: "runs_ok run"
    and q: "\<And>a. cr_contract_id (q a) = c \<and> cr_tracker (q a) = n \<and> cr_index_updates (q a) = Some a"
  shows "safe s1 (\<lambda>_ s'. run_inv s' \<and> moved (deltas (ctx_all_actions ctx)) s s' \<and> layers_of c s' \<noteq> [])
     (sbind (on_call_info new_updates) (\<lambda>a. run_public_call env run (q a) m blueprint ctx initializing))"
proof -
  have inv: "run_inv s1" and n: "n = length (layers_of c s1)" and has: "dict_has (r_storages s1) c"
    using re by (simp_all add: call_ready_def)
  have "safe s1 (\<lambda>_ s'. run_inv s' \<and> moved (deltas (ctx_all_actions ctx)) s1 s' \<and> layers_of c s' \<noteq> [])
      (sbind (open_public q c) (\<lambda>a. sbind (public_body env run (q a) m blueprint ctx initializing) (\<lambda>ret.
        sthen (close_public (ne_runtime env) (q a))
          (sof (validate_return_type_for_method (set_order (ne_runtime env)) (ms_return (bm_sig m)) ret)))))"
    by (rule safe_mono, rule safe_bracket [OF safe_open_public [OF inv n has q] keeps_public_body [OF run]
        safe_closing [OF safe_close_public]]) (use q in auto)
  then show ?thesis unfolding public_call_eq [OF q] by (rule call_ready_moved [OF re])
qed

lemma safe_execute_public:
  assumes "runs_ok run" and inv: "run_inv s"
  shows "safe s (\<lambda>_ s'. run_inv s' \<and> moved (deltas (ctx_all_actions ctx)) s s' \<and> layers_of c s' \<noteq> [])
     (execute_public_method_call env run c bp name ctx nc_args skip forbid)"
proof -
  have same: "safe s (\<lambda>_ s'. s' = s) m" if "snd (m s) = s" for m :: "(runner, 'x) sm"
    by (rule safe_same) (use that run_inv_live [OF inv] in auto)
  have info: "snd (on_call_info (sret ()) s) = s" by (simp add: on_call_info_def sm_simps split: option.splits)
  have main: "safe s (\<lambda>_ s'. run_inv s' \<and> moved (deltas (ctx_all_actions ctx)) s s' \<and> layers_of c s' \<noteq> []) (sbind (tracker_or_storage env c) (\<lambda>n.
      sbind (create_blueprint_instance env bp) (\<lambda>bc.
      sbind (sof (find_public_method env (fst bc) name nc_args forbid)) (\<lambda>found.
      sthen (if skip then sret () else validate_reentrancy c (fst found))
     (sbind (on_call_info (sget (\<lambda>ci. length (ci_stack ci)))) (\<lambda>depth.
      sbind (on_call_info new_updates) (\<lambda>updates.
      run_public_call env run
        \<lparr>cr_type = PUBLIC, cr_depth = depth, cr_contract_id = c, cr_blueprint_id = bp,
         cr_method_name = fst (snd found), cr_ctx = Some ctx, cr_args = snd (snd found), cr_tracker = n,
         cr_index_updates = Some updates, cr_cache = snd bc\<rparr>
        (fst found) (fst bc) ctx (name = NC_INITIALIZE_METHOD))))))))"
    by (rule safe_sbind [OF safe_tracker_or_storage [OF inv moved_refl]],
          erule safe_sbind [OF call_ready_create_instance],
          rule safe_sbind, erule call_ready_same, simp add: sof_def,
          rule safe_sthen, erule call_ready_same, simp add: validate_reentrancy_def on_call_info_def sm_simps split: option.splits,
          rule safe_sbind, erule call_ready_quiet, simp add: sm_simps quiet_def,
          erule safe_run_public [OF _ assms(1)]) simp
  show ?thesis
    unfolding execute_public_method_call_def split_beta
    by (rule safe_sbind, rule same, simp add: sm_simps, simp, rule safe_sthen, rule same, simp add: sm_simps, simp,
        rule safe_sthen, rule same, rule info, simp, rule safe_sthen, rule same, simp add: sof_def, simp, rule main)
qed

lemma keeps_execute_public:
  assumes "runs_ok run"
  shows "keeps K (deltas (ctx_all_actions ctx))
     (execute_public_method_call env run c bp name ctx nc_args skip forbid)"
  unfolding keeps_safe
  by (intro allI impI, rule safe_mono [OF safe_execute_public [OF assms]]) auto

lemma keeps_view_call:
  assumes "runs_ok run"
  shows "keeps K (\<lambda>_. 0) (unsafe_call_view_method env run c bp name args kwargs)"
proof -
  have main: "keeps K (\<lambda>_. 0) (sbind (tracker_or_storage env c) (\<lambda>n.
      sbind (create_blueprint_instance env bp) (\<lambda>(blueprint, cache).
      sbind (sof (find_view_method env blueprint name args kwargs)) (\<lambda>(m, vs).
      sbind (on_call_info (sget (\<lambda>ci. length (ci_stack ci)))) (\<lambda>depth.
      let r = \<lparr>cr_type = VIEW, cr_depth = depth, cr_contract_id = c, cr_blueprint_id = bp,
               cr_method_name = name, cr_ctx = None, cr_args = Args vs, cr_tracker = n,
               cr_index_updates = None, cr_cache = cache\<rparr> in
      sthen (on_call_info (pre_call r (new_tracker c)))
     (sbind (metered_call (run (bm_code m None (Args vs)))) (\<lambda>ret.
      sbind (on_storage c (n + 1) (\<lambda>ch.
         (case ch_layers ch of [] \<Rightarrow> Inl IndexError | t # _ \<Rightarrow> ct_is_empty t, ch))) (\<lambda>empty.
      sthen (sguard empty NCViewMethodError)
     (sthen (on_call_info (post_call r))
        (sof (validate_return_type_for_method (set_order (ne_runtime env)) (ms_return (bm_sig m)) ret)))))))))))"
    unfolding keeps_safe split_beta Let_def
  proof (intro allI impI)
    fix s
    assume inv: "run_inv s"
    have body: "keeps (r # rs) (\<lambda>_. 0) (metered_call (run p))" for r rs p
      using assms keeps_metered_call unfolding runs_ok_def by blast
    have fin: "safe s1 (\<lambda>_ s'. run_inv s' \<and> moved (\<lambda>_. 0) s s') (sthen (on_call_info (pre_call r (new_tracker c)))
       (sbind (metered_call (run p)) (\<lambda>ret. sbind (on_storage c (n + 1) (\<lambda>ch.
         (case ch_layers ch of [] \<Rightarrow> Inl IndexError | t # _ \<Rightarrow> ct_is_empty t, ch))) (\<lambda>empty.
        sthen (sguard empty NCViewMethodError) (sthen (on_call_info (post_call r)) (sof (g ret)))))))"
      if re: "call_ready s c n s1"
        and r: "cr_contract_id r = c" "cr_tracker r = n" "cr_index_updates r = None" "cr_type r = VIEW" for s1 n r p and g :: "nc_value \<Rightarrow> exc + nc_value"
    proof -
      have inv1: "run_inv s1" "n = length (layers_of c s1)" "dict_has (r_storages s1) c" using re by (simp_all add: call_ready_def)
      have "safe s1 (\<lambda>_ s'. run_inv s' \<and> moved (\<lambda>_. 0) s1 s' \<and> (\<exists>y :: unit. layers_of (cr_contract_id r) s' \<noteq> []))
          (sbind (on_call_info (pre_call r (new_tracker c)))
            (\<lambda>_. sbind (metered_call (run p)) (\<lambda>ret. sthen (close_view r) (sof (g ret)))))"
        by (rule safe_bracket [OF safe_open_view [OF inv1 r] body safe_closing [OF safe_close_view]])
      from call_ready_moved [OF re this]
      have "safe s1 (\<lambda>_ s'. run_inv s' \<and> moved (\<lambda>_. 0) s s') (sbind (on_call_info (pre_call r (new_tracker c)))
          (\<lambda>_. sbind (metered_call (run p)) (\<lambda>ret. sthen (close_view r) (sof (g ret)))))"
        by (rule safe_mono) blast
      then show ?thesis
        using r(1,2) by (simp only: close_view_def sthen_def sbind_assoc)
    qed
    show "safe s (\<lambda>_ s'. run_inv s' \<and> moved (\<lambda>_. 0) s s') (sbind (tracker_or_storage env c) (\<lambda>n.
      sbind (create_blueprint_instance env bp) (\<lambda>bc.
      sbind (sof (find_view_method env (fst bc) name args kwargs)) (\<lambda>found.
      sbind (on_call_info (sget (\<lambda>ci. length (ci_stack ci)))) (\<lambda>depth.
      sthen (on_call_info (pre_call \<lparr>cr_type = VIEW, cr_depth = depth, cr_contract_id = c, cr_blueprint_id = bp,
               cr_method_name = name, cr_ctx = None, cr_args = Args (snd found), cr_tracker = n,
               cr_index_updates = None, cr_cache = snd bc\<rparr> (new_tracker c)))
     (sbind (metered_call (run (bm_code (fst found) None (Args (snd found))))) (\<lambda>ret.
      sbind (on_storage c (n + 1) (\<lambda>ch.
         (case ch_layers ch of [] \<Rightarrow> Inl IndexError | t # _ \<Rightarrow> ct_is_empty t, ch))) (\<lambda>empty.
      sthen (sguard empty NCViewMethodError)
     (sthen (on_call_info (post_call \<lparr>cr_type = VIEW, cr_depth = depth, cr_contract_id = c, cr_blueprint_id = bp,
               cr_method_name = name, cr_ctx = None, cr_args = Args (snd found), cr_tracker = n,
               cr_index_updates = None, cr_cache = snd bc\<rparr>))
        (sof (validate_return_type_for_method (set_order (ne_runtime env)) (ms_return (bm_sig (fst found))) ret)))))))))))"
      by (rule safe_sbind [OF safe_tracker_or_storage [OF inv moved_refl]],
          erule safe_sbind [OF call_ready_create_instance],
          rule safe_sbind, erule call_ready_same, simp add: sof_def,
          rule safe_sbind, erule call_ready_quiet, simp add: sm_simps quiet_def,
          erule fin) simp_all
  qed
  show ?thesis
    unfolding unsafe_call_view_method_def by (intro keeps_seq keeping main)
qed

lemma deltas_group: "deltas (concat (map snd (group_actions actions))) u = deltas actions u"
proof -
  have "deltas xs u = (\<Sum>a\<in>#mset xs. action_delta a u)" for xs by (simp add: deltas_def flip: sum_mset_sum_list)
  then show ?thesis by (simp add: mset_group_actions)
qed

lemma sum_list_neg: "(\<Sum>a\<leftarrow>xs. - f a) = - (\<Sum>a\<leftarrow>xs. f a :: int)"
  by (induction xs) simp_all

lemma keeps_caller_actions:
  "keeps (r # rs) (\<lambda>u. - deltas actions u) (sfor actions (\<lambda>action.
     on_storage (cr_contract_id r) (cr_tracker r + 1) (nc_caller_execution_rule (ne_runtime env) action)))"
  by (rule keeps_eq [OF keeps_sfor [where d = "\<lambda>a u. - action_delta a u"]], rule keeps_own [OF on_newest_caller])
    (simp add: deltas_def sum_list_neg)

lemma keeps_call_another:
  assumes "runs_ok run"
  shows "keeps (r # rs) (\<lambda>_. 0)
     (unsafe_call_another_contract_public_method env run c bp name actions fees nc_args skip forbid)"
proof -
  have callee: "keeps (r # rs) (deltas actions) (sthen (pay_fees env fees)
      (sbind (sof (ctx_get_block first_ctx)) (\<lambda>block.
       sbind (execute_public_method_call env run c bp name
                \<lparr>ctx_caller_id = ContractCaller (cr_contract_id r), ctx_vertex = ctx_vertex first_ctx,
                 ctx_block = Some block, ctx_actions = group_actions actions\<rparr>
                nc_args skip forbid) (\<lambda>result.
       sthen (validate_actions_fees env (group_actions actions) fees) (sret result)))))" for first_ctx
  proof -
    have "keeps (r # rs) (deltas actions) (sbind (execute_public_method_call env run c bp name
                \<lparr>ctx_caller_id = ContractCaller (cr_contract_id r), ctx_vertex = ctx_vertex first_ctx,
                 ctx_block = Some block, ctx_actions = group_actions actions\<rparr>
                nc_args skip forbid) (\<lambda>result.
       sthen (validate_actions_fees env (group_actions actions) fees) (sret result)))" for block
      by (rule keeps_eq [OF keeps_sbind [OF keeps_execute_public [OF assms]
              keeps_seq(1) [OF keeps_validate_actions_fees keeps_pure(1)]]])
        (simp add: ctx_all_actions_def deltas_group)
    then show ?thesis by (intro keeps_seq(1) [OF keeps_pay_fees] keeps_sof_bind)
  qed
  have whole: "keeps (r # rs) (\<lambda>_. 0) (sthen (sfor actions (\<lambda>action.
      on_storage (cr_contract_id r) (cr_tracker r + 1) (nc_caller_execution_rule (ne_runtime env) action)))
      (sthen (pay_fees env fees)
      (sbind (sof (ctx_get_block first_ctx)) (\<lambda>block.
       sbind (execute_public_method_call env run c bp name
                \<lparr>ctx_caller_id = ContractCaller (cr_contract_id r), ctx_vertex = ctx_vertex first_ctx,
                 ctx_block = Some block, ctx_actions = group_actions actions\<rparr>
                nc_args skip forbid) (\<lambda>result.
       sthen (validate_actions_fees env (group_actions actions) fees) (sret result))))))" for first_ctx
    by (rule keeps_eq [OF keeps_sthen [OF keeps_caller_actions callee]]) simp
  have cases: "keeps (r # rs) (\<lambda>_. 0) (case first of None \<Rightarrow> sraise AssertionError | Some first_ctx \<Rightarrow> g first_ctx)"
    if "\<And>ctx. keeps (r # rs) (\<lambda>_. 0) (g ctx)" for first and g :: "nc_context \<Rightarrow> (runner, nc_value) sm"
    using that by (auto intro: keeping split: option.splits)
  show ?thesis
    unfolding unsafe_call_another_contract_public_method_def
    by (intro keeps_current keeps_seq keeps_pure keeps_call_info_read cases whole)
qed

lemma keeps_syscall_calls:
  assumes "runs_ok run"
  shows "keeps (r # rs) (\<lambda>_. 0) (syscall_call_another_contract_public_method env run c name actions fees args kwargs forbid)"
    "keeps (r # rs) (\<lambda>_. 0) (syscall_proxy_call_public_method env run bp name actions fees nc_args forbid)"
    "keeps (r # rs) (\<lambda>_. 0) (syscall_proxy_call_view_method env run bp name args kwargs)"
    "keeps (r # rs) (\<lambda>_. 0) (syscall_call_another_contract_view_method env run c name args kwargs)"
  unfolding syscall_call_another_contract_public_method_def syscall_proxy_call_public_method_def
    syscall_proxy_call_view_method_def syscall_call_another_contract_view_method_def
  by (intro keeps_current_id(1) keeps_seq keeping keeps_call_another [OF assms] keeps_view_call [OF assms])+

lemma keeps_syscall_create:
  assumes "runs_ok run"
  shows "keeps (r # rs) (\<lambda>_. 0) (syscall_create_another_contract env run bp salt actions fees args kwargs)"
proof -
  have rcd: "keeps (r # rs) (\<lambda>_. 0) (sbind (sof (new_record (CreateContractRecord bp child))) (\<lambda>rec.
      sthen (on_call_info (add_index_update (cr_index_updates r) rec)) (sret x)))" for child and x :: "bytes \<times> nc_value"
    by (intro keeps_sof_bind keeps_seq keeps_pure keeps_add_record) (auto simp: new_record_def is_token_record_def split: if_splits)
  show ?thesis
    unfolding syscall_create_another_contract_def Let_def
    by (intro keeps_current keeps_seq keeps_pure keeps_forbid keeps_initialized keeps_internal_create keeps_call_info_read
        keeps_call_another [OF assms] rcd)
qed

section \<open>All code\<close>

lemma keeps_smap [keeping]: "keeps K \<delta> m \<Longrightarrow> keeps K \<delta> (smap f m)"
  unfolding smap_def using keeps_sbind [of K \<delta> m "\<lambda>_. 0" "\<lambda>x. sret (f x)"] by (simp add: keeping)

lemma keeps_handle_syscall:
  assumes "runs_ok run"
  shows "keeps (r # rs) (\<lambda>_. 0) (handle_syscall env run c)"
proof (cases c)
  case (GetBlueprintId x)
  then show ?thesis by (cases x) (auto intro!: keeps_smap keeps_current_id(1) keeping)
next
  case (GetBalance x1 x y)
  then show ?thesis by (cases x) (auto intro!: keeps_smap keeps_current_id(1) keeping)
qed (auto simp del: One_nat_def intro!: keeps_smap keeps_syscall_calls [OF assms] keeps_syscall_create [OF assms] keeping newest)

lemma keeps_run_prog:
  assumes "\<And>c. keeps K (\<lambda>_. 0) (h c)"
  shows "keeps K (\<lambda>_. 0) (run_prog h p)"
  by (induction p) (auto intro!: keeps_seq assms keeping)

lemma runs_ok_run_code: "runs_ok (run_code env fuel)"
proof (induction fuel)
  case 0
  then show ?case by (simp add: runs_ok_def keeps_def sm_simps run_inv_live)
next
  case (Suc fuel)
  then show ?case by (auto simp: runs_ok_def intro!: keeps_run_prog keeps_handle_syscall [OF Suc])
qed

end
