(* ===== verification/Run_Depth.thy ===== *)
theory Run_Depth
  imports Call_Keeps
begin

text \<open>
  The bound on the depth of calls is enough fuel: whatever is put in place of running out of it, an execution is the
  same.
\<close>

primrec run_code_with ::
    "nc_env \<Rightarrow> (nc_value prog \<Rightarrow> (runner, nc_value) sm) \<Rightarrow> nat \<Rightarrow> nc_value prog \<Rightarrow> (runner, nc_value) sm" where
  "run_code_with env base 0 p = base p"
| "run_code_with env base (Suc n) p = run_prog (handle_syscall env (run_code_with env base n)) p"

lemma run_code_add: "run_code env (m + n) = run_code_with env (run_code env n) m"
proof (induction m)
  case 0
  show ?case by (rule ext) simp
next
  case (Suc m)
  then show ?case by (intro ext) simp
qed

section \<open>Agreement\<close>

definition agree :: "call_record list \<Rightarrow> (runner, 'a) sm \<Rightarrow> (runner, 'a) sm \<Rightarrow> bool" where
  "agree K m m' \<longleftrightarrow> (\<forall>s. run_inv s \<longrightarrow> stk s = K \<longrightarrow> m s = m' s)"

definition agree_runs :: "call_record list \<Rightarrow> (nc_value prog \<Rightarrow> (runner, nc_value) sm) \<Rightarrow> (nc_value prog \<Rightarrow> (runner, nc_value) sm) \<Rightarrow> bool" where
  "agree_runs K run run' \<longleftrightarrow> runs_ok run' \<and> (\<forall>r p. agree (r # K) (run p) (run' p))"

lemma agreeD: "agree K m m' \<Longrightarrow> run_inv s \<Longrightarrow> stk s = K \<Longrightarrow> m s = m' s"
  by (simp add: agree_def)

lemma agree_refl: "agree K m m"
  by (simp add: agree_def)

lemma safe_cong:
  assumes "safe s Q m'" and "m s = m' s" and "\<And>x s1. Q x s1 \<Longrightarrow> f x s1 = f' x s1"
  shows "sbind m f s = sbind m' f' s"
proof -
  obtain r s1 where m': "m' s = (r, s1)" by fastforce
  show ?thesis
  proof (cases r)
    case (Inr x)
    then have "f x s1 = f' x s1" using safeD(3) [OF assms(1) m'] assms(3) by blast
    then show ?thesis using assms(2) m' Inr by (simp add: sm_simps)
  qed (use assms(2) m' in \<open>simp add: sm_simps\<close>)
qed

lemma agree_sbind:
  assumes "agree K m m'" and "keeps K d m'" and "\<And>x. agree K (f x) (f' x)"
  shows "agree K (sbind m f) (sbind m' f')"
  unfolding agree_def
proof (intro allI impI)
  fix s
  assume s: "run_inv s" "stk s = K"
  then have "safe s (\<lambda>_ s'. run_inv s' \<and> moved d s s') m'" using assms(2) unfolding keeps_safe by blast
  then show "sbind m f s = sbind m' f' s"
    by (rule safe_cong) (use s assms(1,3) in \<open>auto simp: agree_def moved_def\<close>)
qed

lemma agree_sthen:
  "agree K m m' \<Longrightarrow> keeps K d m' \<Longrightarrow> agree K n n' \<Longrightarrow> agree K (sthen m n) (sthen m' n')"
  unfolding sthen_def by (rule agree_sbind)

lemma agree_after:
  "keeps K d m \<Longrightarrow> (\<And>x. agree K (f x) (f' x)) \<Longrightarrow> agree K (sbind m f) (sbind m f')"
  "keeps K d m' \<Longrightarrow> agree K n n' \<Longrightarrow> agree K (sthen m' n) (sthen m' n')"
  by (rule agree_sbind [OF agree_refl] agree_sthen [OF agree_refl]; assumption)+

lemma agree_before: "agree K m m' \<Longrightarrow> agree K (sbind m f) (sbind m' f)"
  by (simp add: agree_def sm_simps)

lemma agree_current:
  "agree (r # rs) (f r) (f' r) \<Longrightarrow> agree (r # rs) (sbind get_current_call_record f) (sbind get_current_call_record f')"
  by (simp add: agree_def sm_simps get_current_call_record_at)

lemma agree_metered: "agree K m m' \<Longrightarrow> agree K (metered_call m) (metered_call m')"
  by (simp add: agree_def metered_call_def)

section \<open>Calls\<close>

lemma agree_public_body:
  assumes "agree_runs K run run'"
  shows "agree (r # K) (public_body env run r m b ctx i) (public_body env run' r m b ctx i)"
  unfolding public_body_def
  by (intro agree_after(2) [OF keeps_pure(6)] agree_after(2) [OF keeps_callee_actions] agree_after(1) [OF keeps_pure(6)]
      agree_before agree_metered) (use assms in \<open>simp add: agree_runs_def\<close>)

lemma run_public_agree:
  assumes "call_ready s c n s1" and "stk s = K" and "agree_runs K run run'"
    and q: "\<And>a. cr_contract_id (q a) = c \<and> cr_tracker (q a) = n \<and> cr_index_updates (q a) = Some a"
  shows "sbind (on_call_info new_updates) (\<lambda>a. run_public_call env run (q a) m b ctx i) s1 =
     sbind (on_call_info new_updates) (\<lambda>a. run_public_call env run' (q a) m b ctx i) s1"
proof -
  have s1: "run_inv s1" "n = length (layers_of c s1)" "dict_has (r_storages s1) c" and K: "stk s1 = K"
    using assms(1,2) by (simp_all add: call_ready_def moved_def)
  show ?thesis
    unfolding public_call_eq [OF q]
    by (rule safe_cong, rule safe_open_public [OF s1 q], rule refl,
        rule agreeD [OF agree_before [OF agree_public_body [OF assms(3)]]])
      (simp_all add: opened_def K)
qed

lemma agree_execute_public:
  assumes "agree_runs K run run'"
  shows "agree K (execute_public_method_call env run c bp name ctx nc_args skip forbid)
     (execute_public_method_call env run' c bp name ctx nc_args skip forbid)"
  unfolding execute_public_method_call_def
proof (intro agree_after(1) [OF keeps_pure(5)] agree_after(2) [OF keeps_pure(4)] agree_after(2) [OF keeps_call_info_read(2)]
    agree_after(2) [OF keeps_pure(6)])
  show "agree K (sbind (tracker_or_storage env c) (\<lambda>n. sbind (create_blueprint_instance env bp) (\<lambda>(blueprint, cache).
      sbind (sof (find_public_method env blueprint name nc_args forbid)) (\<lambda>(m, called_method_name, args).
      sthen (if skip then sret () else validate_reentrancy c m)
     (sbind (on_call_info (sget (\<lambda>ci. length (ci_stack ci)))) (\<lambda>depth.
      sbind (on_call_info new_updates) (\<lambda>updates. run_public_call env run
        \<lparr>cr_type = PUBLIC, cr_depth = depth, cr_contract_id = c, cr_blueprint_id = bp,
         cr_method_name = called_method_name, cr_ctx = Some ctx, cr_args = args, cr_tracker = n,
         cr_index_updates = Some updates, cr_cache = cache\<rparr>
        m blueprint ctx (name = NC_INITIALIZE_METHOD))))))))
    (sbind (tracker_or_storage env c) (\<lambda>n. sbind (create_blueprint_instance env bp) (\<lambda>(blueprint, cache).
      sbind (sof (find_public_method env blueprint name nc_args forbid)) (\<lambda>(m, called_method_name, args).
      sthen (if skip then sret () else validate_reentrancy c m)
     (sbind (on_call_info (sget (\<lambda>ci. length (ci_stack ci)))) (\<lambda>depth.
      sbind (on_call_info new_updates) (\<lambda>updates. run_public_call env run'
        \<lparr>cr_type = PUBLIC, cr_depth = depth, cr_contract_id = c, cr_blueprint_id = bp,
         cr_method_name = called_method_name, cr_ctx = Some ctx, cr_args = args, cr_tracker = n,
         cr_index_updates = Some updates, cr_cache = cache\<rparr>
        m blueprint ctx (name = NC_INITIALIZE_METHOD))))))))"
    unfolding agree_def split_beta sthen_def
    by (intro allI impI,
        rule safe_cong, erule safe_tracker_or_storage [OF _ moved_refl], rule refl,
        rule safe_cong, erule call_ready_create_instance, rule refl,
        rule safe_cong, erule call_ready_same, simp add: sof_def, rule refl,
        rule safe_cong, erule call_ready_same, simp add: validate_reentrancy_def on_call_info_def sm_simps split: option.splits, rule refl,
        rule safe_cong, erule call_ready_quiet, simp add: sm_simps quiet_def, rule refl,
        erule run_public_agree [OF _ _ assms]) simp_all
qed

lemma agree_view_call:
  assumes "agree_runs K run run'"
  shows "agree K (unsafe_call_view_method env run c bp name args kwargs) (unsafe_call_view_method env run' c bp name args kwargs)"
proof -
  have fin: "sbind (on_call_info (pre_call r (new_tracker c))) (\<lambda>_. sbind (metered_call (run p)) g) s1 =
      sbind (on_call_info (pre_call r (new_tracker c))) (\<lambda>_. sbind (metered_call (run' p)) g) s1"
    if re: "call_ready s c n s1" and K: "stk s = K"
      and r: "cr_contract_id r = c" "cr_tracker r = n" "cr_index_updates r = None" "cr_type r = VIEW"
    for s s1 n r p and g :: "nc_value \<Rightarrow> (runner, nc_value) sm"
  proof -
    have s1: "run_inv s1" "n = length (layers_of c s1)" "dict_has (r_storages s1) c" "stk s1 = K"
      using re K by (simp_all add: call_ready_def moved_def)
    have "agree (r # K) (metered_call (run p)) (metered_call (run' p))" for r
      using assms by (intro agree_metered) (simp add: agree_runs_def)
    then show ?thesis
      by (intro safe_cong [OF safe_open_view [OF s1(1-3) r]] refl, intro agreeD [OF agree_before])
        (simp_all add: opened_def s1(4))
  qed
  show ?thesis
    unfolding unsafe_call_view_method_def
  proof (intro agree_after(1) [OF keeps_initialized] agree_after(2) [OF keeps_pure(3)] agree_after(2) [OF keeps_call_info_read(2)]
      agree_after(2) [OF keeps_smods(3)])
    show "agree K (sbind (tracker_or_storage env c) (\<lambda>n. sbind (create_blueprint_instance env bp) (\<lambda>(blueprint, cache).
      sbind (sof (find_view_method env blueprint name args kwargs)) (\<lambda>(m, vs).
      sbind (on_call_info (sget (\<lambda>ci. length (ci_stack ci)))) (\<lambda>depth.
      let r = \<lparr>cr_type = VIEW, cr_depth = depth, cr_contract_id = c, cr_blueprint_id = bp,
               cr_method_name = name, cr_ctx = None, cr_args = Args vs, cr_tracker = n,
               cr_index_updates = None, cr_cache = cache\<rparr> in
      sthen (on_call_info (pre_call r (new_tracker c)))
     (sbind (metered_call (run (bm_code m None (Args vs)))) (\<lambda>ret.
      sbind (on_storage c (n + 1) (\<lambda>ch.
         (case ch_layers ch of [] \<Rightarrow> Inl IndexError | t # _ \<Rightarrow> ct_is_empty t, ch))) (\<lambda>empty.
      sthen (sguard empty NCViewMethodError)
     (sthen (on_call_info (post_call r))
        (sof (validate_return_type_for_method (set_order (ne_runtime env)) (ms_return (bm_sig m)) ret)))))))))))
    (sbind (tracker_or_storage env c) (\<lambda>n. sbind (create_blueprint_instance env bp) (\<lambda>(blueprint, cache).
      sbind (sof (find_view_method env blueprint name args kwargs)) (\<lambda>(m, vs).
      sbind (on_call_info (sget (\<lambda>ci. length (ci_stack ci)))) (\<lambda>depth.
      let r = \<lparr>cr_type = VIEW, cr_depth = depth, cr_contract_id = c, cr_blueprint_id = bp,
               cr_method_name = name, cr_ctx = None, cr_args = Args vs, cr_tracker = n,
               cr_index_updates = None, cr_cache = cache\<rparr> in
      sthen (on_call_info (pre_call r (new_tracker c)))
     (sbind (metered_call (run' (bm_code m None (Args vs)))) (\<lambda>ret.
      sbind (on_storage c (n + 1) (\<lambda>ch.
         (case ch_layers ch of [] \<Rightarrow> Inl IndexError | t # _ \<Rightarrow> ct_is_empty t, ch))) (\<lambda>empty.
      sthen (sguard empty NCViewMethodError)
     (sthen (on_call_info (post_call r))
        (sof (validate_return_type_for_method (set_order (ne_runtime env)) (ms_return (bm_sig m)) ret)))))))))))"
      unfolding agree_def split_beta sthen_def Let_def
      by (intro allI impI,
          rule safe_cong, erule safe_tracker_or_storage [OF _ moved_refl], rule refl,
          rule safe_cong, erule call_ready_create_instance, rule refl,
          rule safe_cong, erule call_ready_same, simp add: sof_def, rule refl,
          rule safe_cong, erule call_ready_quiet, simp add: sm_simps quiet_def, rule refl,
          erule fin) simp_all
  qed
qed

lemma agree_case:
  "(\<And>x. agree K (f x) (f' x)) \<Longrightarrow> agree K (case y of None \<Rightarrow> e | Some x \<Rightarrow> f x) (case y of None \<Rightarrow> e | Some x \<Rightarrow> f' x)"
  by (auto simp: agree_refl split: option.splits)

lemma agree_call_another:
  assumes "agree_runs (r # rs) run run'"
  shows "agree (r # rs) (unsafe_call_another_contract_public_method env run c bp name actions fees nc_args skip forbid)
     (unsafe_call_another_contract_public_method env run' c bp name actions fees nc_args skip forbid)"
  unfolding unsafe_call_another_contract_public_method_def
  by (intro agree_after(2) [OF keeps_call_info_read(2)] agree_current agree_after(2) [OF keeps_pure(3)]
      agree_after(2) [OF keeps_pure(6)] agree_after(1) [OF keeps_call_info_read(1)] agree_case
      agree_after(2) [OF keeps_caller_actions] agree_after(2) [OF keeps_pay_fees] agree_after(1) [OF keeps_pure(6)]
      agree_before agree_execute_public assms)

lemma agree_syscall_calls:
  assumes "agree_runs (r # rs) run run'"
  shows "agree (r # rs) (syscall_call_another_contract_public_method env run c name actions fees args kwargs forbid)
      (syscall_call_another_contract_public_method env run' c name actions fees args kwargs forbid)"
    "agree (r # rs) (syscall_proxy_call_public_method env run bp name actions fees nc_args forbid)
      (syscall_proxy_call_public_method env run' bp name actions fees nc_args forbid)"
    "agree (r # rs) (syscall_proxy_call_view_method env run bp name args kwargs)
      (syscall_proxy_call_view_method env run' bp name args kwargs)"
    "agree (r # rs) (syscall_call_another_contract_view_method env run c name args kwargs)
      (syscall_call_another_contract_view_method env run' c name args kwargs)"
  unfolding syscall_call_another_contract_public_method_def syscall_proxy_call_public_method_def
    syscall_proxy_call_view_method_def syscall_call_another_contract_view_method_def
  by (intro agree_after(2) [OF keeps_forbid] agree_after(2) [OF keeps_pure(3)] agree_after(1) [OF keeps_plain_current(2)]
      agree_after(1) [OF keeps_initialized] agree_after(1) [OF keeps_get_blueprint_id] agree_after(1) [OF keeps_proxy_target]
      agree_after(2) [OF keeps_call_info_read(2)] agree_call_another agree_view_call assms)+

lemma agree_syscall_create:
  assumes "agree_runs (r # rs) run run'"
  shows "agree (r # rs) (syscall_create_another_contract env run bp salt actions fees args kwargs)
      (syscall_create_another_contract env run' bp salt actions fees args kwargs)"
  unfolding syscall_create_another_contract_def Let_def
  by (intro agree_after(2) [OF keeps_forbid] agree_after(2) [OF keeps_pure(3)] agree_after(2) [OF keeps_call_info_read(2)]
      agree_current agree_after(1) [OF keeps_initialized] agree_after(2) [OF keeps_internal_create] agree_before
      agree_call_another assms)

lemma agree_handle_syscall:
  assumes "agree_runs (r # rs) run run'"
  shows "agree (r # rs) (handle_syscall env run c) (handle_syscall env run' c)"
  using agree_syscall_calls [OF assms] agree_syscall_create [OF assms]
  by (cases c) (auto simp: smap_def intro: agree_refl agree_before)

lemma agree_run_prog:
  assumes "\<And>c. agree K (h c) (h' c)" and "\<And>c. keeps K (\<lambda>_. 0) (h' c)"
  shows "agree K (run_prog h p) (run_prog h' p)"
  by (induction p) (auto intro!: agree_refl agree_sbind assms)

text \<open>A state with more than \<open>MAX_RECURSION_DEPTH\<close> calls on its stack does not exist.\<close>

lemma agree_run_code:
  assumes "MAX_RECURSION_DEPTH < length (r # rs) + fuel"
  shows "agree (r # rs) (run_code_with env base fuel p) (run_code env fuel p)"
  using assms
proof (induction fuel arbitrary: r rs p)
  case 0
  have "length (stk s) \<le> MAX_RECURSION_DEPTH" if "run_inv s" for s
    using that by (auto simp: run_inv_def ci_ok_def stk_def)
  then show ?case using 0 by (force simp: agree_def)
next
  case (Suc fuel)
  have "agree_runs (r # rs) (run_code_with env base fuel) (run_code env fuel)"
    unfolding agree_runs_def using Suc.IH [of _ "r # rs"] Suc.prems runs_ok_run_code by simp
  then show ?case
    by (auto intro!: agree_run_prog agree_handle_syscall keeps_handle_syscall runs_ok_run_code)
qed

lemma agree_runs_MAX: "agree_runs K (run_code_with env base MAX_RECURSION_DEPTH) (run_code env MAX_RECURSION_DEPTH)"
  unfolding agree_runs_def using runs_ok_run_code agree_run_code by simp

end
