(* ===== verification/Runner_Props.thy ===== *)
theory Runner_Props
  imports Run_Depth Storage_Props
begin

text \<open>
  What an execution of the runner as a whole guarantees, whatever the code of the blueprints does: the recursion
  bound is enough, failed executions leave the contracts alone, and no tokens appear or vanish.
\<close>

section \<open>The state in which an execution starts\<close>

definition starting :: "bool \<Rightarrow> bytes \<Rightarrow> runner \<Rightarrow> bool" where
  "starting trace c s \<longleftrightarrow> r_call_info s = Some (build_call_info trace c) \<and> r_updated_tokens_totals s = []"

lemma starting_inv:
  assumes "starting trace c s"
  shows "run_inv s" "stk s = []" "net s u = 0" "layers_of d s = []" "traced s = trace"
proof -
  have s: "r_call_info s = Some (build_call_info trace c)" and t: "r_updated_tokens_totals s = []"
    using assms by (simp_all add: starting_def)
  have "ci_ok (r_storages s) [] (build_call_info trace c)"
    by (simp add: ci_ok_def build_call_info_def trackers_ok_def trackers_of_def updates_ok_def totals_ok_def
        record_sum_def total_of_def calls_of_def dict_has_get)
  then show "run_inv s" by (simp add: run_inv_def s t)
  show "stk s = []" "net s u = 0" "layers_of d s = []" "traced s = trace"
    by (simp_all add: s t stk_def net_def layers_of_def trackers_of_def build_call_info_def tracked_def total_of_def traced_def)
qed

section \<open>A small node to evaluate in\<close>

definition sample_method :: "nc_method_type \<Rightarrow> nc_value prog \<Rightarrow> bp_method" where
  "sample_method ty code =
     \<lparr>bm_type = Some ty, bm_sig = \<lparr>ms_arg_names = [], ms_args = [], ms_return = NullNC\<rparr>,
      bm_allowed_actions = {DEPOSIT_ACTION}, bm_allow_reentrancy = False, bm_code = (\<lambda>_ _. code)\<rparr>"

definition sample_blueprint :: blueprint where
  "sample_blueprint = \<lparr>bp_methods =
     [(ustr ''pay'', sample_method PUBLIC_METHOD (Syscall (PutObj [97] VarInt32NC (IntV 5)) (\<lambda>_. Return NoneV))),
      (ustr ''fail'', sample_method PUBLIC_METHOD (Syscall (PutObj [97] VarInt32NC (IntV 5)) (\<lambda>_. Raise NCFail))),
      (ustr ''see'', sample_method VIEW_METHOD (Return NoneV)),
      (ustr ''low'', sample_method PUBLIC_METHOD (Syscall (PutObj [97] VarInt32NC (IntV (- (2 ^ 223) - 1))) (\<lambda>_. Return NoneV)))],
     bp_fields = []\<rparr>"

definition sample_env :: nc_env where
  "sample_env = \<lparr>ne_runtime = plain_runtime, ne_blueprint = (\<lambda>_. Some sample_blueprint), ne_token_tx = (\<lambda>_. None),
     ne_chacha20 = (\<lambda>_ _ _. 0)\<rparr>"

text \<open>A runner that has contract \<open>[1]\<close>, idle and during a call.\<close>

definition sample_runner :: runner where
  "sample_runner = \<lparr>r_block = \<lparr>bs_trie = pempty, bs_store = []\<rparr>,
     r_storages = [([1], snd (cs_set_blueprint_id plain_runtime [9] (new_contract_storage pempty [1])))],
     r_metered_executor = True, r_enable_call_trace = True, r_call_info = None, r_last_call_info = None,
     r_rng = None, r_rng_per_contract = [], r_updated_tokens_totals = [], r_paid_actions_fees = []\<rparr>"

definition sample_ctx :: nc_context where
  "sample_ctx = \<lparr>ctx_caller_id = ContractCaller [2], ctx_vertex = 0, ctx_block = Some 0,
     ctx_actions = [([7], [NCDepositAction [7] 3])]\<rparr>"

definition sample_start :: runner where
  "sample_start = sample_runner\<lparr>r_call_info := Some (build_call_info True [1])\<rparr>"

abbreviation sample_call :: "string \<Rightarrow> (runner, nc_value) sm" where
  "sample_call name \<equiv> call_public_method_with_nc_args sample_env [1] (ustr name) sample_ctx (NCParsedArgs [] [])"

abbreviation sample_execution :: "(exc + nc_value) \<times> runner" where
  "sample_execution \<equiv> execute_public_method_call sample_env (run_code sample_env MAX_RECURSION_DEPTH) [1] [9] (ustr ''pay'')
     sample_ctx (NCParsedArgs [] []) False False sample_start"

lemma sample_idle: "r_call_info sample_runner = None" "r_updated_tokens_totals sample_runner = []"
  by (simp_all add: sample_runner_def)

lemma sample_starts: "r_call_info sample_start = Some (build_call_info True [1])" "r_updated_tokens_totals sample_start = []"
  by (simp_all add: sample_start_def sample_runner_def)

lemma sample_execution_returns: "\<exists>ret. sample_execution = (Inr ret, snd sample_execution)"
proof -
  have "\<not> isl (fst sample_execution)" by code_simp
  then show ?thesis by (cases "fst sample_execution") (auto simp: prod_eq_iff)
qed

section \<open>Recursion\<close>

text \<open>
  C4. The limit on the depth of calls bounds every execution: a public and a view call from outside give the same
  result and state whatever \<open>base\<close> would do in place of code nested deeper than \<open>MAX_RECURSION_DEPTH\<close> calls. So no
  execution reaches that point, and more fuel makes no difference.
\<close>

theorem recursion_is_bounded:
  assumes "r_call_info s = Some (build_call_info trace c)" and "r_updated_tokens_totals s = []"
  shows "execute_public_method_call env (run_code_with env base MAX_RECURSION_DEPTH) c bp name ctx nc_args skip forbid s =
           execute_public_method_call env (run_code env MAX_RECURSION_DEPTH) c bp name ctx nc_args skip forbid s \<and>
         execute_public_method_call env (run_code env (MAX_RECURSION_DEPTH + n)) c bp name ctx nc_args skip forbid s =
           execute_public_method_call env (run_code env MAX_RECURSION_DEPTH) c bp name ctx nc_args skip forbid s \<and>
         unsafe_call_view_method env (run_code_with env base MAX_RECURSION_DEPTH) c bp name args kwargs s =
           unsafe_call_view_method env (run_code env MAX_RECURSION_DEPTH) c bp name args kwargs s"
proof -
  have "starting trace c s" using assms by (simp add: starting_def)
  from starting_inv(1) [OF this] have inv: "run_inv s" .
  show ?thesis
    unfolding run_code_add [of env MAX_RECURSION_DEPTH n]
    by (intro conjI agreeD [OF agree_execute_public [OF agree_runs_MAX] inv refl]
        agreeD [OF agree_view_call [OF agree_runs_MAX] inv refl])
qed

theorem recursion_is_bounded_witness:
  "execute_public_method_call sample_env (run_code_with sample_env (\<lambda>_. sraise KeyError) MAX_RECURSION_DEPTH) [1] [9] (ustr ''pay'')
     sample_ctx (NCParsedArgs [] []) False False sample_start = sample_execution \<and>
   \<not> isl (fst sample_execution)"
  using recursion_is_bounded [OF sample_starts] sample_execution_returns by (metis fst_conv sum.disc(2))

section \<open>Tokens\<close>

lemma executed:
  assumes "starting trace c s" and "execute_public_method_call env (run_code env fuel) c bp name ctx nc_args skip forbid s = (Inr ret, s2)"
  shows "run_inv s2" "stk s2 = []" "net s2 u = deltas (ctx_all_actions ctx) u" "traced s2 = trace" "layers_of c s2 \<noteq> []"
proof -
  note st = starting_inv [OF assms(1)]
  have "run_inv s2 \<and> moved (deltas (ctx_all_actions ctx)) s s2 \<and> layers_of c s2 \<noteq> []"
    using safeD(3) [OF safe_execute_public [OF runs_ok_run_code st(1)] assms(2) refl] .
  then show "run_inv s2" "stk s2 = []" "net s2 u = deltas (ctx_all_actions ctx) u" "traced s2 = trace" "layers_of c s2 \<noteq> []"
    using st by (simp_all add: moved_def)
qed

text \<open>When the stack is empty, each contract has one tracker.\<close>

lemma one_tracker_each:
  assumes "run_inv s" and "stk s = []" and "r_call_info s = Some ci" and "i \<in> set (ci_trackers ci)"
  shows "\<exists>t. snd i = [t] \<and> tracker_wf t \<and> ct_nc_id t = fst i \<and> dict_has (r_storages s) (fst i)"
proof -
  have tok: "trackers_ok (r_storages s) (ci_trackers ci)" and st: "stack_ok (\<lambda>c. length (trackers_of c ci)) []"
    using assms(1-3) by (auto simp: run_inv_def ci_ok_def stk_def)
  have "distinct (map fst (ci_trackers ci))" using tok by (simp add: trackers_ok_def)
  then have g: "dict_get (ci_trackers ci) (fst i) = Some (snd i)" using assms(4) by simp
  note D = trackers_okD [OF tok g]
  have "length (snd i) \<le> 1" using st g by (auto simp: trackers_of_def dest: spec [of _ "fst i"])
  then obtain t where t: "snd i = [t]" using D(1) by (cases "snd i") auto
  then have "good_tracker (fst i) t" using D(3) by simp
  then show ?thesis using t D(2) by (auto simp: good_tracker_def)
qed

text \<open>The sums \<open>_validate_balances\<close> makes.\<close>

lemma foldl_totals:
  assumes "\<And>d x. distinct (map fst d) \<Longrightarrow> distinct (map fst (f d x))" and "\<And>d x u. total_of (f d x) u = total_of d u + g x u"
  shows "total_of (foldl f d xs) u = total_of d u + (\<Sum>x\<leftarrow>xs. g x u)"
    "distinct (map fst d) \<Longrightarrow> distinct (map fst (foldl f d xs))"
  using assms by (induction xs arbitrary: d) (auto simp: algebra_simps)

lemma add_diffs_total:
  assumes "tracker_wf t"
  shows "total_of (add_diffs (ct_balance_diff t) d) u = total_of d u + balance_diff_of t u"
    "distinct (map fst d) \<Longrightarrow> distinct (map fst (add_diffs (ct_balance_diff t) d))"
proof -
  have "(\<Sum>x\<leftarrow>ct_balance_diff t. if u = balance_key_token (fst x) then snd x else 0) = balance_diff_of t u"
    using assms by (simp add: sum_list_token [of "ct_nc_id t"] tracker_wf_def balance_diff_of_def)
  then show "total_of (add_diffs (ct_balance_diff t) d) u = total_of d u + balance_diff_of t u"
    unfolding add_diffs_def
    by (subst foldl_totals(1) [where g = "\<lambda>x u. if u = balance_key_token (fst x) then snd x else 0"])
      (auto simp: total_of_add split: prod.splits)
  show "distinct (map fst d) \<Longrightarrow> distinct (map fst (add_diffs (ct_balance_diff t) d))"
    unfolding add_diffs_def
    by (rule foldl_totals(2) [where g = "\<lambda>x u. if u = balance_key_token (fst x) then snd x else 0"])
      (auto simp: total_of_add split: prod.splits)
qed

definition single :: "(bytes, contract_storage) dict \<Rightarrow> bytes \<times> tracker list \<Rightarrow> bool" where
  "single st i \<longleftrightarrow> (\<exists>t. snd i = [t] \<and> tracker_wf t \<and> ct_nc_id t = fst i \<and> dict_has st (fst i))"

lemma tracker_totals_sum:
  assumes "\<forall>i \<in> set items. single st i" and "tracker_totals env st items d = Inr d'" and "distinct (map fst d)"
  shows "total_of d' u = total_of d u + tracked items u \<and> distinct (map fst d')"
  using assms
proof (induction items arbitrary: d)
  case Nil
  then show ?case by (simp add: tracked_def)
next
  case (Cons i items)
  obtain t cs where t: "snd i = [t]" "tracker_wf t" and cs: "dict_get st (fst i) = Some cs"
    using Cons.prems(1) by (auto simp: single_def dict_has_get)
  have "tracker_totals env st items (add_diffs (ct_balance_diff t) d) = Inr d'"
    using Cons.prems(2) t cs by (auto split: sum.splits)
  from Cons.IH [OF _ this] show ?case
    using Cons.prems(1,3) add_diffs_total [OF t(2)] t(1) by (simp add: tracked_def)
qed

lemma tracker_totals_error:
  assumes "\<forall>i \<in> set items. single st i" and "tracker_totals env st items d = Inl e"
  shows "\<exists>c t cs. (c, [t]) \<in> set items \<and> dict_get st c = Some cs \<and> validate_balances_are_positive (ne_runtime env) t [] cs = Inl e"
  using assms
proof (induction items arbitrary: d)
  case (Cons i items)
  obtain t cs where t: "snd i = [t]" "tracker_wf t" and cs: "dict_get st (fst i) = Some cs"
    using Cons.prems(1) by (auto simp: single_def dict_has_get)
  show ?case
  proof (cases "validate_balances_are_positive (ne_runtime env) t [] cs")
    case (Inl e')
    then have "e' = e" "(fst i, [t]) \<in> set (i # items)" using Cons.prems(2) t cs by (simp_all add: prod_eq_iff)
    then show ?thesis using Inl cs by blast
  next
    case (Inr u)
    then have "tracker_totals env st items (add_diffs (ct_balance_diff t) d) = Inl e" using Cons.prems(2) t cs by simp
    from Cons.IH [OF _ this] show ?thesis using Cons.prems(1) by auto
  qed
qed simp

lemma totals_ok_index_record: "totals_ok recs d \<Longrightarrow> totals_ok (r # recs) (add_index_record d r)"
  using totals_ok_token [of recs d r] totals_ok_other [of recs d r]
  by (cases r) (auto simp: add_index_record_def is_token_record_def)

lemma totals_ok_fold: "totals_ok recs (foldl add_index_record [] recs)"
proof (induction recs rule: rev_induct)
  case Nil
  then show ?case by (simp add: totals_ok_def record_sum_def total_of_def dict_has_get)
next
  case (snoc r recs)
  from totals_ok_index_record [OF this, of r] show ?case using totals_ok_mset [of "recs @ [r]" "r # recs"] by simp
qed

lemma calls_totals_eq:
  assumes "\<forall>r \<in> set calls. cr_index_updates r = None \<longrightarrow> cr_type r = VIEW"
  shows "calls_totals ups calls d =
    Inr (foldl add_index_record d (concat (map ((!) ups) (map the (filter (\<lambda>a. a \<noteq> None) (map cr_index_updates calls))))))"
  using assms by (induction calls arbitrary: d) (auto split: option.splits)

lemma totals_ok_dict_eq:
  assumes "totals_ok recs c" and "totals_ok recs d"
  shows "dict_eq c d"
proof -
  have keys: "fst ` set x = {k. dict_has x k}" for x :: "(bytes, int) dict"
    by (auto simp: dict_has_get simp flip: dom_map_of_conv_image_fst)
  have has: "dict_has c k \<longleftrightarrow> dict_has d k" for k using assms by (simp add: totals_ok_def)
  have "dict_get c k = dict_get d k" if "dict_has c k" for k
  proof -
    have "total_of c k = total_of d k" using assms by (simp add: totals_ok_def)
    then show ?thesis using that has [of k] by (auto simp: dict_has_get total_of_def)
  qed
  moreover have "dict_has c k" if "(k, v) \<in> set c" for k v using that keys [of c] by force
  ultimately show ?thesis unfolding dict_eq_def list_all_iff using keys has by auto
qed

lemma subtract_action_total:
  "total_of (subtract_action d a) u = total_of d u + - action_delta a u"
  "distinct (map fst d) \<Longrightarrow> distinct (map fst (subtract_action d a))"
  by (cases a; simp add: subtract_action_def total_of_add)+

lemma zero_totals:
  assumes "\<And>u. total_of d u = 0" and "distinct (map fst d)"
  shows "list_all (\<lambda>(_, diff). diff = 0) d"
  unfolding list_all_iff
proof
  fix x
  assume "x \<in> set d"
  then have "dict_get d (fst x) = Some (snd x)" using assms(2) by simp
  then show "case x of (_, diff) \<Rightarrow> diff = 0" using assms(1) [of "fst x"] by (simp add: total_of_def split_beta)
qed

lemma total_of_sum:
  "distinct (map fst d) \<Longrightarrow> (\<Sum>x\<leftarrow>d. if u = fst x then snd x else 0) = total_of d u"
proof (induction d)
  case (Cons x d)
  have "dict_get d (fst x) = None" using Cons.prems by (simp add: map_of_eq_None_iff)
  then show ?case using Cons by (auto simp: total_of_def)
qed (simp add: total_of_def)

lemma remaining_totals_zero:
  assumes "\<And>u. total_of diffs u - total_of updated u = deltas actions u"
    and "distinct (map fst diffs)" and "distinct (map fst updated)"
  shows "list_all (\<lambda>(_, diff). diff = 0)
     (foldl subtract_action (foldl (\<lambda>d (uid, amount). add_total uid (- amount) d) diffs updated) actions)"
proof (rule zero_totals)
  let ?f = "\<lambda>d (uid, amount). add_total uid (- amount :: int) d"
  let ?g = "\<lambda>x u. - (if u = fst x then snd x else 0) :: int"
  note upd = foldl_totals [where f = ?f and g = ?g]
  have 1: "total_of (foldl ?f diffs updated) u = total_of diffs u - total_of updated u" for u
    by (subst upd(1)) (auto simp: total_of_add sum_list_neg total_of_sum [OF assms(3)] split: prod.splits)
  have d1: "distinct (map fst (foldl ?f diffs updated))"
    by (rule upd(2)) (auto simp: total_of_add assms(2) split: prod.splits)
  note act = foldl_totals [where f = subtract_action and g = "\<lambda>a u. - action_delta a u"]
  show "total_of (foldl subtract_action (foldl ?f diffs updated) actions) u = 0" for u
    by (subst act(1)) (simp_all add: subtract_action_total 1 assms(1) sum_list_neg deltas_def)
  show "distinct (map fst (foldl subtract_action (foldl ?f diffs updated) actions))"
    by (rule act(2)) (simp_all add: subtract_action_total d1)
qed

lemma run_inv_totals: "run_inv s \<Longrightarrow> distinct (map fst (r_updated_tokens_totals s))"
  by (auto simp: run_inv_def ci_ok_def totals_ok_def)

lemma validate_balances_result:
  assumes inv: "run_inv s" and stk: "stk s = []" and tr: "traced s" and ci: "r_call_info s = Some ci"
    and calls: "ci_calls ci \<noteq> None" and net: "\<And>u. net s u = deltas (ctx_all_actions ctx) u"
  shows "validate_balances env ctx s =
     (case tracker_totals env (r_storages s) (ci_trackers ci) [] of Inl e \<Rightarrow> (Inl e, s) | Inr _ \<Rightarrow> (Inr (), s))"
proof -
  have same: "s\<lparr>r_call_info := Some ci\<rparr> = s" using ci by simp
  obtain cs where cs: "ci_calls ci = Some cs" using calls by blast
  have ok: "ci_ok (r_storages s) (r_updated_tokens_totals s) ci" using inv ci by (simp add: run_inv_def)
  have up: "map the (filter (\<lambda>a. a \<noteq> None) (map cr_index_updates cs)) = [0..<length (ci_updates ci)]"
      "\<forall>r \<in> set cs. cr_index_updates r = None \<longrightarrow> cr_type r = VIEW"
    using ok tr ci cs unfolding ci_ok_def updates_ok_def traced_def calls_of_def by simp_all
  have ct: "calls_totals (ci_updates ci) cs [] = Inr (foldl add_index_record [] (concat (ci_updates ci)))"
    unfolding calls_totals_eq [OF up(2)] up(1) map_nth ..
  have eq: "dict_eq (foldl add_index_record [] (concat (ci_updates ci))) (r_updated_tokens_totals s)"
    by (rule totals_ok_dict_eq [OF totals_ok_fold]) (use ok in \<open>simp add: ci_ok_def\<close>)
  show ?thesis
  proof (cases "tracker_totals env (r_storages s) (ci_trackers ci) []")
    case (Inl e)
    then show ?thesis by (simp add: validate_balances_def sm_simps on_call_info_def ci cs same sof_def)
  next
    case (Inr d)
    have single: "\<forall>i \<in> set (ci_trackers ci). single (r_storages s) i"
      using one_tracker_each [OF inv stk ci] unfolding single_def by blast
    have d: "total_of d u = tracked (ci_trackers ci) u" "distinct (map fst d)" for u
      using tracker_totals_sum [OF single Inr] by (auto simp: total_of_def)
    have "list_all (\<lambda>(_, diff). diff = 0) (foldl subtract_action
        (foldl (\<lambda>d (uid, amount). add_total uid (- amount) d) d (r_updated_tokens_totals s)) (ctx_all_actions ctx))"
      by (rule remaining_totals_zero [OF _ d(2) run_inv_totals [OF inv]]) (use net d(1) ci in \<open>simp add: net_def\<close>)
    then show ?thesis
      using Inr by (simp add: validate_balances_def sm_simps on_call_info_def ci cs same sof_def ct eq)
  qed
qed

lemma executed_calls:
  assumes "run_inv s" and "traced s" and "layers_of c s \<noteq> []" and "r_call_info s = Some ci"
  shows "ci_calls ci \<noteq> None"
proof -
  have "trackers_of c ci \<noteq> []" using assms(3,4) by (simp add: layers_of_def)
  moreover have "updates_ok ci" "ci_enable_call_trace ci" using assms by (auto simp: run_inv_def ci_ok_def traced_def)
  ultimately show ?thesis unfolding updates_ok_def by blast
qed

text \<open>
  C1. Tokens are conserved by every execution that returns, whatever the code of the blueprints called does: all calls
  have ended, each contract touched has one tracker, and for each token the changes of the balances of all contracts
  together are what the actions of the transaction deposit minus what they withdraw, plus what was minted minus what
  was melted or paid as fee.
\<close>

theorem execution_conserves_tokens:
  assumes "r_call_info s = Some (build_call_info trace c)" and "r_updated_tokens_totals s = []"
    and "execute_public_method_call env (run_code env MAX_RECURSION_DEPTH) c bp name ctx nc_args skip forbid s = (Inr ret, s')"
  shows "\<exists>ci. r_call_info s' = Some ci \<and> ci_stack ci = [] \<and> list_all (\<lambda>(_, ts). length ts = 1) (ci_trackers ci) \<and>
     (\<forall>u. tracked (ci_trackers ci) u = deltas (ctx_all_actions ctx) u + total_of (r_updated_tokens_totals s') u)"
proof -
  have "starting trace c s" using assms by (simp add: starting_def)
  note e = executed [OF this assms(3)]
  obtain ci where ci: "r_call_info s' = Some ci" using e(1) unfolding run_inv_def by blast
  have "list_all (\<lambda>(_, ts). length ts = 1) (ci_trackers ci)"
    unfolding list_all_iff using one_tracker_each [OF e(1,2) ci] by fastforce
  moreover have "tracked (ci_trackers ci) u = deltas (ctx_all_actions ctx) u + total_of (r_updated_tokens_totals s') u" for u
    using e(3) [of u] ci by (simp add: net_def)
  ultimately show ?thesis using ci e(2) by (simp add: stk_def)
qed

theorem execution_conserves_tokens_witness:
  "\<exists>ci. r_call_info (snd sample_execution) = Some ci \<and> ci_stack ci = [] \<and> tracked (ci_trackers ci) [7] = 3"
proof -
  obtain ret where "sample_execution = (Inr ret, snd sample_execution)" using sample_execution_returns by blast
  moreover have "r_updated_tokens_totals (snd sample_execution) = []" "deltas (ctx_all_actions sample_ctx) [7] = 3"
    by code_simp+
  ultimately show ?thesis using execution_conserves_tokens [OF sample_starts] by (fastforce simp: total_of_def)
qed

text \<open>
  C2. After an execution that returned, the validation of the balances raises no other error than the one for a
  contract whose balance would become negative: the assertions that compare the totals of the trackers, of the index
  updates and of the actions never fail.
\<close>

theorem validation_only_refuses_negative_balances:
  assumes "r_call_info s = Some (build_call_info True c)" and "r_updated_tokens_totals s = []"
    and "execute_public_method_call env (run_code env MAX_RECURSION_DEPTH) c bp name ctx nc_args skip forbid s = (Inr ret, s')"
  shows "validate_balances env ctx s' = (Inr (), s') \<or>
     (\<exists>ci d t cs e. r_call_info s' = Some ci \<and> (d, [t]) \<in> set (ci_trackers ci) \<and> dict_get (r_storages s') d = Some cs \<and>
        validate_balances_are_positive (ne_runtime env) t [] cs = Inl e \<and> validate_balances env ctx s' = (Inl e, s'))"
proof -
  have "starting True c s" using assms by (simp add: starting_def)
  note e = executed [OF this assms(3)]
  obtain ci where ci: "r_call_info s' = Some ci" using e(1) unfolding run_inv_def by blast
  have tr: "traced s'" using e(4) by simp
  have single: "\<forall>i \<in> set (ci_trackers ci). single (r_storages s') i"
    using one_tracker_each [OF e(1,2) ci] unfolding single_def by blast
  note v = validate_balances_result [OF e(1,2) tr ci executed_calls [OF e(1) tr e(5) ci] e(3), of env]
  show ?thesis
  proof (cases "tracker_totals env (r_storages s') (ci_trackers ci) []")
    case (Inl err)
    then show ?thesis using v tracker_totals_error [OF single Inl] ci by fastforce
  next
    case (Inr d)
    then show ?thesis using v by simp
  qed
qed

theorem validation_only_refuses_negative_balances_witness:
  "validate_balances sample_env sample_ctx (snd sample_execution) = (Inr (), snd sample_execution)"
proof -
  obtain ret where "sample_execution = (Inr ret, snd sample_execution)" using sample_execution_returns by blast
  moreover have "fst (validate_balances sample_env sample_ctx (snd sample_execution)) = Inr ()" by code_simp
  ultimately show ?thesis
    using validation_only_refuses_negative_balances [OF sample_starts] by (metis Inl_Inr_False fst_conv)
qed

section \<open>The end of an execution\<close>

text \<open>Code after which the state is still such that the trackers can be blocked.\<close>

definition stays_live :: "(runner, 'a) sm \<Rightarrow> bool" where
  "stays_live m \<longleftrightarrow> (\<forall>s r s'. live s \<longrightarrow> m s = (r, s') \<longrightarrow> live s')"

named_theorems staying \<open>code that stays in a live state\<close>

lemma stays_live_sbind [staying]: "stays_live m \<Longrightarrow> (\<And>x. stays_live (f x)) \<Longrightarrow> stays_live (sbind m f)"
  unfolding stays_live_def
proof (intro allI impI)
  fix s r s'
  assume m: "\<forall>s r s'. live s \<longrightarrow> m s = (r, s') \<longrightarrow> live s'" and f: "\<And>x. \<forall>s r s'. live s \<longrightarrow> f x s = (r, s') \<longrightarrow> live s'"
    and s: "live s" "sbind m f s = (r, s')"
  obtain r1 s1 where 1: "m s = (r1, s1)" by fastforce
  then have "live s1" using m s(1) by blast
  then show "live s'" using f s(2) 1 by (cases r1) (auto simp: sm_simps)
qed

lemma stays_live_sthen [staying]: "stays_live m \<Longrightarrow> stays_live n \<Longrightarrow> stays_live (sthen m n)"
  unfolding sthen_def by (rule stays_live_sbind)

lemma stays_live_same [staying]: "(\<And>s. snd (m s) = s) \<Longrightarrow> stays_live m"
  unfolding stays_live_def by (metis snd_conv)

lemma stays_live_sfor [staying]: "(\<And>x. stays_live (f x)) \<Longrightarrow> stays_live (sfor xs f)"
proof (induction xs)
  case Nil
  then show ?case by (auto intro: stays_live_same simp: sm_simps)
next
  case (Cons x xs)
  then show ?case by (auto intro: staying)
qed

lemma stays_live_sget_info: "stays_live (on_call_info (sget f))"
  by (rule stays_live_same) (simp add: on_call_info_def sm_simps split: option.splits)

lemma stays_live_on_block: "stays_live (on_block f)"
  unfolding stays_live_def on_block_def live_def by (auto split: prod.splits)

text \<open>Code on a storage object that blocks no tracker.\<close>

definition blocks_none :: "(nc_chain, 'a) sm \<Rightarrow> bool" where
  "blocks_none f \<longleftrightarrow>
     (\<forall>ch r ch'. f ch = (r, ch') \<longrightarrow> (\<forall>t \<in> set (ch_layers ch). \<not> ct_blocked t) \<longrightarrow> (\<forall>t \<in> set (ch_layers ch'). \<not> ct_blocked t))"

lemma stays_live_on_storage:
  assumes "blocks_none f"
  shows "stays_live (on_storage c n f)"
  unfolding stays_live_def
proof (intro allI impI)
  fix s r s'
  assume live: "live s" and run: "on_storage c n f s = (r, s')"
  obtain ci where ci: "r_call_info s = Some ci" and un: "unblocked (ci_trackers ci)"
    using live unfolding live_def by blast
  have ts: "\<forall>t \<in> set (trackers_of c ci). \<not> ct_blocked t"
    using unblocked_get [OF un, of c] by (cases "dict_get (ci_trackers ci) c") (auto simp: trackers_of_def)
  show "live s'"
  proof (cases "dict_get (r_storages s) c")
    case None
    then show ?thesis using run live by (simp add: on_storage_def)
  next
    case (Some cs)
    let ?k = "length (trackers_of c ci) - n"
    let ?ch = "\<lparr>ch_layers = drop ?k (trackers_of c ci), ch_base = cs, ch_block = r_block s\<rparr>"
    obtain ch' where f: "f ?ch = (r, ch')" and s': "s' = put_chain c (take ?k (trackers_of c ci)) ch' s"
      using run by (auto simp: on_storage_def Some Let_def layers_of_def ci split: prod.splits)
    have "\<forall>t \<in> set (ch_layers ch'). \<not> ct_blocked t"
      using assms f ts unfolding blocks_none_def by (metis in_set_dropD nc_chain.select_convs(1))
    then have "\<forall>t \<in> set (take ?k (trackers_of c ci) @ ch_layers ch'). \<not> ct_blocked t"
      using ts by (auto dest: in_set_takeD)
    then have "unblocked (dict_put c (take ?k (trackers_of c ci) @ ch_layers ch') (ci_trackers ci))"
      using unblocked_put [OF un] by blast
    then show ?thesis using live ci un by (simp add: s' put_chain_def live_def)
  qed
qed

lemma blocks_none_base: "blocks_none (on_base f)" "blocks_none (sget g)" "blocks_none (sret x)" "blocks_none (sraise e)"
  by (auto simp: blocks_none_def on_base_def sm_simps)

lemma blocks_none_sbind:
  assumes "blocks_none m" and "\<And>x. blocks_none (f x)"
  shows "blocks_none (sbind m f)"
  unfolding blocks_none_def
proof (intro allI impI)
  fix ch r ch'
  assume run: "sbind m f ch = (r, ch')" and un: "\<forall>t \<in> set (ch_layers ch). \<not> ct_blocked t"
  obtain r1 ch1 where 1: "m ch = (r1, ch1)" by fastforce
  then have un1: "\<forall>t \<in> set (ch_layers ch1). \<not> ct_blocked t" using assms(1) un unfolding blocks_none_def by blast
  show "\<forall>t \<in> set (ch_layers ch'). \<not> ct_blocked t"
  proof (cases r1)
    case (Inl e)
    then show ?thesis using run 1 un1 by (simp add: sm_simps)
  next
    case (Inr x)
    then have "f x ch1 = (r, ch')" using run 1 by (simp add: sm_simps)
    then show ?thesis using assms(2) un1 unfolding blocks_none_def by blast
  qed
qed

lemma blocks_none_sthen: "blocks_none m \<Longrightarrow> blocks_none n \<Longrightarrow> blocks_none (sthen m n)"
  unfolding sthen_def by (rule blocks_none_sbind)

lemma blocks_none_sfor: "(\<And>x. blocks_none (f x)) \<Longrightarrow> blocks_none (sfor xs f)"
proof (induction xs)
  case Nil
  then show ?case by (simp add: blocks_none_base)
next
  case (Cons x xs)
  then show ?case by (auto intro: blocks_none_sthen)
qed

lemma blocks_none_newest:
  assumes "on_newest \<delta> f" and "\<And>ch r ch'. ch_layers ch = [] \<Longrightarrow> f ch = (r, ch') \<Longrightarrow> ch_layers ch' = []"
  shows "blocks_none f"
  unfolding blocks_none_def
proof (intro allI impI)
  fix ch r ch'
  assume run: "f ch = (r, ch')" and un: "\<forall>t \<in> set (ch_layers ch). \<not> ct_blocked t"
  show "\<forall>t \<in> set (ch_layers ch'). \<not> ct_blocked t"
  proof (cases "ch_layers ch")
    case Nil
    then show ?thesis using assms(2) [OF Nil run] by simp
  next
    case (Cons t ts)
    then show ?thesis using on_newestD [OF assms(1) Cons run] un by (auto simp: tr_weak_def)
  qed
qed

lemma blocks_none_methods:
  "blocks_none (m_put_obj (chain_methods rt) k nt v)" "blocks_none (m_del_obj (chain_methods rt) k)"
  "blocks_none (m_add_balance (chain_methods rt) tok n)" "blocks_none (m_grant_authorities (chain_methods rt) tok a b)"
  "blocks_none (m_revoke_authorities (chain_methods rt) tok a b)" "blocks_none (m_set_blueprint_id (chain_methods rt) bp)"
  "blocks_none (m_create_token (chain_methods rt) td)"
  by (rule blocks_none_newest, rule newest,
      (auto simp: chain_methods_def ch_on_top_def ch_create_token_def bs_create_token_def sm_simps
         split: prod.splits sum.splits if_splits) [1])+

lemma blocks_none_flush: "blocks_none (flush_tracker (chain_methods rt) t)"
  unfolding flush_tracker_def
  by (intro blocks_none_sthen blocks_none_sfor)
    (auto simp: flush_data_def flush_authorities_def split: option.splits prod.splits
      intro!: blocks_none_methods blocks_none_base blocks_none_sthen)

lemma blocks_none_commit: "blocks_none (ch_commit rt)"
  unfolding blocks_none_def
proof (intro allI impI)
  fix ch r ch'
  assume run: "ch_commit rt ch = (r, ch')" and un: "\<forall>t \<in> set (ch_layers ch). \<not> ct_blocked t"
  show "\<forall>t \<in> set (ch_layers ch'). \<not> ct_blocked t"
  proof (cases "ch_layers ch")
    case Nil
    then show ?thesis using run by (auto simp: ch_commit_def split: prod.splits)
  next
    case (Cons t ts)
    obtain r1 b where fl: "flush_tracker (chain_methods rt) t (ch\<lparr>ch_layers := ts\<rparr>) = (r1, b)" by fastforce
    have "\<forall>t \<in> set (ch_layers b). \<not> ct_blocked t"
      using blocks_none_flush fl un Cons unfolding blocks_none_def by fastforce
    moreover have "\<not> ct_blocked t" using un Cons by simp
    ultimately show ?thesis
      using run un by (cases "fst (ct_check_if_locked t)"; cases r1) (auto simp: ch_commit_def Cons fl)
  qed
qed

lemma stays_live_commit: "stays_live (commit_all_changes_to_storage env)"
  unfolding commit_all_changes_to_storage_def commit_changes_of_def
  by (intro stays_live_sbind stays_live_sthen stays_live_sfor stays_live_sget_info stays_live_on_storage stays_live_on_block
      blocks_none_base blocks_none_commit stays_live_same) (simp add: sm_simps)

lemma block_trackers_ok: "\<forall>t \<in> set ts. \<not> ct_blocked t \<Longrightarrow> \<exists>ts'. block_trackers ts = (Inr (), ts')"
proof (induction ts)
  case (Cons t ts)
  then obtain ts' where "block_trackers ts = (Inr (), ts')" by auto
  then show ?case using Cons.prems by (auto simp: ct_block_def ct_check_if_locked_def sm_simps)
qed simp

lemma block_all_trackers_ok: "unblocked d \<Longrightarrow> \<exists>d'. block_all_trackers d = (Inr (), d')"
proof (induction d)
  case (Cons i d)
  then have "unblocked d" "\<forall>t \<in> set (snd i). \<not> ct_blocked t" by (simp_all add: unblocked_def)
  then show ?case using Cons.IH block_trackers_ok by fastforce
qed simp

definition ended :: "runner \<Rightarrow> runner \<Rightarrow> bool" where
  "ended s s' \<longleftrightarrow>
     (\<exists>ci. s' = s\<lparr>r_last_call_info := Some ci, r_call_info := None\<rparr> \<and>
        length (ci_stack ci) \<le> MAX_RECURSION_DEPTH \<and> ci_call_counter ci \<le> MAX_CALL_COUNTER)"

lemma reset_result:
  assumes "live s"
  shows "\<exists>s'. reset_all_change_trackers s = (Inr (), s') \<and> ended s s'"
proof -
  obtain ci where ci: "r_call_info s = Some ci" "unblocked (ci_trackers ci)" and b: "length (ci_stack ci) \<le> MAX_RECURSION_DEPTH"
      "ci_call_counter ci \<le> MAX_CALL_COUNTER"
    using assms unfolding live_def by blast
  obtain d where d: "block_all_trackers (ci_trackers ci) = (Inr (), d)" using block_all_trackers_ok [OF ci(2)] by blast
  have "reset_all_change_trackers s = (Inr (), s\<lparr>r_last_call_info := Some (ci\<lparr>ci_trackers := d\<rparr>), r_call_info := None\<rparr>)"
    by (simp add: reset_all_change_trackers_def sm_simps on_call_info_def ci d)
  then show ?thesis using b unfolding ended_def by auto
qed

lemma sfinally_reset:
  assumes "m s = (r, s1)" and "live s1"
  shows "\<exists>s'. sfinally m reset_all_change_trackers s = (r, s') \<and> ended s1 s'"
  using reset_result [OF assms(2)] assms(1) by (auto simp: sfinally_def)

definition public_execution ::
    "nc_env \<Rightarrow> bytes \<Rightarrow> ustring \<Rightarrow> nc_context \<Rightarrow> nc_args \<Rightarrow> (runner, nc_value) sm" where
  "public_execution env contract_id method_name ctx nc_args =
     sbind (has_contract_been_initialized contract_id) (\<lambda>init.
     sthen (sguard init NCUninitializedContractError)
     (sthen (smod (\<lambda>s. s\<lparr>r_metered_executor := True\<rparr>))
     (sbind (get_blueprint_id env contract_id) (\<lambda>blueprint_id.
        execute_public_method_call env (run_code env MAX_RECURSION_DEPTH) contract_id blueprint_id method_name
               ctx nc_args False False))))"

definition public_end :: "nc_env \<Rightarrow> nc_context \<Rightarrow> (runner, unit) sm" where
  "public_end env ctx =
     sthen (commit_all_changes_to_storage env)
       (smod (\<lambda>s. s\<lparr>r_updated_tokens_totals := [], r_paid_actions_fees := []\<rparr>))"

lemma unsafe_call_public_eq:
  assumes "r_call_info s = None"
  shows "unsafe_call_public_method env c name ctx nc_args s =
     sbind (public_execution env c name ctx nc_args) (\<lambda>ret. sthen (validate_balances env ctx) (sthen (public_end env ctx) (sret ret)))
       (s\<lparr>r_call_info := Some (build_call_info (r_enable_call_trace s) c)\<rparr>)"
proof -
  have "unsafe_call_public_method env c name ctx nc_args =
      sbind (sget (\<lambda>s. r_call_info s = None)) (\<lambda>idle. sthen (sassert idle)
        (sthen (smod (\<lambda>s. s\<lparr>r_call_info := Some (build_call_info (r_enable_call_trace s) c)\<rparr>))
          (sbind (public_execution env c name ctx nc_args) (\<lambda>ret.
             sthen (validate_balances env ctx) (sthen (public_end env ctx) (sret ret))))))"
    by (simp only: unsafe_call_public_method_def public_execution_def public_end_def sthen_def sbind_assoc)
  then show ?thesis using assms by (simp add: sm_simps)
qed

lemma keeps_public_execution:
  "keeps [] (deltas (ctx_all_actions ctx)) (public_execution env c name ctx nc_args)"
  unfolding public_execution_def
  by (intro keeps_seq keeps_initialized keeps_pure keeps_smods(3) keeps_get_blueprint_id
      keeps_execute_public [OF runs_ok_run_code])

lemma validate_balances_same: "snd (validate_balances env ctx s) = s"
  by (auto simp: validate_balances_def sm_simps on_call_info_def sof_def split: option.splits sum.splits)

lemma stays_live_public_end: "stays_live (public_end env ctx)"
  unfolding public_end_def
  by (intro stays_live_sthen stays_live_commit) (simp add: stays_live_def sm_simps live_def)

text \<open>What the contracts look like from outside: their roots in the block storage, and the storages already loaded.\<close>

definition contracts_kept :: "runner \<Rightarrow> runner \<Rightarrow> bool" where
  "contracts_kept s s' \<longleftrightarrow>
     bs_trie (r_block s') = bs_trie (r_block s) \<and>
     (\<forall>c cs. dict_get (r_storages s) c = Some cs \<longrightarrow> dict_get (r_storages s') c = Some cs)"

lemma unsafe_call_public_result:
  assumes "r_call_info s = None" and "r_updated_tokens_totals s = []" and "unsafe_call_public_method env c name ctx nc_args s = (r, s')"
  shows "live s' \<and> (\<forall>e. r = Inl e \<longrightarrow> contracts_kept s s' \<or>
     (\<exists>s1 s2. contracts_kept s s1 \<and> validate_balances env ctx s1 = (Inr (), s1) \<and>
        commit_all_changes_to_storage env s1 = (Inl e, s2)))"
proof -
  let ?s = "s\<lparr>r_call_info := Some (build_call_info (r_enable_call_trace s) c)\<rparr>"
  have "starting (r_enable_call_trace s) c ?s" using assms(2) by (simp add: starting_def)
  note st = starting_inv [OF this]
  obtain r1 s1 where 1: "public_execution env c name ctx nc_args ?s = (r1, s1)" by fastforce
  note k = keepsD [OF keeps_public_execution st(1,2) 1]
  have kept: "contracts_kept s s1" using k(2) by (simp add: isolated_def contracts_kept_def)
  have run: "sbind (public_execution env c name ctx nc_args) (\<lambda>ret. sthen (validate_balances env ctx) (sthen (public_end env ctx) (sret ret))) ?s = (r, s')"
    using assms(3) unfolding unsafe_call_public_eq [OF assms(1)] .
  show ?thesis
  proof (cases r1)
    case (Inl e)
    then show ?thesis using run 1 k(1) kept by (auto simp: sm_simps)
  next
    case (Inr ret)
    obtain r2 where v: "validate_balances env ctx s1 = (r2, s1)" using validate_balances_same by (metis prod.collapse)
    show ?thesis
    proof (cases r2)
      case (Inl e)
      then show ?thesis using run 1 Inr v k(1) kept by (auto simp: sm_simps)
    next
      case Inr2: (Inr u)
      obtain r3 s3 where e: "public_end env ctx s1 = (r3, s3)" by fastforce
      have "live s3" using stays_live_public_end k(1) e unfolding stays_live_def by blast
      moreover have "r = (case r3 of Inl e \<Rightarrow> Inl e | Inr _ \<Rightarrow> Inr ret)" "s' = s3"
        using run 1 Inr v Inr2 e by (auto simp: sm_simps split: sum.splits)
      moreover have "\<exists>s2. commit_all_changes_to_storage env s1 = (Inl err, s2)" if "r3 = Inl err" for err
        using e that by (auto simp: public_end_def sm_simps split: prod.splits sum.splits)
      ultimately show ?thesis using kept v Inr2 by (auto split: sum.splits)
    qed
  qed
qed



text \<open>
  C5. A view call from outside changes no contract, whether it returns or raises, and leaves the runner idle.
\<close>

theorem view_call_leaves_contracts:
  assumes "r_call_info s = None" and "r_updated_tokens_totals s = []" and "call_view_method env c name args kwargs s = (r, s')"
  shows "r_call_info s' = None \<and> contracts_kept s s'"
proof -
  let ?s = "s\<lparr>r_call_info := Some (build_call_info (r_enable_call_trace s) c)\<rparr>"
  let ?m = "sbind (get_blueprint_id env c) (\<lambda>bp. unsafe_call_view_method env (run_code env MAX_RECURSION_DEPTH) c bp name args kwargs)"
  have "starting (r_enable_call_trace s) c ?s" using assms(2) by (simp add: starting_def)
  note st = starting_inv [OF this]
  obtain r1 s1 where 1: "?m ?s = (r1, s1)" by fastforce
  have "keeps [] (\<lambda>_. 0) ?m" by (intro keeps_seq keeps_get_blueprint_id keeps_view_call [OF runs_ok_run_code])
  note k = keepsD [OF this st(1,2) 1]
  obtain s2 where 2: "sfinally ?m reset_all_change_trackers ?s = (r1, s2)" "ended s1 s2"
    using sfinally_reset [of ?m, OF 1 k(1)] by blast
  have "s' = s2" using assms(1,3) 2(1) by (simp add: call_view_method_def sm_simps)
  then show ?thesis using 2(2) k(2) by (auto simp: ended_def contracts_kept_def isolated_def)
qed

theorem view_call_leaves_contracts_witness:
  "contracts_kept sample_runner (snd (call_view_method sample_env [1] (ustr ''see'') [] [] sample_runner)) \<and>
   \<not> isl (fst (call_view_method sample_env [1] (ustr ''see'') [] [] sample_runner))"
proof
  show "\<not> isl (fst (call_view_method sample_env [1] (ustr ''see'') [] [] sample_runner))" by code_simp
qed (use view_call_leaves_contracts [OF sample_idle prod.collapse [symmetric]] in blast)




end
