(* ===== verification/Nano_Header.thy ===== *)
theory Nano_Header
  imports NC_Program
begin

text \<open>
  The nano header of a transaction (\<^verbatim>\<open>hathor/transaction/headers/nano_header.py\<close>): its bytes, its actions and
  the context it gives to the call.
\<close>

section \<open>The header\<close>

record nano_header_action =
  na_type :: nc_action_type
  na_token_index :: int
  na_amount :: int

record nano_header =
  nh_seqnum :: int
  nh_id :: bytes
  nh_method :: ustring
  nh_args_bytes :: bytes
  nh_actions :: "nano_header_action list"
  nh_address :: bytes
  nh_script :: bytes

abbreviation ADDRESS_LEN_BYTES :: nat where "ADDRESS_LEN_BYTES \<equiv> 25"
abbreviation NC_SCRIPT_LEN_MAX_BYTES :: nat where "NC_SCRIPT_LEN_MAX_BYTES \<equiv> 2"
abbreviation NANO_HEADER_ID :: bytes where "NANO_HEADER_ID \<equiv> [16]"

text \<open>\<open>exc + 'a\<close> in sequence.\<close>

definition ebind :: "exc + 'a \<Rightarrow> ('a \<Rightarrow> exc + 'b) \<Rightarrow> exc + 'b" where
  "ebind m f = (case m of Inl e \<Rightarrow> Inl e | Inr x \<Rightarrow> f x)"

lemma ebind_simps [simp]: "ebind (Inl e) f = Inl e" "ebind (Inr x) f = f x"
  by (simp_all add: ebind_def)

lemma ebind_Inr: "ebind m f = Inr y \<longleftrightarrow> (\<exists>x. m = Inr x \<and> f x = Inr y)"
  by (cases m) simp_all

section \<open>Bytes\<close>

text \<open>Helpers of \<^verbatim>\<open>hathor/transaction/util.py\<close>. \<open>unpack_len\<close> takes what is there when the buffer is too short.\<close>

definition unpack_uint :: "nat \<Rightarrow> bytes \<Rightarrow> exc + int \<times> bytes" where
  "unpack_uint n buf =
     (if length buf < n then Inl StructError else Inr (int_from_bytes (take n buf) False, drop n buf))"

definition unpack_len :: "nat \<Rightarrow> bytes \<Rightarrow> bytes \<times> bytes" where
  "unpack_len n buf = (take n buf, drop n buf)"

definition output_value_to_bytes :: "int \<Rightarrow> exc + bytes" where
  "output_value_to_bytes number =
     (case encode_output_value number True build_bytes_serializer of
        (Inl e, _) \<Rightarrow> Inl (if e = ValueError then InvalidOutputValue else e)
      | (Inr _, s) \<Rightarrow> Inr (ser_finalize s))"

definition bytes_to_output_value :: "bytes \<Rightarrow> exc + int \<times> bytes" where
  "bytes_to_output_value data =
     (case decode_output_value True (build_bytes_deserializer data) of
        (Inl e, _) \<Rightarrow> Inl (if e = BadDataError then InvalidOutputValue else e)
      | (Inr v, d) \<Rightarrow> (case read_all d of (Inl e, _) \<Rightarrow> Inl e | (Inr rest, _) \<Rightarrow> Inr (v, rest)))"

text \<open>\<^verbatim>\<open>encode('ascii')\<close> and \<^verbatim>\<open>decode('ascii')\<close>; the Unicode errors are subclasses of \<open>ValueError\<close>.\<close>

definition ascii_encode :: "ustring \<Rightarrow> exc + bytes" where
  "ascii_encode s = (if list_all (\<lambda>c. c < 128) s then Inr (map of_nat s) else Inl ValueError)"

definition ascii_decode :: "bytes \<Rightarrow> exc + ustring" where
  "ascii_decode b = (if list_all (\<lambda>c. unat c < 128) b then Inr (map unat b) else Inl ValueError)"

definition serialize_action :: "nano_header_action \<Rightarrow> exc + bytes" where
  "serialize_action action =
     ebind (int_to_bytes (na_token_index action) 1 False) (\<lambda>index.
     ebind (output_value_to_bytes (na_amount action)) (\<lambda>amount.
       Inr (nc_action_type_to_bytes (na_type action) @ index @ amount)))"

primrec serialize_actions :: "nano_header_action list \<Rightarrow> exc + bytes" where
  "serialize_actions [] = Inr []"
| "serialize_actions (a # as) =
     ebind (serialize_action a) (\<lambda>b. ebind (serialize_actions as) (\<lambda>bs. Inr (b @ bs)))"

definition header_serialize :: "bool \<Rightarrow> nano_header \<Rightarrow> exc + bytes" where
  "header_serialize skip_signature h =
     ebind (ascii_encode (nh_method h)) (\<lambda>encoded_method.
     ebind (leb128_encode False (nh_seqnum h) (Some ADDRESS_SEQNUM_SIZE)) (\<lambda>seqnum.
     ebind (int_to_bytes (int (length encoded_method)) 1 False) (\<lambda>method_len.
     ebind (int_to_bytes (int (length (nh_args_bytes h))) 2 False) (\<lambda>args_len.
     ebind (int_to_bytes (int (length (nh_actions h))) 1 False) (\<lambda>actions_len.
     ebind (serialize_actions (nh_actions h)) (\<lambda>actions.
     ebind (leb128_encode False (if skip_signature then 0 else int (length (nh_script h)))
              (Some NC_SCRIPT_LEN_MAX_BYTES)) (\<lambda>script_len.
       Inr (NANO_HEADER_ID @ nh_id h @ seqnum @ method_len @ encoded_method @ args_len @ nh_args_bytes h @
            actions_len @ actions @ nh_address h @ script_len @ (if skip_signature then [] else nh_script h)))))))))"

definition deserialize_action :: "bytes \<Rightarrow> exc + nano_header_action \<times> bytes" where
  "deserialize_action buf =
     ebind (nc_action_type_from_bytes (take 1 buf)) (\<lambda>action_type.
     ebind (unpack_uint 1 (drop 1 buf)) (\<lambda>(token_index, buf).
     ebind (bytes_to_output_value buf) (\<lambda>(amount, buf).
       Inr (\<lparr>na_type = action_type, na_token_index = token_index, na_amount = amount\<rparr>, buf))))"

primrec deserialize_actions :: "nat \<Rightarrow> bytes \<Rightarrow> exc + nano_header_action list \<times> bytes" where
  "deserialize_actions 0 buf = Inr ([], buf)"
| "deserialize_actions (Suc n) buf =
     ebind (deserialize_action buf) (\<lambda>(action, buf).
     ebind (deserialize_actions n buf) (\<lambda>(actions, buf). Inr (action # actions, buf)))"

definition header_deserialize :: "bytes \<Rightarrow> exc + nano_header \<times> bytes" where
  "header_deserialize buf =
     ebind (if take 1 buf = NANO_HEADER_ID then Inr (drop 1 buf) else Inl AssertionError) (\<lambda>buf.
     let (nc_id, buf) = unpack_len 32 buf in
     ebind (leb128_decode False buf (Some ADDRESS_SEQNUM_SIZE)) (\<lambda>(nc_seqnum, buf).
     ebind (unpack_uint 1 buf) (\<lambda>(nc_method_len, buf).
     let (nc_method, buf) = unpack_len (nat nc_method_len) buf in
     ebind (unpack_uint 2 buf) (\<lambda>(nc_args_bytes_len, buf).
     let (nc_args_bytes, buf) = unpack_len (nat nc_args_bytes_len) buf in
     ebind (unpack_uint 1 buf) (\<lambda>(nc_actions_len, buf).
     ebind (deserialize_actions (nat nc_actions_len) buf) (\<lambda>(nc_actions, buf).
     let (nc_address, buf) = unpack_len ADDRESS_LEN_BYTES buf in
     ebind (leb128_decode False buf (Some NC_SCRIPT_LEN_MAX_BYTES)) (\<lambda>(nc_script_len, buf).
     let (nc_script, buf) = unpack_len (nat nc_script_len) buf in
     ebind (ascii_decode nc_method) (\<lambda>decoded_nc_method.
       Inr (\<lparr>nh_seqnum = nc_seqnum, nh_id = nc_id, nh_method = decoded_nc_method, nh_args_bytes = nc_args_bytes,
             nh_actions = nc_actions, nh_address = nc_address, nh_script = nc_script\<rparr>, buf)))))))))"

section \<open>Actions and context\<close>

text \<open>\<open>Transaction.get_token_uid\<close>; \<open>tokens\<close> is the token list of the transaction.\<close>

definition get_token_uid :: "bytes list \<Rightarrow> int \<Rightarrow> exc + bytes" where
  "get_token_uid tokens index =
     (if index = 0 then Inr HATHOR_TOKEN_UID
      else if 0 < index \<and> index \<le> int (length tokens) then Inr (tokens ! nat (index - 1))
      else Inl IndexError)"

definition to_nc_action :: "bytes list \<Rightarrow> nano_header_action \<Rightarrow> exc + nc_action" where
  "to_nc_action tokens action =
     (case get_token_uid tokens (na_token_index action) of
        Inl e \<Rightarrow> Inl (if e = IndexError then NCInvalidAction else e)
      | Inr token_uid \<Rightarrow>
          let mint = na_amount action mod 2 = 1; melt = na_amount action div 2 mod 2 = 1 in
          case na_type action of
            DEPOSIT_ACTION \<Rightarrow> Inr (NCDepositAction token_uid (na_amount action))
          | WITHDRAWAL_ACTION \<Rightarrow> Inr (NCWithdrawalAction token_uid (na_amount action))
          | GRANT_AUTHORITY_ACTION \<Rightarrow>
              if 3 < na_amount action then Inl NCInvalidAction else new_grant_authority_action token_uid mint melt
          | ACQUIRE_AUTHORITY_ACTION \<Rightarrow>
              if 3 < na_amount action then Inl NCInvalidAction else new_acquire_authority_action token_uid mint melt)"

primrec get_actions :: "bytes list \<Rightarrow> nano_header_action list \<Rightarrow> exc + nc_action list" where
  "get_actions tokens [] = Inr []"
| "get_actions tokens (a # as) =
     ebind (to_nc_action tokens a) (\<lambda>x. ebind (get_actions tokens as) (\<lambda>xs. Inr (x # xs)))"

definition is_creating_a_new_contract :: "nano_header \<Rightarrow> bool" where
  "is_creating_a_new_contract h \<longleftrightarrow> nh_method h = NC_INITIALIZE_METHOD"

definition header_contract_id :: "bytes \<Rightarrow> nano_header \<Rightarrow> bytes" where
  "header_contract_id tx_hash h = (if nh_method h = NC_INITIALIZE_METHOD then tx_hash else nh_id h)"

definition header_get_context :: "bytes list \<Rightarrow> nat \<Rightarrow> nat option \<Rightarrow> nano_header \<Rightarrow> exc + nc_context" where
  "header_get_context tokens vertex first_block h =
     ebind (get_actions tokens (nh_actions h)) (create_from_vertex (AddressCaller (nh_address h)) vertex first_block)"

section \<open>Round trip\<close>

lemma unpack_uint_be:
  assumes "int_to_bytes v n False = Inr b"
  shows "unpack_uint n (b @ rest) = Inr (v, rest)"
  using assms by (auto simp: unpack_uint_def int_to_bytes_def int_from_bytes_be_bytes split: if_splits)

lemma output_value_front:
  assumes "output_value_to_bytes v = Inr b"
  shows "bytes_to_output_value (b @ rest) = Inr (v, rest)"
proof -
  obtain u s where "encode_output_value v True build_bytes_serializer = (Inr u, s)" and b: "b = ser_finalize s"
    using assms by (auto simp: output_value_to_bytes_def split: prod.splits sum.splits)
  then have "decode_output_value True (build_bytes_deserializer (b @ rest)) = (Inr v, build_bytes_deserializer rest)"
    using reads_back_front [OF output_value_round_trip] by blast
  then show ?thesis
    by (simp add: bytes_to_output_value_def read_all_def build_bytes_deserializer_def sm_simps)
qed

lemma action_type_front:
  "\<exists>b. nc_action_type_to_bytes t = [b] \<and> nc_action_type_from_bytes [b] = Inr t"
  by (cases t) (simp_all add: nc_action_type_from_bytes_def bytes_to_int_def)

lemma action_round_trip:
  assumes "serialize_action a = Inr b"
  shows "deserialize_action (b @ rest) = Inr (a, rest)"
proof -
  obtain index amount where 1: "int_to_bytes (na_token_index a) 1 False = Inr index"
      and 2: "output_value_to_bytes (na_amount a) = Inr amount"
      and b: "b = nc_action_type_to_bytes (na_type a) @ index @ amount"
    using assms by (auto simp: serialize_action_def ebind_Inr)
  obtain c where "nc_action_type_to_bytes (na_type a) = [c]" "nc_action_type_from_bytes [c] = Inr (na_type a)"
    using action_type_front by blast
  then show ?thesis
    by (simp add: b deserialize_action_def unpack_uint_be [OF 1, simplified] output_value_front [OF 2])
qed

lemma actions_round_trip:
  "serialize_actions as = Inr b \<Longrightarrow> deserialize_actions (length as) (b @ rest) = Inr (as, rest)"
proof (induction as arbitrary: b)
  case (Cons a as)
  then obtain b1 b2 where "serialize_action a = Inr b1" "serialize_actions as = Inr b2" "b = b1 @ b2"
    by (auto simp: ebind_Inr)
  then show ?case using Cons.IH by (simp add: action_round_trip)
qed simp

lemma ascii_round_trip:
  assumes "ascii_encode s = Inr b"
  shows "ascii_decode b = Inr s" and "length b = length s"
proof -
  have s: "list_all (\<lambda>c. c < 128) s" and b: "b = map of_nat s"
    using assms by (auto simp: ascii_encode_def split: if_splits)
  from s have "list_all (\<lambda>c. unat c < 128) (map of_nat s :: bytes) \<and> map unat (map of_nat s :: bytes) = s"
    by (induction s) simp_all
  then show "ascii_decode b = Inr s" by (simp add: ascii_decode_def b)
  show "length b = length s" by (simp add: b)
qed

lemma unpack_len_front: "length b = n \<Longrightarrow> unpack_len n (b @ rest) = (b, rest)"
  by (simp add: unpack_len_def)

text \<open>
  C36. A header that can be serialized is read back from its bytes, with everything behind them left over, when
  its contract id has 32 and its address 25 bytes.
\<close>

theorem header_round_trip:
  assumes "length (nh_id h) = 32" and "length (nh_address h) = ADDRESS_LEN_BYTES"
    and "header_serialize False h = Inr data"
  shows "header_deserialize (data @ rest) = Inr (h, rest)"
proof -
  obtain m seqnum mlen alen clen acts slen where
      1: "ascii_encode (nh_method h) = Inr m"
    and 2: "leb128_encode False (nh_seqnum h) (Some ADDRESS_SEQNUM_SIZE) = Inr seqnum"
    and 3: "int_to_bytes (int (length m)) 1 False = Inr mlen"
    and 4: "int_to_bytes (int (length (nh_args_bytes h))) 2 False = Inr alen"
    and 5: "int_to_bytes (int (length (nh_actions h))) 1 False = Inr clen"
    and 6: "serialize_actions (nh_actions h) = Inr acts"
    and 7: "leb128_encode False (int (length (nh_script h))) (Some NC_SCRIPT_LEN_MAX_BYTES) = Inr slen"
    and data: "data = NANO_HEADER_ID @ nh_id h @ seqnum @ mlen @ m @ alen @ nh_args_bytes h @ clen @ acts @
                 nh_address h @ slen @ nh_script h"
    using assms(3) by (auto simp: header_serialize_def ebind_Inr)
  show ?thesis
    by (simp add: header_deserialize_def data unpack_len_front [OF assms(1)] leb128_decode_data [OF 2]
        unpack_uint_be [OF 3, simplified] unpack_uint_be [OF 4] unpack_uint_be [OF 5, simplified] unpack_len_front
        actions_round_trip [OF 6] unpack_len_front [OF assms(2)] leb128_decode_data [OF 7] ascii_round_trip [OF 1])
qed

definition sample_header :: nano_header where
  "sample_header =
     \<lparr>nh_seqnum = 3, nh_id = replicate 32 7, nh_method = ustr ''deposit'', nh_args_bytes = [1, 2],
      nh_actions = [\<lparr>na_type = DEPOSIT_ACTION, na_token_index = 0, na_amount = 300\<rparr>],
      nh_address = replicate 25 9, nh_script = [5]\<rparr>"

theorem header_round_trip_witness:
  "\<exists>data. header_serialize False sample_header = Inr data \<and> header_deserialize (data @ [77]) = Inr (sample_header, [77])"
proof -
  have "\<not> isl (header_serialize False sample_header)" by code_simp
  then obtain data where data: "header_serialize False sample_header = Inr data"
    by (cases "header_serialize False sample_header") simp_all
  have "header_deserialize (data @ [77]) = Inr (sample_header, [77])"
    by (rule header_round_trip [OF _ _ data]) (simp_all add: sample_header_def)
  with data show ?thesis by blast
qed

section \<open>Authorities\<close>

text \<open>
  C37. An authority action that comes out of the bytes of a header names at least one authority: the amount is
  decoded strictly, so it is not 0, and it is at most 3. The index update records that refuse an update of no
  authority are therefore always constructed.
\<close>

theorem header_authorities_nonempty:
  assumes "deserialize_action buf = Inr (a, buf')" and "to_nc_action tokens a = Inr action"
  shows "case action of
           NCGrantAuthorityAction uid mint melt \<Rightarrow>
             new_record (UpdateAuthoritiesRecord GRANT_AUTHORITIES uid mint melt) =
               Inr (UpdateAuthoritiesRecord GRANT_AUTHORITIES uid mint melt)
         | NCAcquireAuthorityAction uid mint melt \<Rightarrow>
             new_record (UpdateAuthoritiesRecord GRANT_AUTHORITIES uid mint melt) =
               Inr (UpdateAuthoritiesRecord GRANT_AUTHORITIES uid mint melt)
         | _ \<Rightarrow> 0 < na_amount a"
proof -
  have pos: "0 < v" if front: "bytes_to_output_value b = Inr (v, b')" for b v b'
  proof -
    obtain d where "decode_output_value True (build_bytes_deserializer b) = (Inr v, d)"
      using front by (auto simp: bytes_to_output_value_def split: prod.splits sum.splits)
    then show ?thesis
      by (auto simp: decode_output_value_def sbind_Inr sthen_Inr split: if_splits)
  qed
  have "0 < na_amount a" using assms(1) pos by (auto simp: deserialize_action_def ebind_Inr)
  moreover have "na_amount a mod 2 = 1 \<or> na_amount a div 2 mod 2 = 1" if "0 < na_amount a" "na_amount a \<le> 3"
  proof -
    have "na_amount a = 1 \<or> na_amount a = 2 \<or> na_amount a = 3" using that by linarith
    then show ?thesis by auto
  qed
  ultimately show ?thesis
    using assms(2)
    by (auto simp: to_nc_action_def Let_def new_grant_authority_action_def new_acquire_authority_action_def
        new_record_def split: sum.splits nc_action_type.splits if_splits)
qed

theorem header_authorities_nonempty_witness:
  "deserialize_action [3, 1, 0, 0, 0, 2] = Inr (\<lparr>na_type = GRANT_AUTHORITY_ACTION, na_token_index = 1, na_amount = 2\<rparr>, []) \<and>
   new_record (UpdateAuthoritiesRecord GRANT_AUTHORITIES [9] False True) =
     Inr (UpdateAuthoritiesRecord GRANT_AUTHORITIES [9] False True)"
proof -
  let ?a = "\<lparr>na_type = GRANT_AUTHORITY_ACTION, na_token_index = 1, na_amount = 2\<rparr>"
  have 1: "deserialize_action [3, 1, 0, 0, 0, 2] = Inr (?a, [])" by code_simp
  have "to_nc_action [[9]] ?a = Inr (NCGrantAuthorityAction [9] False True)"
    by (simp add: to_nc_action_def get_token_uid_def new_grant_authority_action_def)
  from header_authorities_nonempty [OF 1 this] 1 show ?thesis by simp
qed

end
