(* ===== verification/NC_Transaction.thy ===== *)
theory NC_Transaction
  imports Nano_Header Balance_Rules
begin

text \<open>
  Transactions as the execution of nano contracts reads them (\<^verbatim>\<open>hathor/transaction/transaction.py\<close> and
  \<^verbatim>\<open>base_transaction.py\<close>): their token amounts, with inputs, outputs, actions and fees, and the verification of the
  sums (\<^verbatim>\<open>hathor/verification/transaction_verifier.py\<close>).
\<close>

section \<open>Transactions\<close>

record tx_input =
  txin_tx_id :: bytes
  txin_index :: nat

record tx_output =
  out_value :: int
  out_token_data :: int

text \<open>An entry of a fee header: the index of the token and the amount.\<close>

record fee_header_entry =
  fh_token_index :: int
  fh_amount :: int

text \<open>\<open>tx_created\<close> is the version of the token that a token creation transaction creates.\<close>

record nc_tx =
  tx_hash :: bytes
  tx_timestamp :: nat
  tx_inputs :: "tx_input list"
  tx_outputs :: "tx_output list"
  tx_tokens :: "bytes list"
  tx_nano_header :: "nano_header option"
  tx_fee_header :: "fee_header_entry list option"
  tx_created :: "token_version option"

text \<open>
  What the storage knows of other vertices: the outputs and token list (none for a block), and the versions of the
  tokens that have a creation transaction.
\<close>

record spent_vertex =
  sv_outputs :: "tx_output list"
  sv_tokens :: "bytes list option"

record tx_storage =
  ts_vertices :: "bytes \<Rightarrow> spent_vertex option"
  ts_token_version :: "bytes \<Rightarrow> token_version option"

definition vertex_token_uid :: "spent_vertex \<Rightarrow> int \<Rightarrow> exc + bytes" where
  "vertex_token_uid v index =
     (case sv_tokens v of
        None \<Rightarrow> if index = 0 then Inr HATHOR_TOKEN_UID else Inl AssertionError
      | Some tokens \<Rightarrow> get_token_uid tokens index)"

section \<open>Outputs\<close>

text \<open>The masks \<open>0b01111111\<close>, \<open>0b10000000\<close>, \<open>0b1\<close> and \<open>0b10\<close>.\<close>

definition get_token_index :: "tx_output \<Rightarrow> int" where
  "get_token_index out = out_token_data out mod 128"

definition is_token_authority :: "tx_output \<Rightarrow> bool" where
  "is_token_authority out \<longleftrightarrow> out_token_data out div 128 mod 2 = 1"

definition can_mint_token :: "tx_output \<Rightarrow> bool" where
  "can_mint_token out \<longleftrightarrow> is_token_authority out \<and> out_value out mod 2 = 1"

definition can_melt_token :: "tx_output \<Rightarrow> bool" where
  "can_melt_token out \<longleftrightarrow> is_token_authority out \<and> out_value out div 2 mod 2 = 1"

abbreviation ALL_AUTHORITIES :: int where "ALL_AUTHORITIES \<equiv> 3"

section \<open>Token amounts\<close>

text \<open>A loop that updates a value and may raise.\<close>

primrec efold :: "('x \<Rightarrow> 'a \<Rightarrow> exc + 'a) \<Rightarrow> 'x list \<Rightarrow> 'a \<Rightarrow> exc + 'a" where
  "efold f [] a = Inr a"
| "efold f (x # xs) a = ebind (f x a) (efold f xs)"

definition new_token_info :: "token_version option \<Rightarrow> token_info" where
  "new_token_info version =
     \<lparr>ti_version = version, ti_amount = 0, ti_can_mint = False, ti_can_melt = False,
      ti_chargeable_outputs = 0, ti_chargeable_inputs = 0\<rparr>"

definition get_spent_output :: "tx_storage \<Rightarrow> tx_input \<Rightarrow> exc + bytes \<times> tx_output" where
  "get_spent_output st txin =
     (case ts_vertices st (txin_tx_id txin) of
        None \<Rightarrow> Inl TransactionDoesNotExist
      | Some v \<Rightarrow>
          if txin_index txin < length (sv_outputs v)
          then (let out = sv_outputs v ! txin_index txin
                in ebind (vertex_token_uid v (get_token_index out)) (\<lambda>uid. Inr (uid, out)))
          else Inl IndexError)"

definition add_input :: "runtime \<Rightarrow> tx_storage \<Rightarrow> block_storage \<Rightarrow> tx_input \<Rightarrow> token_info_dict \<Rightarrow> exc + token_info_dict" where
  "add_input rt st bs txin token_dict =
     ebind (get_spent_output st txin) (\<lambda>(token_uid, out).
     ebind (get_token_version rt (ts_token_version st) bs token_uid) (\<lambda>token_version.
       let info = (case dict_get token_dict token_uid of None \<Rightarrow> new_token_info token_version | Some info \<Rightarrow> info)
       in Inr (dict_put token_uid
            (if is_token_authority out
             then info\<lparr>ti_can_mint := ti_can_mint info \<or> can_mint_token out, ti_can_melt := ti_can_melt info \<or> can_melt_token out\<rparr>
             else info\<lparr>ti_amount := ti_amount info - out_value out,
                       ti_chargeable_inputs := ti_chargeable_inputs info + (if token_version = Some FEE then 1 else 0)\<rparr>)
            token_dict)))"

definition get_token_info_from_inputs :: "runtime \<Rightarrow> tx_storage \<Rightarrow> block_storage \<Rightarrow> nc_tx \<Rightarrow> exc + token_info_dict" where
  "get_token_info_from_inputs rt st bs tx =
     ebind (efold (add_input rt st bs) (tx_inputs tx) [(HATHOR_TOKEN_UID, new_token_info (Some NATIVE))]) (\<lambda>token_dict.
       Inr (case tx_created tx of
              None \<Rightarrow> token_dict
            | Some v \<Rightarrow> dict_put (tx_hash tx) ((new_token_info (Some v))\<lparr>ti_can_mint := True, ti_can_melt := True\<rparr>) token_dict))"

definition add_action :: "runtime \<Rightarrow> tx_storage \<Rightarrow> block_storage \<Rightarrow> nc_action \<Rightarrow> token_info_dict \<Rightarrow> exc + token_info_dict" where
  "add_action rt st bs action token_dict =
     ebind (if dict_has token_dict (action_token_uid action) then Inr token_dict
            else ebind (get_token_version rt (ts_token_version st) bs (action_token_uid action)) (\<lambda>version.
                   Inr (dict_put (action_token_uid action) (new_token_info version) token_dict))) (\<lambda>token_dict.
       case verification_rule action token_dict of (Inl e, _) \<Rightarrow> Inl e | (Inr _, d) \<Rightarrow> Inr d)"

definition update_token_info_from_nano_actions ::
    "runtime \<Rightarrow> tx_storage \<Rightarrow> block_storage \<Rightarrow> nc_tx \<Rightarrow> token_info_dict \<Rightarrow> exc + token_info_dict" where
  "update_token_info_from_nano_actions rt st bs tx token_dict =
     (case tx_nano_header tx of
        None \<Rightarrow> Inr token_dict
      | Some h \<Rightarrow> ebind (get_actions (tx_tokens tx) (nh_actions h)) (\<lambda>actions. efold (add_action rt st bs) actions token_dict))"

definition add_output :: "bytes list \<Rightarrow> tx_output \<Rightarrow> token_info_dict \<Rightarrow> exc + token_info_dict" where
  "add_output tokens out token_dict =
     ebind (get_token_uid tokens (get_token_index out)) (\<lambda>token_uid.
       case dict_get token_dict token_uid of
         None \<Rightarrow> Inl InvalidToken
       | Some info \<Rightarrow>
           if can_mint_token out \<and> \<not> ti_can_mint info then Inl InvalidToken
           else if can_melt_token out \<and> \<not> ti_can_melt info then Inl InvalidToken
           else if is_token_authority out
           then (if ALL_AUTHORITIES < out_value out then Inl InvalidToken else Inr token_dict)
           else Inr (dict_put token_uid
                  (info\<lparr>ti_amount := ti_amount info + out_value out,
                        ti_chargeable_outputs := ti_chargeable_outputs info + (if ti_version info = Some FEE then 1 else 0)\<rparr>)
                  token_dict))"

definition update_token_info_from_outputs :: "nc_tx \<Rightarrow> token_info_dict \<Rightarrow> exc + token_info_dict" where
  "update_token_info_from_outputs tx token_dict = efold (add_output (tx_tokens tx)) (tx_outputs tx) token_dict"

text \<open>\<open>FeeHeader.get_fees\<close> and \<open>total_fee_amount\<close>.\<close>

primrec get_fees :: "bytes list \<Rightarrow> fee_header_entry list \<Rightarrow> exc + (bytes \<times> int) list" where
  "get_fees tokens [] = Inr []"
| "get_fees tokens (fee # fees) =
     ebind (get_token_uid tokens (fh_token_index fee)) (\<lambda>uid.
     ebind (get_fees tokens fees) (\<lambda>rest. Inr ((uid, fh_amount fee) # rest)))"

definition total_fee_amount :: "(bytes \<times> int) list \<Rightarrow> exc + int" where
  "total_fee_amount fees =
     efold (\<lambda>(uid, amount) total.
       if uid = HATHOR_TOKEN_UID then Inr (total + amount)
       else ebind (get_deposit_token_withdraw_amount amount) (\<lambda>n. Inr (total + n))) fees 0"

definition add_fee :: "bytes \<times> int \<Rightarrow> token_info_dict \<Rightarrow> exc + token_info_dict" where
  "add_fee fee token_dict =
     (case dict_get token_dict (fst fee) of
        None \<Rightarrow> Inl InvalidToken
      | Some info \<Rightarrow>
          if ti_version info \<notin> {None, Some NATIVE, Some DEPOSIT} then Inl InvalidToken
          else Inr (dict_put (fst fee) (info\<lparr>ti_amount := ti_amount info + snd fee\<rparr>) token_dict))"

text \<open>The result has the attribute \<open>fees_from_fee_header\<close> beside the dictionary.\<close>

definition update_token_info_from_fees :: "nc_tx \<Rightarrow> token_info_dict \<Rightarrow> exc + token_info_dict \<times> int" where
  "update_token_info_from_fees tx token_dict =
     (case tx_fee_header tx of
        None \<Rightarrow> Inr (token_dict, 0)
      | Some entries \<Rightarrow>
          ebind (get_fees (tx_tokens tx) entries) (\<lambda>fees.
          ebind (total_fee_amount fees) (\<lambda>total.
          ebind (efold add_fee fees token_dict) (\<lambda>d. Inr (d, total)))))"

definition get_complete_token_info :: "runtime \<Rightarrow> tx_storage \<Rightarrow> block_storage \<Rightarrow> nc_tx \<Rightarrow> exc + token_info_dict \<times> int" where
  "get_complete_token_info rt st bs tx =
     ebind (get_token_info_from_inputs rt st bs tx) (\<lambda>token_dict.
     ebind (update_token_info_from_nano_actions rt st bs tx token_dict) (\<lambda>token_dict.
     ebind (update_token_info_from_outputs tx token_dict) (update_token_info_from_fees tx)))"

section \<open>The verification of the sums\<close>

definition check_token_permissions :: "bytes \<Rightarrow> token_info \<Rightarrow> exc + unit" where
  "check_token_permissions token_uid info =
     (if ti_version info = Some NATIVE
      then (if token_uid = HATHOR_TOKEN_UID \<and> \<not> ti_can_mint info \<and> \<not> ti_can_melt info then Inr () else Inl AssertionError)
      else if token_uid = HATHOR_TOKEN_UID then Inl AssertionError
      else if has_been_melted info \<and> \<not> ti_can_melt info then Inl ForbiddenMelt
      else if has_been_minted info \<and> \<not> ti_can_mint info then Inl ForbiddenMint
      else Inr ())"

record sum_state =
  ss_deposit :: int
  ss_withdraw :: int
  ss_has_nonexistent_tokens :: bool

definition sum_step :: "bool \<Rightarrow> bytes \<times> token_info \<Rightarrow> sum_state \<Rightarrow> exc + sum_state" where
  "sum_step allow_nonexistent_tokens item s =
     (case item of (token_uid, info) \<Rightarrow>
        ebind (check_token_permissions token_uid info) (\<lambda>_.
          case ti_version info of
            None \<Rightarrow> if allow_nonexistent_tokens then Inr (s\<lparr>ss_has_nonexistent_tokens := True\<rparr>) else Inl TokenNotFound
          | Some NATIVE \<Rightarrow> Inr s
          | Some DEPOSIT \<Rightarrow>
              ebind (if has_been_melted info then get_deposit_token_withdraw_amount (ti_amount info) else Inr 0) (\<lambda>w.
              ebind (if has_been_minted info then get_deposit_token_deposit_amount (ti_amount info) else Inr 0) (\<lambda>p.
                Inr (s\<lparr>ss_withdraw := ss_withdraw s + w, ss_deposit := ss_deposit s + p\<rparr>)))
          | Some FEE \<Rightarrow> Inr s))"

definition verify_sum :: "bool \<Rightarrow> token_info_dict \<times> int \<Rightarrow> exc + unit" where
  "verify_sum allow_nonexistent_tokens complete =
     (case complete of (token_dict, fees_from_fee_header) \<Rightarrow>
        ebind (efold (sum_step allow_nonexistent_tokens) token_dict
                 \<lparr>ss_deposit = 0, ss_withdraw = 0, ss_has_nonexistent_tokens = False\<rparr>) (\<lambda>s.
          let htr_expected_amount = ss_withdraw s - ss_deposit s in
          case dict_get token_dict HATHOR_TOKEN_UID of
            None \<Rightarrow> Inl KeyError
          | Some htr_info \<Rightarrow>
              if ti_amount htr_info < htr_expected_amount then Inl InputOutputMismatch
              else if ss_has_nonexistent_tokens s then Inr ()
              else if calculate_fee token_dict \<noteq> fees_from_fee_header then Inl InputOutputMismatch
              else if htr_expected_amount < ti_amount htr_info then Inl InputOutputMismatch
              else if ti_amount htr_info = htr_expected_amount then Inr () else Inl AssertionError))"

end
