(* ===== verification/NC_Sorter.thy ===== *)
theory NC_Sorter
  imports NC_Transaction NC_Rng "HOL-Library.List_Lexorder" "HOL-Library.Product_Lexorder"
begin

text \<open>
  The order in which the nano contract transactions of a block are executed
  (\<^verbatim>\<open>hathor/nanocontracts/sorter/random_sorter.py\<close> and \<^verbatim>\<open>timestamp_sorter.py\<close>): a random topological order
  of the graph of their dependencies.
\<close>

section \<open>The graph\<close>

record sorter_node =
  sn_id :: bytes
  outgoing_edges :: "bytes set"
  incoming_edges :: "bytes set"

record nc_sorter =
  so_db :: "(bytes, sorter_node) dict"
  so_dirty :: bool
  so_nc_hashes :: "bytes set"

definition new_sorter :: "bytes set \<Rightarrow> nc_sorter" where
  "new_sorter nc_hashes = \<lparr>so_db = [], so_dirty = False, so_nc_hashes = nc_hashes\<rparr>"

definition get_sorter_node :: "bytes \<Rightarrow> (nc_sorter, sorter_node) sm" where
  "get_sorter_node vid =
     sbind (sget (\<lambda>s. dict_get (so_db s) vid)) (\<lambda>vertex.
       case vertex of
         Some v \<Rightarrow> sret v
       | None \<Rightarrow>
           (let v = \<lparr>sn_id = vid, outgoing_edges = {}, incoming_edges = {}\<rparr>
            in sthen (smod (\<lambda>s. s\<lparr>so_db := dict_put vid v (so_db s)\<rparr>)) (sret v)))"

text \<open>A change of the node object that \<open>get_node\<close> returns.\<close>

definition on_sorter_node :: "bytes \<Rightarrow> (sorter_node \<Rightarrow> sorter_node) \<Rightarrow> (nc_sorter, unit) sm" where
  "on_sorter_node vid f =
     sbind (get_sorter_node vid) (\<lambda>v. smod (\<lambda>s. s\<lparr>so_db := dict_put vid (f v) (so_db s)\<rparr>))"

definition add_vertex :: "bytes \<Rightarrow> (nc_sorter, unit) sm" where
  "add_vertex vid = sbind (get_sorter_node vid) (\<lambda>_. sret ())"

definition add_edge :: "bytes \<Rightarrow> bytes \<Rightarrow> (nc_sorter, unit) sm" where
  "add_edge frm to =
     sthen (sassert (frm \<noteq> to))
     (sthen (on_sorter_node frm (\<lambda>v. v\<lparr>outgoing_edges := insert to (outgoing_edges v)\<rparr>))
        (on_sorter_node to (\<lambda>v. v\<lparr>incoming_edges := insert frm (incoming_edges v)\<rparr>)))"

definition sorter_copy :: "nc_sorter \<Rightarrow> exc + nc_sorter" where
  "sorter_copy s =
     (if so_dirty s then Inl RuntimeError
      else Inr ((new_sorter (so_nc_hashes s))\<lparr>so_db := so_db s\<rparr>))"

section \<open>Construction\<close>

text \<open>\<^verbatim>\<open>f'dummy:{n}'.encode()\<close>.\<close>

fun decimal :: "nat \<Rightarrow> bytes" where
  "decimal n = (if n < 10 then [48 + of_nat n] else decimal (n div 10) @ [48 + of_nat (n mod 10)])"

definition dummy_node_id :: "nat \<Rightarrow> bytes" where
  "dummy_node_id n = map of_nat (ustr ''dummy:'') @ decimal n"

definition append_to :: "'k \<Rightarrow> 'v \<Rightarrow> ('k, 'v list) dict \<Rightarrow> ('k, 'v list) dict" where
  "append_to k v d = dict_put k ((case dict_get d k of None \<Rightarrow> [] | Some vs \<Rightarrow> vs) @ [v]) d"

text \<open>\<open>grouped_txs\<close>: by address, then by seqnum.\<close>

definition add_to_grouped ::
    "(bytes, (int, nc_tx list) dict) dict \<Rightarrow> nc_tx \<times> nano_header \<Rightarrow> (bytes, (int, nc_tx list) dict) dict" where
  "add_to_grouped grouped item =
     (case item of (tx, header) \<Rightarrow>
        dict_put (nh_address header)
          (append_to (nh_seqnum header) tx
             (case dict_get grouped (nh_address header) of None \<Rightarrow> [] | Some d \<Rightarrow> d)) grouped)"

text \<open>The groups of consecutive seqnums of an address, in pairs.\<close>

definition seqnum_pairs :: "(int, nc_tx list) dict \<Rightarrow> (nc_tx list \<times> nc_tx list) list" where
  "seqnum_pairs txs_by_seqnum =
     (let sorted_by_seqnum = map snd (sort_key fst txs_by_seqnum)
      in zip sorted_by_seqnum (tl sorted_by_seqnum))"

definition add_funds_edges :: "nc_tx \<Rightarrow> (nc_sorter, unit) sm" where
  "add_funds_edges tx =
     sthen (add_vertex (tx_hash tx))
     (sthen (case tx_nano_header tx of None \<Rightarrow> sret () | Some header \<Rightarrow> add_edge (tx_hash tx) (nh_id header))
        (sfor (tx_inputs tx) (\<lambda>txin. add_edge (tx_hash tx) (txin_tx_id txin))))"

definition add_seqnum_edges :: "nat \<times> nc_tx list \<times> nc_tx list \<Rightarrow> (nc_sorter, unit) sm" where
  "add_seqnum_edges item =
     (case item of (n, prev_txs, curr_txs) \<Rightarrow>
        sthen (add_vertex (dummy_node_id n))
        (sthen (sfor prev_txs (\<lambda>prev_tx. add_edge (dummy_node_id n) (tx_hash prev_tx)))
           (sfor curr_txs (\<lambda>curr_tx.
              if Max (set (map tx_timestamp prev_txs)) < tx_timestamp curr_tx
              then add_edge (tx_hash curr_tx) (dummy_node_id n) else sret ()))))"

primrec nano_headers :: "nc_tx list \<Rightarrow> exc + (nc_tx \<times> nano_header) list" where
  "nano_headers [] = Inr []"
| "nano_headers (tx # txs) =
     (case tx_nano_header tx of
        None \<Rightarrow> Inl AssertionError
      | Some header \<Rightarrow> ebind (nano_headers txs) (\<lambda>rest. Inr ((tx, header) # rest)))"

definition all_seqnum_pairs :: "(nc_tx \<times> nano_header) list \<Rightarrow> (nc_tx list \<times> nc_tx list) list" where
  "all_seqnum_pairs calls = concat (map (\<lambda>(_, txs_by_seqnum). seqnum_pairs txs_by_seqnum) (foldl add_to_grouped [] calls))"

text \<open>\<open>block_txs\<close> are the transactions that \<open>iter_transactions_in_this_block\<close> yields.\<close>

definition create_from_block :: "nc_tx list \<Rightarrow> nc_tx list \<Rightarrow> exc + nc_sorter" where
  "create_from_block block_txs nc_calls =
     (case sthen (sfor block_txs add_funds_edges)
             (case nano_headers nc_calls of
                Inl e \<Rightarrow> sraise e
              | Inr calls \<Rightarrow> sfor (List.enumerate 0 (all_seqnum_pairs calls)) add_seqnum_edges)
             (new_sorter (set (map tx_hash nc_calls))) of
        (Inl e, _) \<Rightarrow> Inl e
      | (Inr _, s) \<Rightarrow> Inr s)"

section \<open>Topological order\<close>

definition get_vertices_with_no_outgoing_edges :: "nc_sorter \<Rightarrow> bytes list" where
  "get_vertices_with_no_outgoing_edges s = map sn_id (filter (\<lambda>v. outgoing_edges v = {}) (map snd (so_db s)))"

record order_state =
  os_sorter :: nc_sorter
  os_candidates :: "bytes list"
  os_ret :: "bytes list"
  os_rng :: nano_rng

definition on_sorter :: "(nc_sorter, 'a) sm \<Rightarrow> (order_state, 'a) sm" where
  "on_sorter f s = (case f (os_sorter s) of (r, x) \<Rightarrow> (r, s\<lparr>os_sorter := x\<rparr>))"

definition on_rng :: "(nano_rng, 'a) sm \<Rightarrow> (order_state, 'a) sm" where
  "on_rng f s = (case f (os_rng s) of (r, x) \<Rightarrow> (r, s\<lparr>os_rng := x\<rparr>))"

text \<open>The removal of the edges to \<open>vertex_id\<close>, for one of its incoming edges.\<close>

definition release_vertex :: "bytes \<Rightarrow> bytes \<Rightarrow> (order_state, unit) sm" where
  "release_vertex vertex_id in_vertex_id =
     sbind (on_sorter (get_sorter_node in_vertex_id)) (\<lambda>in_vertex.
     sthen (sguard (vertex_id \<in> outgoing_edges in_vertex) KeyError)
     (sthen (on_sorter (on_sorter_node in_vertex_id (\<lambda>v. v\<lparr>outgoing_edges := outgoing_edges v - {vertex_id}\<rparr>)))
        (if outgoing_edges in_vertex - {vertex_id} = {}
         then smod (\<lambda>s. s\<lparr>os_candidates := os_candidates s @ [in_vertex_id]\<rparr>) else sret ())))"

text \<open>
  One round of the loop. \<open>it\<close> is the order in which the runtime iterates over a set; \<open>fuel\<close> bounds the draws of
  \<open>randbelow\<close>.
\<close>

definition sorter_round :: "(bytes set \<Rightarrow> bytes list) \<Rightarrow> stream_cipher \<Rightarrow> nat \<Rightarrow> (order_state, unit) sm" where
  "sorter_round it chacha20 fuel =
     sbind (sget os_candidates) (\<lambda>candidates.
     sthen (sassert (candidates \<noteq> []))
     (sbind (on_rng (randbelow chacha20 fuel (int (length candidates)))) (\<lambda>idx.
      let i = nat idx; vertex_id = candidates ! i in
      sthen (smod (\<lambda>s. s\<lparr>os_candidates := take i candidates @ drop (Suc i) candidates\<rparr>))
     (sthen (smod (\<lambda>s. if vertex_id \<in> so_nc_hashes (os_sorter s) then s\<lparr>os_ret := os_ret s @ [vertex_id]\<rparr> else s))
     (sbind (on_sorter (get_sorter_node vertex_id)) (\<lambda>vertex.
      sthen (sassert (outgoing_edges vertex = {}))
        (sfor (it (incoming_edges vertex)) (release_vertex vertex_id))))))))"

definition generate_random_topological_order ::
    "(bytes set \<Rightarrow> bytes list) \<Rightarrow> stream_cipher \<Rightarrow> nat \<Rightarrow> bytes \<Rightarrow> nc_sorter \<Rightarrow> exc + bytes list" where
  "generate_random_topological_order it chacha20 fuel seed sorter =
     (if so_dirty sorter then Inl RuntimeError
      else ebind (new_rng seed) (\<lambda>rng.
        (case srepeat (length (so_db sorter)) (sorter_round it chacha20 fuel)
                \<lparr>os_sorter = sorter\<lparr>so_dirty := True\<rparr>,
                 os_candidates = get_vertices_with_no_outgoing_edges sorter, os_ret = [], os_rng = rng\<rparr> of
           (Inl e, _) \<Rightarrow> Inl e
         | (Inr _, s) \<Rightarrow> Inr (os_ret s))))"

definition random_nc_calls_sorter ::
    "(bytes set \<Rightarrow> bytes list) \<Rightarrow> runtime \<Rightarrow> stream_cipher \<Rightarrow> nat \<Rightarrow> bytes \<Rightarrow> nc_tx list \<Rightarrow> nc_tx list \<Rightarrow>
     exc + nc_tx list" where
  "random_nc_calls_sorter it rt chacha20 fuel block_hash block_txs nc_calls =
     ebind (create_from_block block_txs nc_calls) (\<lambda>sorter.
     ebind (generate_random_topological_order it chacha20 fuel (sha256 rt block_hash) sorter) (\<lambda>order.
       let tx_by_id = foldl (\<lambda>d tx. dict_put (tx_hash tx) tx d) [] nc_calls
       in if set order = fst ` set tx_by_id then Inr (map (\<lambda>vid. the (dict_get tx_by_id vid)) order)
          else Inl AssertionError))"

definition timestamp_nc_calls_sorter :: "nc_tx list \<Rightarrow> nc_tx list" where
  "timestamp_nc_calls_sorter nc_calls = sort_key (\<lambda>tx. (tx_timestamp tx, tx_hash tx)) nc_calls"

end
