(* ===== verification/Sorter_Props.thy ===== *)
theory Sorter_Props
  imports NC_Sorter
begin

text \<open>
  The sorter computes a topological order of the dependencies, of all transactions to execute, when there is one.
\<close>

section \<open>Graphs\<close>

definition so_out :: "nc_sorter \<Rightarrow> bytes \<Rightarrow> bytes set" where
  "so_out s a = (case dict_get (so_db s) a of None \<Rightarrow> {} | Some v \<Rightarrow> outgoing_edges v)"

definition so_in :: "nc_sorter \<Rightarrow> bytes \<Rightarrow> bytes set" where
  "so_in s a = (case dict_get (so_db s) a of None \<Rightarrow> {} | Some v \<Rightarrow> incoming_edges v)"

definition so_keys :: "nc_sorter \<Rightarrow> bytes set" where
  "so_keys s = fst ` set (so_db s)"

definition so_edges :: "nc_sorter \<Rightarrow> (bytes \<times> bytes) set" where
  "so_edges s = {(a, b). b \<in> so_out s a}"

definition graph_ok :: "nc_sorter \<Rightarrow> bool" where
  "graph_ok s \<longleftrightarrow>
     distinct (map fst (so_db s)) \<and> (\<forall>a v. dict_get (so_db s) a = Some v \<longrightarrow> sn_id v = a) \<and>
     (\<forall>a. finite (so_out s a) \<and> finite (so_in s a)) \<and> (\<forall>a b. b \<in> so_out s a \<longleftrightarrow> a \<in> so_in s b)"

lemma keys_get: "a \<in> so_keys s \<longleftrightarrow> dict_get (so_db s) a \<noteq> None"
  by (simp add: so_keys_def map_of_eq_None_iff)

lemma out_keys:
  assumes "graph_ok s" and "b \<in> so_out s a"
  shows "a \<in> so_keys s" "b \<in> so_keys s"
proof -
  show "a \<in> so_keys s" using assms(2) by (auto simp: keys_get so_out_def split: option.splits)
  have "a \<in> so_in s b" using assms by (simp add: graph_ok_def)
  then show "b \<in> so_keys s" by (auto simp: keys_get so_in_def split: option.splits)
qed

text \<open>The node of an id, and a change of it.\<close>

definition node_of :: "nc_sorter \<Rightarrow> bytes \<Rightarrow> sorter_node" where
  "node_of s a = (case dict_get (so_db s) a of None \<Rightarrow> \<lparr>sn_id = a, outgoing_edges = {}, incoming_edges = {}\<rparr> | Some v \<Rightarrow> v)"

lemma node_of_sets [simp]: "outgoing_edges (node_of s a) = so_out s a" "incoming_edges (node_of s a) = so_in s a"
  by (simp_all add: node_of_def so_out_def so_in_def split: option.splits)

lemma node_of_id: "graph_ok s \<Longrightarrow> sn_id (node_of s a) = a"
  by (auto simp: node_of_def graph_ok_def split: option.splits)

definition put_node :: "bytes \<Rightarrow> sorter_node \<Rightarrow> nc_sorter \<Rightarrow> nc_sorter" where
  "put_node a v s = s\<lparr>so_db := dict_put a v (so_db s)\<rparr>"

lemma put_node_simps [simp]:
  "so_out (put_node a v s) b = (if b = a then outgoing_edges v else so_out s b)"
  "so_in (put_node a v s) b = (if b = a then incoming_edges v else so_in s b)"
  "so_keys (put_node a v s) = insert a (so_keys s)"
  "so_nc_hashes (put_node a v s) = so_nc_hashes s" "so_dirty (put_node a v s) = so_dirty s"
  by (simp_all add: put_node_def so_out_def so_in_def so_keys_def dict_keys_put)

lemma map_fst_dict_put: "k \<in> fst ` set d \<Longrightarrow> map fst (dict_put k v d) = map fst d"
  by (induction d) auto

lemma get_sorter_node_result:
  "get_sorter_node a s = (Inr (node_of s a), if a \<in> so_keys s then s else put_node a (node_of s a) s)"
  by (auto simp: get_sorter_node_def sm_simps node_of_def keys_get put_node_def Let_def split: option.splits)

lemma on_sorter_node_result: "on_sorter_node a f s = (Inr (), put_node a (f (node_of s a)) s)"
proof -
  have "dict_put a w (dict_put a v d) = dict_put a w d" for v w :: sorter_node and d :: "(bytes, sorter_node) dict"
    by (induction d) auto
  then show ?thesis by (auto simp: on_sorter_node_def sm_simps get_sorter_node_result put_node_def)
qed

lemma add_vertex_result:
  assumes "graph_ok s"
  shows "\<exists>s'. add_vertex a s = (Inr (), s') \<and> graph_ok s' \<and> so_keys s' = insert a (so_keys s) \<and> so_edges s' = so_edges s \<and>
     so_nc_hashes s' = so_nc_hashes s \<and> so_dirty s' = so_dirty s"
proof (cases "a \<in> so_keys s")
  case True
  then show ?thesis using assms by (auto simp: add_vertex_def sm_simps get_sorter_node_result)
next
  case False
  then have "so_out s a = {}" "so_in s a = {}" by (simp_all add: keys_get so_out_def so_in_def)
  then have same: "so_out (put_node a (node_of s a) s) = so_out s" "so_in (put_node a (node_of s a) s) = so_in s"
    by (auto simp: fun_eq_iff)
  have "graph_ok (put_node a (node_of s a) s)"
    unfolding graph_ok_def same using assms node_of_id [OF assms] by (auto simp: graph_ok_def put_node_def)
  then show ?thesis using False same by (auto simp: add_vertex_def sm_simps get_sorter_node_result so_edges_def)
qed

lemma add_edge_result:
  assumes "graph_ok s" and "a \<noteq> b"
  shows "\<exists>s'. add_edge a b s = (Inr (), s') \<and> graph_ok s' \<and> so_keys s' = {a, b} \<union> so_keys s \<and>
     so_edges s' = insert (a, b) (so_edges s) \<and> so_nc_hashes s' = so_nc_hashes s \<and> so_dirty s' = so_dirty s"
proof -
  let ?s1 = "put_node a ((node_of s a)\<lparr>outgoing_edges := insert b (so_out s a)\<rparr>) s"
  let ?s2 = "put_node b ((node_of ?s1 b)\<lparr>incoming_edges := insert a (so_in ?s1 b)\<rparr>) ?s1"
  have run: "add_edge a b s = (Inr (), ?s2)"
    using assms(2) by (simp add: add_edge_def sm_simps on_sorter_node_result)
  have out: "so_out ?s2 x = (if x = a then insert b (so_out s x) else so_out s x)"
    and inc: "so_in ?s2 x = (if x = b then insert a (so_in s x) else so_in s x)" for x
    using assms(2) by simp_all
  have "sn_id (node_of ?s1 b) = b"
    using assms node_of_id [OF assms(1), of b] by (simp add: node_of_def put_node_def)
  then have ids: "\<forall>x v. dict_get (so_db ?s2) x = Some v \<longrightarrow> sn_id v = x"
    using assms node_of_id [OF assms(1)] by (auto simp: put_node_def graph_ok_def)
  have "distinct (map fst (so_db ?s2))" using assms(1) by (simp add: put_node_def graph_ok_def)
  then have "graph_ok ?s2"
    unfolding graph_ok_def out inc using assms(1) ids by (auto simp: graph_ok_def)
  moreover have "so_edges ?s2 = insert (a, b) (so_edges s)"
    unfolding so_edges_def out by (auto split: if_splits)
  moreover have "so_keys ?s2 = {a, b} \<union> so_keys s" by auto
  ultimately show ?thesis using run by auto
qed

section \<open>The loop\<close>

text \<open>The vertices taken so far, in order: each comes after those it has edges to.\<close>

definition topological :: "(bytes \<Rightarrow> bytes set) \<Rightarrow> bytes list \<Rightarrow> bool" where
  "topological out vs \<longleftrightarrow> distinct vs \<and> (\<forall>xs v ys. vs = xs @ v # ys \<longrightarrow> out v \<subseteq> set xs)"

lemma topological_snoc:
  assumes "topological out vs" and "v \<notin> set vs" and "out v \<subseteq> set vs"
  shows "topological out (vs @ [v])"
  unfolding topological_def
proof (intro conjI allI impI)
  show "distinct (vs @ [v])" using assms by (simp add: topological_def)
  fix xs w ys
  assume e: "vs @ [v] = xs @ w # ys"
  show "out w \<subseteq> set xs"
  proof (cases ys rule: rev_cases)
    case Nil
    then show ?thesis using e assms(3) by simp
  next
    case (snoc zs z)
    then have "vs = xs @ w # zs" using e by simp
    then show ?thesis using assms(1) by (simp add: topological_def)
  qed
qed

lemma topological_closed: "topological out vs \<Longrightarrow> v \<in> set vs \<Longrightarrow> out v \<subseteq> set vs"
  by (fastforce simp: topological_def dest: split_list)

definition free :: "nc_sorter \<Rightarrow> bytes set \<Rightarrow> bytes set" where
  "free s0 P = {v \<in> so_keys s0. so_out s0 v \<subseteq> P \<and> v \<notin> P}"

text \<open>The graph when the edges to \<open>P\<close> are removed.\<close>

definition reduced :: "nc_sorter \<Rightarrow> (bytes \<Rightarrow> bytes set) \<Rightarrow> nc_sorter \<Rightarrow> bool" where
  "reduced s0 out s \<longleftrightarrow>
     map fst (so_db s) = map fst (so_db s0) \<and> so_in s = so_in s0 \<and> so_out s = out \<and> so_nc_hashes s = so_nc_hashes s0"

definition order_inv :: "nc_sorter \<Rightarrow> bytes list \<Rightarrow> order_state \<Rightarrow> bool" where
  "order_inv s0 P st \<longleftrightarrow>
     reduced s0 (\<lambda>a. so_out s0 a - set P) (os_sorter st) \<and> topological (so_out s0) P \<and> set P \<subseteq> so_keys s0 \<and>
     distinct (os_candidates st) \<and> set (os_candidates st) = free s0 (set P) \<and>
     os_ret st = filter (\<lambda>v. v \<in> so_nc_hashes s0) P"

lemma reduced_keys: "reduced s0 out s \<Longrightarrow> so_keys s = so_keys s0"
  unfolding reduced_def so_keys_def by (metis list.set_map)

lemma release_vertex_step:
  assumes red: "reduced s0 out (os_sorter st)" and u: "u \<in> so_keys s0" and v: "v \<in> out u"
  shows "\<exists>st'. release_vertex v u st = (Inr (), st') \<and> reduced s0 (out(u := out u - {v})) (os_sorter st') \<and>
     os_candidates st' = os_candidates st @ (if out u - {v} = {} then [u] else []) \<and>
     os_ret st' = os_ret st \<and> os_rng st' = os_rng st"
proof -
  let ?s = "os_sorter st"
  have uk: "u \<in> so_keys ?s" using u reduced_keys [OF red] by simp
  have out: "so_out ?s = out" using red by (simp add: reduced_def)
  let ?s' = "put_node u ((node_of ?s u)\<lparr>outgoing_edges := out u - {v}\<rparr>) ?s"
  have "map fst (so_db ?s') = map fst (so_db s0)"
    using red uk by (simp add: put_node_def map_fst_dict_put so_keys_def reduced_def)
  then have "reduced s0 (out(u := out u - {v})) ?s'"
    using red by (auto simp: reduced_def fun_eq_iff)
  moreover have "release_vertex v u st =
      (Inr (), if out u - {v} = {} then st\<lparr>os_sorter := ?s', os_candidates := os_candidates st @ [u]\<rparr> else st\<lparr>os_sorter := ?s'\<rparr>)"
    using uk v by (simp add: release_vertex_def sm_simps on_sorter_def get_sorter_node_result on_sorter_node_result out)
  ultimately show ?thesis by auto
qed

lemma release_vertices:
  assumes "reduced s0 out (os_sorter st)" and "distinct us" and "\<forall>u \<in> set us. u \<in> so_keys s0 \<and> v \<in> out u"
  shows "\<exists>st'. sfor us (release_vertex v) st = (Inr (), st') \<and>
     reduced s0 (\<lambda>a. if a \<in> set us then out a - {v} else out a) (os_sorter st') \<and>
     os_candidates st' = os_candidates st @ filter (\<lambda>u. out u - {v} = {}) us \<and>
     os_ret st' = os_ret st \<and> os_rng st' = os_rng st"
  using assms
proof (induction us arbitrary: st out)
  case Nil
  then show ?case by (simp add: sm_simps)
next
  case (Cons u us)
  obtain st1 where 1: "release_vertex v u st = (Inr (), st1)" "reduced s0 (out(u := out u - {v})) (os_sorter st1)"
      "os_candidates st1 = os_candidates st @ (if out u - {v} = {} then [u] else [])" "os_ret st1 = os_ret st" "os_rng st1 = os_rng st"
    using release_vertex_step [OF Cons.prems(1), of u v] Cons.prems(3) by auto
  have "\<forall>x \<in> set us. x \<in> so_keys s0 \<and> v \<in> (out(u := out u - {v})) x" using Cons.prems(2,3) by auto
  then obtain st2 where 2: "sfor us (release_vertex v) st1 = (Inr (), st2)"
      "reduced s0 (\<lambda>a. if a \<in> set us then (out(u := out u - {v})) a - {v} else (out(u := out u - {v})) a) (os_sorter st2)"
      "os_candidates st2 = os_candidates st1 @ filter (\<lambda>x. (out(u := out u - {v})) x - {v} = {}) us"
      "os_ret st2 = os_ret st1" "os_rng st2 = os_rng st1"
    using Cons.IH [OF 1(2)] Cons.prems(2) by auto
  have "(\<lambda>a. if a \<in> set us then (out(u := out u - {v})) a - {v} else (out(u := out u - {v})) a) =
      (\<lambda>a. if a \<in> set (u # us) then out a - {v} else out a)"
    by (auto simp: fun_eq_iff)
  moreover have "filter (\<lambda>x. (out(u := out u - {v})) x - {v} = {}) us = filter (\<lambda>x. out x - {v} = {}) us"
    using Cons.prems(2) by (intro filter_cong) auto
  ultimately show ?case using 1 2 by (auto simp: sm_simps)
qed

text \<open>A set is iterated in some order.\<close>

definition iterates :: "(bytes set \<Rightarrow> bytes list) \<Rightarrow> bool" where
  "iterates it \<longleftrightarrow> (\<forall>S. finite S \<longrightarrow> set (it S) = S \<and> distinct (it S))"

lemma set_take_drop_nth:
  assumes "i < length xs"
  shows "distinct xs \<Longrightarrow> set (take i xs @ drop (Suc i) xs) = set xs - {xs ! i}" "distinct xs \<Longrightarrow> distinct (take i xs @ drop (Suc i) xs)"
proof -
  have e: "xs = take i xs @ xs ! i # drop (Suc i) xs" using assms by (rule id_take_nth_drop)
  show "distinct xs \<Longrightarrow> set (take i xs @ drop (Suc i) xs) = set xs - {xs ! i}"
    "distinct xs \<Longrightarrow> distinct (take i xs @ drop (Suc i) xs)"
    by (subst (asm) e, subst (2) e, auto) (subst (asm) e, auto)
qed

lemma free_step:
  assumes ok: "graph_ok s0" and top: "topological (so_out s0) P" and v: "v \<in> free s0 (set P)"
  shows "free s0 (insert v (set P)) = (free s0 (set P) - {v}) \<union> {u \<in> so_in s0 v. so_out s0 u \<subseteq> insert v (set P)}" (is "_ = ?r")
proof
  have vP: "v \<notin> set P" "so_out s0 v \<subseteq> set P" using v by (simp_all add: free_def)
  have sym: "b \<in> so_out s0 a \<longleftrightarrow> a \<in> so_in s0 b" for a b using ok by (simp add: graph_ok_def)
  show "free s0 (insert v (set P)) \<subseteq> ?r"
  proof
    fix w
    assume w: "w \<in> free s0 (insert v (set P))"
    show "w \<in> ?r"
    proof (cases "v \<in> so_out s0 w")
      case True
      then show ?thesis using w sym by (simp add: free_def)
    next
      case False
      then show ?thesis using w by (auto simp: free_def)
    qed
  qed
  show "?r \<subseteq> free s0 (insert v (set P))"
  proof
    fix w
    assume "w \<in> ?r"
    then consider "w \<in> free s0 (set P)" "w \<noteq> v" | "w \<in> so_in s0 v" "so_out s0 w \<subseteq> insert v (set P)" by auto
    then show "w \<in> free s0 (insert v (set P))"
    proof cases
      case 1
      then show ?thesis by (auto simp: free_def)
    next
      case 2
      then have vw: "v \<in> so_out s0 w" using sym by simp
      then have "w \<notin> set P" using topological_closed [OF top] vP(1) by blast
      moreover have "w \<noteq> v" using vw vP by blast
      ultimately show ?thesis using 2 out_keys(1) [OF ok vw] by (simp add: free_def)
    qed
  qed
qed

lemma randbelow_seed:
  assumes "randbelow chacha20 fuel n r = (x, r')"
  shows "rng_seed r' = rng_seed r"
proof (cases "1 \<le> n")
  case True
  then have k: "1 \<le> bit_length (nat n)" by (intro bit_length_pos) simp
  have "randbelow_loop chacha20 f (int k) n y s = (x, s') \<Longrightarrow> rng_seed s' = rng_seed s" if "1 \<le> k" for f k y s s'
  proof (induction f arbitrary: y s)
    case (Suc f)
    then show ?case by (fastforce simp: sm_simps randbits_draw [OF that] skip_draws_def split: if_splits)
  qed (simp add: sm_simps)
  from this [OF k] show ?thesis using assms True by (auto simp: randbelow_def sm_simps randbits_draw [OF k] skip_draws_def)
next
  case False
  then show ?thesis using assms by (simp add: randbelow_def sm_simps)
qed

lemma sorter_round_step:
  assumes ok: "graph_ok s0" and it: "iterates it" and inv: "order_inv s0 P st"
  shows "(os_candidates st = [] \<and> fst (sorter_round it chacha20 fuel st) = Inl AssertionError) \<or>
     (os_candidates st \<noteq> [] \<and> (\<exists>e. fst (randbelow chacha20 fuel (int (length (os_candidates st))) (os_rng st)) = Inl e \<and>
        fst (sorter_round it chacha20 fuel st) = Inl e)) \<or>
     (\<exists>v st'. sorter_round it chacha20 fuel st = (Inr (), st') \<and> v \<in> free s0 (set P) \<and> order_inv s0 (P @ [v]) st' \<and>
        rng_seed (os_rng st') = rng_seed (os_rng st))"
proof (cases "os_candidates st = []")
  case True
  then show ?thesis by (simp add: sorter_round_def sm_simps)
next
  case ne: False
  obtain x r' where rb: "randbelow chacha20 fuel (int (length (os_candidates st))) (os_rng st) = (x, r')" by fastforce
  show ?thesis
  proof (cases x)
    case (Inl e)
    then show ?thesis using ne rb by (simp add: sorter_round_def sm_simps on_rng_def)
  next
    case (Inr idx)
    let ?c = "os_candidates st" and ?i = "nat idx"
    let ?v = "?c ! ?i"
    have "0 \<le> idx \<and> idx < int (length ?c)" by (rule randbelow_range) (use rb Inr in simp)
    then have i: "?i < length ?c" by linarith
    have red: "reduced s0 (\<lambda>a. so_out s0 a - set P) (os_sorter st)" and top: "topological (so_out s0) P"
        and P: "set P \<subseteq> so_keys s0" and c: "distinct ?c" "set ?c = free s0 (set P)"
        and ret: "os_ret st = filter (\<lambda>v. v \<in> so_nc_hashes s0) P"
      using inv by (simp_all add: order_inv_def)
    have v: "?v \<in> free s0 (set P)" using i c(2) nth_mem by blast
    then have vk: "?v \<in> so_keys (os_sorter st)" "so_out s0 ?v - set P = {}" "?v \<notin> set P" "?v \<in> so_keys s0"
      using reduced_keys [OF red] by (auto simp: free_def)
    let ?c' = "take ?i ?c @ drop (Suc ?i) ?c"
    let ?ret = "os_ret st @ (if ?v \<in> so_nc_hashes s0 then [?v] else [])"
    let ?st = "st\<lparr>os_rng := r', os_candidates := ?c', os_ret := ?ret\<rparr>"
    have nc: "so_nc_hashes (os_sorter st) = so_nc_hashes s0" and inc: "so_in (os_sorter st) = so_in s0"
        and out: "so_out (os_sorter st) = (\<lambda>a. so_out s0 a - set P)" using red by (simp_all add: reduced_def)
    have run: "sorter_round it chacha20 fuel st = sfor (it (so_in s0 ?v)) (release_vertex ?v) ?st"
      using ne rb Inr vk
      by (simp add: sorter_round_def sm_simps on_rng_def Let_def on_sorter_def get_sorter_node_result nc inc out)
    have fin: "finite (so_in s0 ?v)" using ok by (simp add: graph_ok_def)
    have itv: "set (it (so_in s0 ?v)) = so_in s0 ?v" "distinct (it (so_in s0 ?v))" using it fin by (simp_all add: iterates_def)
    have sym: "b \<in> so_out s0 a \<longleftrightarrow> a \<in> so_in s0 b" for a b using ok by (simp add: graph_ok_def)
    have us: "\<forall>u \<in> set (it (so_in s0 ?v)). u \<in> so_keys s0 \<and> ?v \<in> so_out s0 u - set P"
      using itv(1) sym out_keys(1) [OF ok] vk(3) by auto
    have red': "reduced s0 (\<lambda>a. so_out s0 a - set P) (os_sorter ?st)" using red by simp
    obtain st' where st': "sfor (it (so_in s0 ?v)) (release_vertex ?v) ?st = (Inr (), st')"
        "reduced s0 (\<lambda>a. if a \<in> so_in s0 ?v then so_out s0 a - set P - {?v} else so_out s0 a - set P) (os_sorter st')"
        "os_candidates st' = ?c' @ filter (\<lambda>u. so_out s0 u - set P - {?v} = {}) (it (so_in s0 ?v))" "os_ret st' = ?ret"
        "os_rng st' = r'"
      using release_vertices [OF red' itv(2) us] itv(1) by auto
    have "(\<lambda>a. if a \<in> so_in s0 ?v then so_out s0 a - set P - {?v} else so_out s0 a - set P) = (\<lambda>a. so_out s0 a - set (P @ [?v]))"
      using sym by (auto simp: fun_eq_iff)
    then have r2: "reduced s0 (\<lambda>a. so_out s0 a - set (P @ [?v])) (os_sorter st')" using st'(2) by simp
    have c': "set ?c' = free s0 (set P) - {?v}" "distinct ?c'" using set_take_drop_nth [OF i c(1)] c(2) by simp_all
    have "set (os_candidates st') = free s0 (insert ?v (set P))"
      unfolding free_step [OF ok top v] st'(3) using c'(1) itv(1) by auto
    moreover have "set ?c' \<inter> so_in s0 ?v = {}"
    proof -
      have "x \<notin> so_in s0 ?v" if "x \<in> free s0 (set P)" for x
        using that sym [of ?v x] vk(3) by (auto simp: free_def)
      then show ?thesis unfolding c'(1) by blast
    qed
    then have "distinct (os_candidates st')"
      unfolding st'(3) distinct_append using c'(2) itv by auto
    moreover have "topological (so_out s0) (P @ [?v])" by (rule topological_snoc) (use top vk in auto)
    ultimately have "order_inv s0 (P @ [?v]) st'"
      using r2 P vk(4) ret st'(4) by (simp add: order_inv_def)
    then show ?thesis using run st'(1,5) v randbelow_seed [OF rb] by auto
  qed
qed

lemma sorter_rounds:
  assumes ok: "graph_ok s0" and it: "iterates it" and inv: "order_inv s0 P st"
    and run: "srepeat n (sorter_round it chacha20 fuel) st = (Inr xs, st')"
  shows "\<exists>Q. order_inv s0 (P @ Q) st' \<and> length Q = n"
  using inv run
proof (induction n arbitrary: P st xs)
  case 0
  then show ?case by (auto simp: sm_simps)
next
  case (Suc n)
  obtain u st1 ys where 1: "sorter_round it chacha20 fuel st = (Inr u, st1)" "srepeat n (sorter_round it chacha20 fuel) st1 = (Inr ys, st')"
    using Suc.prems(2) by (auto simp: sm_invert)
  then obtain v where "order_inv s0 (P @ [v]) st1" using sorter_round_step [OF ok it Suc.prems(1), of chacha20 fuel] by auto
  from Suc.IH [OF this 1(2)] obtain Q where "order_inv s0 ((P @ [v]) @ Q) st'" "length Q = n" by blast
  then show ?case by (intro exI [of _ "v # Q"]) simp
qed

text \<open>A graph without circles always has a candidate.\<close>

lemma free_nonempty:
  assumes ok: "graph_ok s0" and acyc: "acyclic (so_edges s0)" and P: "set P \<subset> so_keys s0"
  shows "free s0 (set P) \<noteq> {}"
proof -
  let ?R = "so_edges s0 \<inter> so_keys s0 \<times> so_keys s0"
  have "finite ?R" by (simp add: so_keys_def)
  moreover have "acyclic ?R" using acyc by (rule acyclic_subset) auto
  ultimately have wf: "wf (?R\<inverse>)" by (rule finite_acyclic_wf_converse)
  obtain x where "x \<in> so_keys s0 - set P" using P by auto
  then obtain z where z: "z \<in> so_keys s0 - set P" "\<And>y. (y, z) \<in> ?R\<inverse> \<Longrightarrow> y \<notin> so_keys s0 - set P"
    using wfE_min [OF wf] by metis
  have "so_out s0 z \<subseteq> set P"
  proof
    fix y
    assume y: "y \<in> so_out s0 z"
    then have "(y, z) \<in> ?R\<inverse>" using out_keys [OF ok y] by (simp add: so_edges_def)
    then show "y \<in> set P" using z(2) out_keys(2) [OF ok y] by blast
  qed
  then show ?thesis using z(1) by (auto simp: free_def)
qed

lemma order_inv_card:
  assumes "graph_ok s0" and "order_inv s0 P st" and "length P < length (so_db s0)"
  shows "set P \<subset> so_keys s0"
proof -
  have "so_keys s0 = set (map fst (so_db s0))" by (simp add: so_keys_def)
  then have "card (so_keys s0) = length (so_db s0)"
    using assms(1) distinct_card [of "map fst (so_db s0)"] by (simp add: graph_ok_def)
  moreover have "card (set P) = length P" "set P \<subseteq> so_keys s0"
    using assms(2) by (auto simp: order_inv_def topological_def distinct_card)
  ultimately show ?thesis using assms(3) by auto
qed

text \<open>With \<open>fuel\<close> rounds \<open>randbelow\<close> ends for the numbers up to \<open>m\<close>, wherever a generator of this seed stands.\<close>

definition draws :: "stream_cipher \<Rightarrow> nat \<Rightarrow> bytes \<Rightarrow> nat \<Rightarrow> bool" where
  "draws chacha20 fuel seed m \<longleftrightarrow>
     (\<forall>n r. 1 \<le> n \<longrightarrow> n \<le> int m \<longrightarrow> rng_seed r = seed \<longrightarrow> \<not> isl (fst (randbelow chacha20 fuel n r)))"

lemma draws_mono: "draws chacha20 fuel seed m \<Longrightarrow> n \<le> m \<Longrightarrow> draws chacha20 fuel seed n"
  by (simp add: draws_def)

lemma candidates_length:
  assumes "order_inv s0 P st"
  shows "length (os_candidates st) \<le> length (so_db s0)"
proof -
  have "set (os_candidates st) \<subseteq> set (map fst (so_db s0))" using assms by (auto simp: order_inv_def free_def so_keys_def)
  then have "card (set (os_candidates st)) \<le> length (map fst (so_db s0))" by (metis List.finite_set card_length card_mono le_trans)
  then show ?thesis using assms distinct_card by (fastforce simp: order_inv_def)
qed

lemma sorter_rounds_return:
  assumes ok: "graph_ok s0" and acyc: "acyclic (so_edges s0)" and it: "iterates it"
    and dr: "draws chacha20 fuel (rng_seed (os_rng st)) (length (so_db s0))"
    and inv: "order_inv s0 P st" and n: "length P + n \<le> length (so_db s0)"
  shows "\<exists>xs st'. srepeat n (sorter_round it chacha20 fuel) st = (Inr xs, st')"
  using dr inv n
proof (induction n arbitrary: P st)
  case 0
  then show ?case by (simp add: sm_simps)
next
  case (Suc n)
  have "set P \<subset> so_keys s0" using order_inv_card [OF ok Suc.prems(2)] Suc.prems(3) by simp
  then have "free s0 (set P) \<noteq> {}" by (rule free_nonempty [OF ok acyc])
  then have ne: "os_candidates st \<noteq> []" using Suc.prems(2) by (auto simp: order_inv_def)
  then have "1 \<le> int (length (os_candidates st))" by (cases "os_candidates st") auto
  then have "\<not> isl (fst (randbelow chacha20 fuel (int (length (os_candidates st))) (os_rng st)))"
    using Suc.prems(1) candidates_length [OF Suc.prems(2)] unfolding draws_def by simp
  then obtain v st1 where 1: "sorter_round it chacha20 fuel st = (Inr (), st1)" "order_inv s0 (P @ [v]) st1" "rng_seed (os_rng st1) = rng_seed (os_rng st)"
    using sorter_round_step [OF ok it Suc.prems(2), of chacha20 fuel] ne by auto
  from Suc.IH [OF _ this(2)] Suc.prems(1,3) 1(3) obtain xs st' where "srepeat n (sorter_round it chacha20 fuel) st1 = (Inr xs, st')" by auto
  then show ?case using 1 by (auto simp: sm_simps)
qed

lemma order_start:
  assumes "graph_ok s"
  shows "order_inv s [] \<lparr>os_sorter = s\<lparr>so_dirty := True\<rparr>, os_candidates = get_vertices_with_no_outgoing_edges s, os_ret = [], os_rng = rng\<rparr>"
proof -
  have d: "distinct (map fst (so_db s))" and ids: "\<And>a v. dict_get (so_db s) a = Some v \<Longrightarrow> sn_id v = a"
    using assms by (auto simp: graph_ok_def)
  have key: "sn_id (snd i) = fst i" if "i \<in> set (so_db s)" for i using ids d that by (metis map_of_is_SomeI prod.collapse)
  have e: "get_vertices_with_no_outgoing_edges s = map fst (filter (\<lambda>i. outgoing_edges (snd i) = {}) (so_db s))"
    unfolding get_vertices_with_no_outgoing_edges_def filter_map map_map comp_def using key by auto
  have "distinct (get_vertices_with_no_outgoing_edges s)" unfolding e using d by (rule distinct_map_filter)
  moreover have "a \<in> set (get_vertices_with_no_outgoing_edges s) \<longleftrightarrow> a \<in> free s {}" for a
  proof -
    have "a \<in> set (get_vertices_with_no_outgoing_edges s) \<longleftrightarrow> (\<exists>v. (a, v) \<in> set (so_db s) \<and> outgoing_edges v = {})"
      unfolding e by force
    also have "\<dots> \<longleftrightarrow> (\<exists>v. dict_get (so_db s) a = Some v \<and> outgoing_edges v = {})" using d by simp
    also have "\<dots> \<longleftrightarrow> a \<in> free s {}" by (auto simp: free_def keys_get so_out_def split: option.splits)
    finally show ?thesis .
  qed
  ultimately show ?thesis
    by (auto simp: order_inv_def reduced_def topological_def so_in_def so_out_def fun_eq_iff)
qed

section \<open>The order\<close>

definition comes_before :: "'a list \<Rightarrow> 'a \<Rightarrow> 'a \<Rightarrow> bool" where
  "comes_before xs b a \<longleftrightarrow> (\<exists>us vs. xs = us @ vs \<and> b \<in> set us \<and> a \<in> set vs)"

lemma comes_before_trans:
  assumes "distinct xs" and "comes_before xs c b" and "comes_before xs b a"
  shows "comes_before xs c a"
proof -
  obtain us vs where 1: "xs = us @ vs" "c \<in> set us" "b \<in> set vs" using assms(2) by (auto simp: comes_before_def)
  obtain us' vs' where 2: "xs = us' @ vs'" "b \<in> set us'" "a \<in> set vs'" using assms(3) by (auto simp: comes_before_def)
  have "us @ vs = us' @ vs'" using 1 2 by simp
  then consider ws where "us = us' @ ws" | ws where "us' = us @ ws" by (auto simp: append_eq_append_conv2)
  then show ?thesis
  proof cases
    case 1
    then show ?thesis using assms(1) 2 \<open>b \<in> set vs\<close> \<open>xs = us @ vs\<close> by auto
  next
    case (2 ws)
    then have "c \<in> set us'" using \<open>c \<in> set us\<close> by simp
    then show ?thesis using \<open>xs = us' @ vs'\<close> \<open>a \<in> set vs'\<close> by (auto simp: comes_before_def)
  qed
qed

lemma comes_before_filter: "comes_before xs b a \<Longrightarrow> f a \<Longrightarrow> f b \<Longrightarrow> comes_before (filter f xs) b a"
  unfolding comes_before_def by (metis (mono_tags, lifting) filter_append mem_Collect_eq set_filter)

lemma comes_before_map: "comes_before xs b a \<Longrightarrow> comes_before (map f xs) (f b) (f a)"
  unfolding comes_before_def by (metis map_append image_eqI list.set_map)

lemma topological_before:
  assumes "topological out P" and "a \<in> set P" and "b \<in> out a"
  shows "comes_before P b a"
proof -
  obtain xs ys where e: "P = xs @ a # ys" using assms(2) by (meson split_list)
  then have "b \<in> set xs" using assms(1,3) by (auto simp: topological_def)
  then show ?thesis unfolding comes_before_def e by (intro exI [of _ xs] exI [of _ "a # ys"]) simp
qed

lemma generated_order:
  assumes ok: "graph_ok s" and it: "iterates it"
    and run: "generate_random_topological_order it chacha20 fuel seed s = Inr order"
  shows "distinct order \<and> set order = so_nc_hashes s \<inter> so_keys s \<and>
     (\<forall>a b. (a, b) \<in> (so_edges s)\<^sup>+ \<longrightarrow> a \<in> set order \<longrightarrow> b \<in> set order \<longrightarrow> comes_before order b a)"
proof -
  obtain rng xs st' where nd: "\<not> so_dirty s" and "new_rng seed = Inr rng"
    and rep: "srepeat (length (so_db s)) (sorter_round it chacha20 fuel)
        \<lparr>os_sorter = s\<lparr>so_dirty := True\<rparr>, os_candidates = get_vertices_with_no_outgoing_edges s, os_ret = [], os_rng = rng\<rparr> = (Inr xs, st')"
    and order: "order = os_ret st'"
  proof -
    have nd: "\<not> so_dirty s" using run by (auto simp: generate_random_topological_order_def split: if_splits)
    then obtain rng where rng: "new_rng seed = Inr rng"
      using run by (cases "new_rng seed") (auto simp: generate_random_topological_order_def ebind_simps)
    let ?st = "\<lparr>os_sorter = s\<lparr>so_dirty := True\<rparr>, os_candidates = get_vertices_with_no_outgoing_edges s, os_ret = [], os_rng = rng\<rparr>"
    obtain r st' where r: "srepeat (length (so_db s)) (sorter_round it chacha20 fuel) ?st = (r, st')" by (rule prod.exhaust)
    then show ?thesis using run nd rng that by (cases r) (auto simp: generate_random_topological_order_def ebind_simps)
  qed
  from sorter_rounds [OF ok it order_start [OF ok] rep] obtain P where P: "order_inv s P st'" "length P = length (so_db s)" by auto
  have top: "topological (so_out s) P" and sub: "set P \<subseteq> so_keys s" and d: "distinct P"
    using P(1) by (simp_all add: order_inv_def topological_def)
  have o: "order = filter (\<lambda>v. v \<in> so_nc_hashes s) P" using P(1) order by (simp add: order_inv_def)
  have "so_keys s = set (map fst (so_db s))" by (simp add: so_keys_def)
  then have "card (so_keys s) \<le> length (so_db s)" using card_length [of "map fst (so_db s)"] by simp
  moreover have "card (set P) = length (so_db s)" using d P(2) distinct_card by metis
  ultimately have all: "set P = so_keys s" using sub by (intro card_seteq) (simp_all add: so_keys_def)
  have "comes_before P b a" if "(a, b) \<in> (so_edges s)\<^sup>+" for a b
    using that
  proof (induction rule: trancl_induct)
    case (base b)
    then have "b \<in> so_out s a" by (simp add: so_edges_def)
    then show ?case using topological_before [OF top] out_keys(1) [OF ok] all by blast
  next
    case (step b c)
    then have cb: "c \<in> so_out s b" by (simp add: so_edges_def)
    then have "comes_before P c b" using topological_before [OF top] out_keys(1) [OF ok] all by blast
    then show ?case using comes_before_trans [OF d] step.IH by blast
  qed
  then show ?thesis using o d all comes_before_filter [of P _ _ "\<lambda>v. v \<in> so_nc_hashes s"] by auto
qed

lemma generate_returns:
  assumes ok: "graph_ok s" and acyc: "acyclic (so_edges s)" and it: "iterates it"
    and dr: "draws chacha20 fuel seed (length (so_db s))" and "\<not> so_dirty s" and "length seed = 32"
  shows "\<exists>order. generate_random_topological_order it chacha20 fuel seed s = Inr order"
proof -
  let ?rng = "\<lparr>rng_seed = seed, rng_pos = 0\<rparr>"
  obtain xs st' where "srepeat (length (so_db s)) (sorter_round it chacha20 fuel)
      \<lparr>os_sorter = s\<lparr>so_dirty := True\<rparr>, os_candidates = get_vertices_with_no_outgoing_edges s, os_ret = [], os_rng = ?rng\<rparr> = (Inr xs, st')"
    using sorter_rounds_return [OF ok acyc it _ order_start [OF ok, of ?rng], of chacha20 fuel "length (so_db s)"] dr by auto
  then show ?thesis using assms(5,6) by (simp add: generate_random_topological_order_def new_rng_def ebind_simps)
qed

end
