(* ===== verification/Block_Order.thy ===== *)
theory Block_Order
  imports Sorter_Props
begin

text \<open>
  The graph that the sorter builds for a block: its edges are the dependencies of the transactions and the order of the
  seqnums of an address. It has no circles when dependencies go back in time, so that every block has an order.
\<close>

section \<open>The graph of a block\<close>

definition adds :: "bytes set \<Rightarrow> (bytes \<times> bytes) set \<Rightarrow> (nc_sorter, 'a) sm \<Rightarrow> bool" where
  "adds V E m \<longleftrightarrow>
     (\<forall>s. graph_ok s \<longrightarrow> (\<exists>x s'. m s = (Inr x, s') \<and> graph_ok s' \<and> so_keys s' = V \<union> so_keys s \<and> so_edges s' = E \<union> so_edges s \<and>
        so_nc_hashes s' = so_nc_hashes s \<and> so_dirty s' = so_dirty s))"

lemma addsD:
  "adds V E m \<Longrightarrow> graph_ok s \<Longrightarrow> \<exists>x s'. m s = (Inr x, s') \<and> graph_ok s' \<and> so_keys s' = V \<union> so_keys s \<and> so_edges s' = E \<union> so_edges s \<and>
     so_nc_hashes s' = so_nc_hashes s \<and> so_dirty s' = so_dirty s"
  by (simp add: adds_def)

lemma adds_simple:
  "adds {} {} (sret x)" "adds {a} {} (add_vertex a)" "a \<noteq> b \<Longrightarrow> adds {a, b} {(a, b)} (add_edge a b)"
proof -
  show "adds {} {} (sret x)" by (simp add: adds_def sm_simps)
  show "adds {a} {} (add_vertex a)" unfolding adds_def using add_vertex_result [of _ a] by fastforce
  show "a \<noteq> b \<Longrightarrow> adds {a, b} {(a, b)} (add_edge a b)" unfolding adds_def using add_edge_result [of _ a b] by fastforce
qed

lemma adds_sthen:
  assumes "adds V E m" and "adds W F n"
  shows "adds (V \<union> W) (E \<union> F) (sthen m n)"
  unfolding adds_def
proof (intro allI impI)
  fix s
  assume "graph_ok s"
  then obtain x s1 where 1: "m s = (Inr x, s1)" "graph_ok s1" "so_keys s1 = V \<union> so_keys s" "so_edges s1 = E \<union> so_edges s"
      "so_nc_hashes s1 = so_nc_hashes s" "so_dirty s1 = so_dirty s" using assms(1) unfolding adds_def by blast
  then obtain y s2 where "n s1 = (Inr y, s2)" "graph_ok s2" "so_keys s2 = W \<union> so_keys s1" "so_edges s2 = F \<union> so_edges s1"
      "so_nc_hashes s2 = so_nc_hashes s1" "so_dirty s2 = so_dirty s1" using assms(2) unfolding adds_def by blast
  then show "\<exists>x s'. sthen m n s = (Inr x, s') \<and> graph_ok s' \<and> so_keys s' = V \<union> W \<union> so_keys s \<and> so_edges s' = E \<union> F \<union> so_edges s \<and>
      so_nc_hashes s' = so_nc_hashes s \<and> so_dirty s' = so_dirty s"
    using 1 by (auto simp: sm_simps)
qed

lemma adds_sfor:
  "(\<And>x. x \<in> set xs \<Longrightarrow> adds (V x) (E x) (f x)) \<Longrightarrow> adds (\<Union>x \<in> set xs. V x) (\<Union>x \<in> set xs. E x) (sfor xs f)"
proof (induction xs)
  case Nil
  then show ?case by (simp add: adds_simple)
next
  case (Cons x xs)
  then have "adds (V x \<union> (\<Union>x \<in> set xs. V x)) (E x \<union> (\<Union>x \<in> set xs. E x)) (sthen (f x) (sfor xs f))"
    by (intro adds_sthen) simp_all
  then show ?case by simp
qed

text \<open>The ids that a transaction depends on: the inputs, and the contract or blueprint it calls.\<close>

definition deps :: "nc_tx \<Rightarrow> bytes set" where
  "deps tx = (case tx_nano_header tx of None \<Rightarrow> {} | Some header \<Rightarrow> {nh_id header}) \<union> txin_tx_id ` set (tx_inputs tx)"

definition funds_edges :: "nc_tx list \<Rightarrow> (bytes \<times> bytes) set" where
  "funds_edges txs = (\<Union>tx \<in> set txs. {tx_hash tx} \<times> deps tx)"

definition pair_edges :: "nat \<times> nc_tx list \<times> nc_tx list \<Rightarrow> (bytes \<times> bytes) set" where
  "pair_edges item =
     (case item of (n, prev, later) \<Rightarrow>
        {dummy_node_id n} \<times> tx_hash ` set prev \<union>
        tx_hash ` {c \<in> set later. Max (tx_timestamp ` set prev) < tx_timestamp c} \<times> {dummy_node_id n})"

definition seq_edges :: "(nc_tx list \<times> nc_tx list) list \<Rightarrow> (bytes \<times> bytes) set" where
  "seq_edges pairs = (\<Union>item \<in> set (List.enumerate 0 pairs). pair_edges item)"

lemma adds_funds:
  assumes "tx_hash tx \<notin> deps tx"
  shows "adds ({tx_hash tx} \<union> deps tx) ({tx_hash tx} \<times> deps tx) (add_funds_edges tx)"
proof -
  let ?h = "tx_hash tx" and ?I = "txin_tx_id ` set (tx_inputs tx)" and ?D = "case tx_nano_header tx of None \<Rightarrow> {} | Some header \<Rightarrow> {nh_id header}"
  have hd: "adds (if ?D = {} then {} else {?h} \<union> ?D) ({?h} \<times> ?D)
      (case tx_nano_header tx of None \<Rightarrow> sret () | Some header \<Rightarrow> add_edge ?h (nh_id header))"
    using assms adds_simple(3) [of ?h] by (auto simp: deps_def adds_simple split: option.splits)
  have ins: "adds (\<Union>x \<in> ?I. {?h, x}) (\<Union>x \<in> ?I. {(?h, x)}) (sfor (tx_inputs tx) (\<lambda>txin. add_edge ?h (txin_tx_id txin)))"
    unfolding UN_simps(10) using assms by (intro adds_sfor adds_simple) (auto simp: deps_def)
  have "adds ({?h} \<union> ((if ?D = {} then {} else {?h} \<union> ?D) \<union> (\<Union>x \<in> ?I. {?h, x}))) ({} \<union> ({?h} \<times> ?D \<union> (\<Union>x \<in> ?I. {(?h, x)}))) (add_funds_edges tx)"
    unfolding add_funds_edges_def by (intro adds_sthen adds_simple hd ins)
  moreover have "{?h} \<union> ((if ?D = {} then {} else {?h} \<union> ?D) \<union> (\<Union>x \<in> ?I. {?h, x})) = {?h} \<union> deps tx"
    by (auto simp: deps_def)
  moreover have "{} \<union> ({?h} \<times> ?D \<union> (\<Union>x \<in> ?I. {(?h, x)})) = {?h} \<times> deps tx" by (auto simp: deps_def)
  ultimately show ?thesis by simp
qed

lemma adds_pair:
  assumes "\<And>tx. tx \<in> set prev \<union> set later \<Longrightarrow> tx_hash tx \<noteq> dummy_node_id n"
  shows "\<exists>V. adds V (pair_edges (n, prev, later)) (add_seqnum_edges (n, prev, later))"
proof -
  let ?d = "dummy_node_id n" and ?l = "\<lambda>c. Max (set (map tx_timestamp prev)) < tx_timestamp c"
  have p: "adds (\<Union>x \<in> set prev. {?d, tx_hash x}) (\<Union>x \<in> set prev. {(?d, tx_hash x)}) (sfor prev (\<lambda>prev_tx. add_edge ?d (tx_hash prev_tx)))"
    using assms by (intro adds_sfor adds_simple) (metis UnI1)
  have "adds (if ?l x then {tx_hash x, ?d} else {}) (if ?l x then {(tx_hash x, ?d)} else {})
      (if ?l x then add_edge (tx_hash x) ?d else sret ())" if "x \<in> set later" for x
    using assms [of x] that adds_simple(1) [of "()"] adds_simple(3) [of "tx_hash x" ?d] by simp
  then have c: "adds (\<Union>x \<in> set later. if ?l x then {tx_hash x, ?d} else {}) (\<Union>x \<in> set later. if ?l x then {(tx_hash x, ?d)} else {})
      (sfor later (\<lambda>x. if ?l x then add_edge (tx_hash x) ?d else sret ()))" by (rule adds_sfor)
  have e: "{} \<union> ((\<Union>x \<in> set prev. {(?d, tx_hash x)}) \<union> (\<Union>x \<in> set later. if ?l x then {(tx_hash x, ?d)} else {})) = pair_edges (n, prev, later)"
    by (auto simp: pair_edges_def split: if_splits)
  show ?thesis
    unfolding add_seqnum_edges_def prod.case e [symmetric]
    by (rule exI, rule adds_sthen [OF adds_simple(2) adds_sthen [OF p c]])
qed

section \<open>Groups of seqnums\<close>

abbreviation tx_header :: "nc_tx \<Rightarrow> nano_header" where "tx_header tx \<equiv> the (tx_nano_header tx)"
abbreviation tx_address :: "nc_tx \<Rightarrow> bytes" where "tx_address tx \<equiv> nh_address (tx_header tx)"
abbreviation tx_seqnum :: "nc_tx \<Rightarrow> int" where "tx_seqnum tx \<equiv> nh_seqnum (tx_header tx)"

lemma nano_headers_some:
  "(\<And>tx. tx \<in> set txs \<Longrightarrow> tx_nano_header tx \<noteq> None) \<Longrightarrow> nano_headers txs = Inr (map (\<lambda>tx. (tx, tx_header tx)) txs)"
  by (induction txs) (auto split: option.splits)

lemma append_to_get:
  "dict_get (append_to k v D) q = (if q = k then Some ((case dict_get D k of None \<Rightarrow> [] | Some vs \<Rightarrow> vs) @ [v]) else dict_get D q)"
  by (simp add: append_to_def)

definition in_group :: "bytes \<Rightarrow> nc_tx list \<Rightarrow> int \<Rightarrow> nc_tx set" where
  "in_group addr calls q = {tx \<in> set calls. tx_address tx = addr \<and> tx_seqnum tx = q}"

definition seqnum_group :: "bytes \<Rightarrow> nc_tx list \<Rightarrow> (int, nc_tx list) dict \<Rightarrow> bool" where
  "seqnum_group addr calls D \<longleftrightarrow> distinct (map fst D) \<and>
     (\<forall>q. case dict_get D q of None \<Rightarrow> in_group addr calls q = {} | Some txs \<Rightarrow> txs \<noteq> [] \<and> set txs = in_group addr calls q)"

definition grouped_ok :: "nc_tx list \<Rightarrow> (bytes, (int, nc_tx list) dict) dict \<Rightarrow> bool" where
  "grouped_ok calls G \<longleftrightarrow> distinct (map fst G) \<and>
     (\<forall>addr. seqnum_group addr calls (case dict_get G addr of None \<Rightarrow> [] | Some D \<Rightarrow> D))"

lemma in_group_snoc:
  "in_group addr (calls @ [tx]) q = (if tx_address tx = addr \<and> tx_seqnum tx = q then {tx} else {}) \<union> in_group addr calls q"
  by (auto simp: in_group_def)

lemma seqnum_group_append:
  assumes "seqnum_group (tx_address tx) calls D"
  shows "seqnum_group (tx_address tx) (calls @ [tx]) (append_to (tx_seqnum tx) tx D)"
proof -
  let ?addr = "tx_address tx"
  have "case dict_get (append_to (tx_seqnum tx) tx D) q of None \<Rightarrow> in_group ?addr (calls @ [tx]) q = {}
      | Some txs \<Rightarrow> txs \<noteq> [] \<and> set txs = in_group ?addr (calls @ [tx]) q" for q
  proof -
    have "case dict_get D q of None \<Rightarrow> in_group ?addr calls q = {} | Some txs \<Rightarrow> txs \<noteq> [] \<and> set txs = in_group ?addr calls q"
      using assms unfolding seqnum_group_def by blast
    then show ?thesis
      by (cases "q = tx_seqnum tx"; cases "dict_get D q") (simp_all only: append_to_get in_group_snoc if_True if_False option.case simp_thms, auto)
  qed
  then show ?thesis using assms by (simp add: seqnum_group_def append_to_def)
qed

lemma seqnum_group_other: "tx_address tx \<noteq> addr \<Longrightarrow> seqnum_group addr calls D \<Longrightarrow> seqnum_group addr (calls @ [tx]) D"
proof -
  assume "tx_address tx \<noteq> addr"
  then have e: "in_group addr (calls @ [tx]) = in_group addr calls" by (simp add: fun_eq_iff in_group_snoc)
  show "seqnum_group addr calls D \<Longrightarrow> seqnum_group addr (calls @ [tx]) D" unfolding seqnum_group_def e .
qed

lemma grouped_step:
  assumes "grouped_ok calls G"
  shows "grouped_ok (calls @ [tx]) (add_to_grouped G (tx, tx_header tx))"
proof -
  have "seqnum_group addr (calls @ [tx]) (case dict_get (add_to_grouped G (tx, tx_header tx)) addr of None \<Rightarrow> [] | Some D \<Rightarrow> D)" for addr
    using assms seqnum_group_append [of tx calls] seqnum_group_other [of tx addr calls]
    by (cases "addr = tx_address tx") (simp_all add: grouped_ok_def add_to_grouped_def)
  then show ?thesis using assms by (simp add: grouped_ok_def add_to_grouped_def)
qed

lemma grouped: "grouped_ok calls (foldl add_to_grouped [] (map (\<lambda>tx. (tx, tx_header tx)) calls))"
proof (induction calls rule: rev_induct)
  case Nil
  then show ?case by (simp add: grouped_ok_def seqnum_group_def in_group_def)
next
  case (snoc tx calls)
  then show ?case using grouped_step by simp
qed

lemma seqnum_pairs_members: "(prev, later) \<in> set (seqnum_pairs D) \<Longrightarrow> prev \<in> snd ` set D \<and> later \<in> snd ` set D"
proof -
  let ?L = "map snd (sort_key fst D)"
  assume "(prev, later) \<in> set (seqnum_pairs D)"
  then have "prev \<in> set ?L" "later \<in> set (tl ?L)"
    unfolding seqnum_pairs_def Let_def by (rule set_zip_leftD, rule set_zip_rightD)
  moreover have "set (tl ?L) \<subseteq> set ?L" by (cases ?L) auto
  moreover have "set ?L = snd ` set D" by simp
  ultimately show ?thesis by blast
qed

lemma pair_calls:
  assumes "(prev, later) \<in> set (all_seqnum_pairs (map (\<lambda>tx. (tx, tx_header tx)) calls))"
  shows "prev \<noteq> []" "set prev \<subseteq> set calls" "set later \<subseteq> set calls"
proof -
  let ?G = "foldl add_to_grouped [] (map (\<lambda>tx. (tx, tx_header tx)) calls)"
  obtain addr D where G: "(addr, D) \<in> set ?G" and p: "(prev, later) \<in> set (seqnum_pairs D)"
    using assms by (auto simp: all_seqnum_pairs_def)
  have "dict_get ?G addr = Some D" using G grouped [of calls] by (simp add: grouped_ok_def)
  then have grp: "seqnum_group addr calls D" using grouped [of calls] by (auto simp: grouped_ok_def dest: spec [of _ addr])
  have "prev \<in> snd ` set D" "later \<in> snd ` set D"
    using seqnum_pairs_members [OF p] by simp_all
  moreover have "txs \<noteq> [] \<and> set txs \<subseteq> set calls" if "txs \<in> snd ` set D" for txs
  proof -
    obtain q where "dict_get D q = Some txs" using \<open>txs \<in> snd ` set D\<close> grp by (auto simp: seqnum_group_def)
    then show ?thesis using grp by (auto simp: seqnum_group_def in_group_def dest!: spec [of _ q])
  qed
  ultimately show "prev \<noteq> []" "set prev \<subseteq> set calls" "set later \<subseteq> set calls" by auto
qed

section \<open>Numbers of the dummy nodes\<close>

definition decimal_value :: "bytes \<Rightarrow> nat" where
  "decimal_value ds = foldl (\<lambda>n d. 10 * n + (unat d - 48)) 0 ds"

lemma decimal_value_decimal: "decimal_value (decimal n) = n"
proof (induction n rule: decimal.induct)
  case (1 n)
  have digit: "unat (48 + of_nat d :: 8 word) - 48 = d" if "d < 10" for d :: nat
  proof -
    have "unat (48 + of_nat d :: 8 word) = unat (of_nat (48 + d) :: 8 word)" by simp
    also have "\<dots> = 48 + d" unfolding unat_of_nat using that by simp
    finally show ?thesis by simp
  qed
  show ?case
  proof (cases "n < 10")
    case True
    then show ?thesis using digit [of n] by (simp add: decimal_value_def)
  next
    case False
    then have "decimal n = decimal (n div 10) @ [48 + of_nat (n mod 10)]" by simp
    then have "decimal_value (decimal n) = 10 * decimal_value (decimal (n div 10)) + (unat (48 + of_nat (n mod 10) :: 8 word) - 48)"
      by (simp only: decimal_value_def foldl_append foldl.simps)
    then show ?thesis using "1.IH" [OF False] digit [of "n mod 10"] by simp
  qed
qed

lemma dummy_node_id_inj: "dummy_node_id m = dummy_node_id n \<longleftrightarrow> m = n"
  unfolding dummy_node_id_def append_same_eq same_append_eq using decimal_value_decimal by metis

section \<open>The sorter of a block\<close>

text \<open>
  What a block gives: transactions with different hashes, of which \<open>calls\<close> are executed, no id that looks like a dummy
  node, and dependencies inside of the block on transactions with smaller timestamps.
\<close>

definition block_ok :: "nc_tx list \<Rightarrow> nc_tx list \<Rightarrow> bool" where
  "block_ok txs calls \<longleftrightarrow>
     inj_on tx_hash (set txs) \<and> set calls \<subseteq> set txs \<and> distinct calls \<and> (\<forall>tx \<in> set calls. tx_nano_header tx \<noteq> None) \<and>
     (\<forall>tx \<in> set txs. \<forall>v \<in> insert (tx_hash tx) (deps tx). v \<notin> range dummy_node_id) \<and>
     (\<forall>tx \<in> set txs. \<forall>t \<in> set txs. tx_hash t \<in> deps tx \<longrightarrow> tx_timestamp t < tx_timestamp tx)"

abbreviation block_pairs :: "nc_tx list \<Rightarrow> (nc_tx list \<times> nc_tx list) list" where
  "block_pairs calls \<equiv> all_seqnum_pairs (map (\<lambda>tx. (tx, tx_header tx)) calls)"

abbreviation block_edges :: "nc_tx list \<Rightarrow> nc_tx list \<Rightarrow> (bytes \<times> bytes) set" where
  "block_edges txs calls \<equiv> funds_edges txs \<union> seq_edges (block_pairs calls)"

lemma adds_enumerate:
  assumes "\<And>item. item \<in> set xs \<Longrightarrow> \<exists>V. adds V (E item) (f item)"
  shows "\<exists>V. adds V (\<Union>item \<in> set xs. E item) (sfor xs f)"
proof -
  from assms obtain V where "\<And>item. item \<in> set xs \<Longrightarrow> adds (V item) (E item) (f item)" by metis
  then have "adds (\<Union>item \<in> set xs. V item) (\<Union>item \<in> set xs. E item) (sfor xs f)" by (rule adds_sfor)
  then show ?thesis ..
qed

lemma enumerate_members: "(n, p) \<in> set (List.enumerate 0 xs) \<longleftrightarrow> n < length xs \<and> xs ! n = p"
  by (auto simp: in_set_enumerate_eq)

lemma create_result:
  assumes "block_ok txs calls"
  shows "\<exists>s. create_from_block txs calls = Inr s \<and> graph_ok s \<and> so_edges s = block_edges txs calls \<and> tx_hash ` set txs \<subseteq> so_keys s \<and>
     so_nc_hashes s = tx_hash ` set calls \<and> \<not> so_dirty s"
proof -
  let ?s0 = "new_sorter (set (map tx_hash calls))"
  have "tx_hash tx \<notin> deps tx" if "tx \<in> set txs" for tx using assms that by (auto simp: block_ok_def)
  then have f: "adds (\<Union>tx \<in> set txs. {tx_hash tx} \<union> deps tx) (funds_edges txs) (sfor txs add_funds_edges)"
    unfolding funds_edges_def by (intro adds_sfor adds_funds) simp
  have "\<exists>V. adds V (pair_edges item) (add_seqnum_edges item)" if item: "item \<in> set (List.enumerate 0 (block_pairs calls))" for item
  proof -
    obtain n prev later where i: "item = (n, prev, later)" by (cases item) auto
    then have "(prev, later) \<in> set (block_pairs calls)" using item enumerate_members nth_mem by metis
    from pair_calls [OF this] have "set prev \<union> set later \<subseteq> set txs" using assms by (auto simp: block_ok_def)
    then have "tx_hash tx \<noteq> dummy_node_id n" if "tx \<in> set prev \<union> set later" for tx
      using assms that unfolding block_ok_def by blast
    then show ?thesis unfolding i by (rule adds_pair)
  qed
  then have "\<exists>W. adds W (seq_edges (block_pairs calls)) (sfor (List.enumerate 0 (block_pairs calls)) add_seqnum_edges)"
    unfolding seq_edges_def by (rule adds_enumerate)
  then obtain W where q: "adds W (seq_edges (block_pairs calls)) (sfor (List.enumerate 0 (block_pairs calls)) add_seqnum_edges)" ..
  have hd: "nano_headers calls = Inr (map (\<lambda>tx. (tx, tx_header tx)) calls)"
    using assms by (intro nano_headers_some) (auto simp: block_ok_def)
  have g: "graph_ok ?s0" "so_edges ?s0 = {}" "so_nc_hashes ?s0 = tx_hash ` set calls" "\<not> so_dirty ?s0"
    by (simp_all add: new_sorter_def graph_ok_def so_out_def so_in_def so_edges_def)
  let ?m = "sthen (sfor txs add_funds_edges) (sfor (List.enumerate 0 (block_pairs calls)) add_seqnum_edges)"
  obtain x s where s: "?m ?s0 = (Inr x, s)" "graph_ok s" "so_keys s = (\<Union>tx \<in> set txs. {tx_hash tx} \<union> deps tx) \<union> W \<union> so_keys ?s0"
      "so_edges s = block_edges txs calls \<union> so_edges ?s0" "so_nc_hashes s = so_nc_hashes ?s0" "so_dirty s = so_dirty ?s0"
    using addsD [OF adds_sthen [OF f q] g(1)] by blast
  have "create_from_block txs calls = Inr s" unfolding create_from_block_def hd sum.case s(1) by simp
  moreover have "tx_hash ` set txs \<subseteq> so_keys s" unfolding s(3) by blast
  ultimately show ?thesis using s(2) s(4-) g(2-) by (intro exI [of _ s]) simp
qed

text \<open>Every edge goes down in this rank, so there are no circles.\<close>

definition rank :: "nc_tx list \<Rightarrow> (nc_tx list \<times> nc_tx list) list \<Rightarrow> bytes \<Rightarrow> nat" where
  "rank txs pairs v =
     (if v \<in> range dummy_node_id
      then 2 * Max (tx_timestamp ` set (fst (pairs ! (THE n. v = dummy_node_id n)))) + 2
      else if v \<in> tx_hash ` set txs then 2 * tx_timestamp (the_inv_into (set txs) tx_hash v) + 1 else 0)"

lemma rank_dummy: "rank txs pairs (dummy_node_id n) = 2 * Max (tx_timestamp ` set (fst (pairs ! n))) + 2"
  by (simp add: rank_def dummy_node_id_inj)

lemma rank_tx:
  "inj_on tx_hash (set txs) \<Longrightarrow> tx \<in> set txs \<Longrightarrow> tx_hash tx \<notin> range dummy_node_id \<Longrightarrow> rank txs pairs (tx_hash tx) = 2 * tx_timestamp tx + 1"
  by (simp add: rank_def the_inv_into_f_f)

lemma funds_rank:
  assumes ok: "block_ok txs calls" and e: "(a, b) \<in> funds_edges txs"
  shows "rank txs pairs b < rank txs pairs a"
proof -
  have ok': "inj_on tx_hash (set txs)" "\<And>tx v. tx \<in> set txs \<Longrightarrow> v \<in> insert (tx_hash tx) (deps tx) \<Longrightarrow> v \<notin> range dummy_node_id"
    "\<And>tx t. tx \<in> set txs \<Longrightarrow> t \<in> set txs \<Longrightarrow> tx_hash t \<in> deps tx \<Longrightarrow> tx_timestamp t < tx_timestamp tx"
    using ok unfolding block_ok_def by blast+
  obtain tx where tx: "tx \<in> set txs" "a = tx_hash tx" "b \<in> deps tx" using e by (auto simp: funds_edges_def)
  have a: "rank txs pairs a = 2 * tx_timestamp tx + 1" using rank_tx [OF ok'(1) tx(1)] ok'(2) [OF tx(1)] tx(2) by simp
  show ?thesis
  proof (cases "b \<in> tx_hash ` set txs")
    case True
    then obtain t where t: "t \<in> set txs" "b = tx_hash t" by blast
    have "rank txs pairs b = 2 * tx_timestamp t + 1" using rank_tx [OF ok'(1) t(1)] ok'(2) [OF t(1)] t(2) by simp
    then show ?thesis using a ok'(3) [OF tx(1) t(1)] tx(3) t(2) by simp
  next
    case False
    then have "rank txs pairs b = 0" using ok'(2) [OF tx(1)] tx(3) by (simp add: rank_def)
    then show ?thesis using a by simp
  qed
qed

lemma seq_edgesE:
  assumes "(a, b) \<in> seq_edges pairs"
  obtains n prev later where "n < length pairs" "pairs ! n = (prev, later)" "(a, b) \<in> pair_edges (n, prev, later)"
proof -
  obtain item where i: "item \<in> set (List.enumerate 0 pairs)" "(a, b) \<in> pair_edges item" using assms unfolding seq_edges_def by blast
  obtain n prev later where "item = (n, prev, later)" by (cases item) auto
  then show ?thesis using that i enumerate_members by metis
qed

lemma pair_rank:
  assumes ok: "block_ok txs calls" and sub: "set prev \<subseteq> set txs" "set later \<subseteq> set txs" and n: "pairs ! n = (prev, later)"
    and ab: "(a, b) \<in> pair_edges (n, prev, later)"
  shows "rank txs pairs b < rank txs pairs a"
proof -
  have inj: "inj_on tx_hash (set txs)" using ok unfolding block_ok_def by blast
  have tx: "rank txs pairs (tx_hash tx) = 2 * tx_timestamp tx + 1" if "tx \<in> set txs" for tx
  proof -
    have "tx_hash tx \<notin> range dummy_node_id" using ok that unfolding block_ok_def by blast
    then show ?thesis by (rule rank_tx [OF inj that])
  qed
  have d: "rank txs pairs (dummy_node_id n) = 2 * Max (tx_timestamp ` set prev) + 2"
    unfolding rank_dummy n by simp
  consider p where "a = dummy_node_id n" "p \<in> set prev" "b = tx_hash p"
    | c where "c \<in> set later" "Max (tx_timestamp ` set prev) < tx_timestamp c" "a = tx_hash c" "b = dummy_node_id n"
    using ab by (auto simp: pair_edges_def)
  then show ?thesis
  proof cases
    case (1 p)
    then have "tx_timestamp p \<le> Max (tx_timestamp ` set prev)" by simp
    moreover have "p \<in> set txs" using 1(2) sub(1) by blast
    ultimately show ?thesis using d tx unfolding 1(1,3) by simp
  next
    case (2 c)
    then have "c \<in> set txs" using sub(2) by blast
    then show ?thesis using d tx 2(2) unfolding 2(3,4) by simp
  qed
qed

lemma seq_rank:
  assumes ok: "block_ok txs calls" and e: "(a, b) \<in> seq_edges (block_pairs calls)"
  shows "rank txs (block_pairs calls) b < rank txs (block_pairs calls) a"
proof -
  obtain n prev later where n: "n < length (block_pairs calls)" "block_pairs calls ! n = (prev, later)" and ab: "(a, b) \<in> pair_edges (n, prev, later)"
    using seq_edgesE [OF e] by blast
  have p: "(prev, later) \<in> set (block_pairs calls)" using n nth_mem by metis
  have "set calls \<subseteq> set txs" using ok unfolding block_ok_def by blast
  then have "set prev \<subseteq> set txs" "set later \<subseteq> set txs" using pair_calls(2,3) [OF p] by blast+
  then show ?thesis by (rule pair_rank [OF ok _ _ n(2) ab])
qed

lemma block_acyclic:
  assumes "block_ok txs calls"
  shows "acyclic (block_edges txs calls)"
proof -
  have "(block_edges txs calls)\<inverse> \<subseteq> measure (rank txs (block_pairs calls))"
    using funds_rank [OF assms] seq_rank [OF assms] by auto
  then have "wf ((block_edges txs calls)\<inverse>)" by (rule wf_subset [OF wf_measure])
  then show ?thesis using wf_acyclic acyclic_converse by blast
qed

section \<open>Seqnums of an address\<close>

lemma sorted_groups:
  assumes "distinct (map fst D)" and k: "Suc k < length D"
  shows "fst (sort_key fst D ! k) < fst (sort_key fst D ! Suc k)"
    "(snd (sort_key fst D ! k), snd (sort_key fst D ! Suc k)) \<in> set (seqnum_pairs D)"
proof -
  let ?L = "sort_key fst D"
  have len: "length ?L = length D" by simp
  have "map fst ?L ! k \<le> map fst ?L ! Suc k" using k by (intro sorted_nth_mono sorted_sort_key) simp_all
  moreover have "distinct (map fst ?L)" using assms(1) by (simp add: distinct_map)
  then have "map fst ?L ! k \<noteq> map fst ?L ! Suc k" using k by (subst nth_eq_iff_index_eq) simp_all
  ultimately show "fst (?L ! k) < fst (?L ! Suc k)" using k by simp
  have "map snd ?L ! k = snd (?L ! k) \<and> tl (map snd ?L) ! k = snd (?L ! Suc k)" using k by (simp add: nth_tl)
  then show "(snd (?L ! k), snd (?L ! Suc k)) \<in> set (seqnum_pairs D)"
    unfolding seqnum_pairs_def Let_def in_set_zip using k by (intro exI [of _ k]) simp
qed

lemma pair_path:
  assumes p: "(prev, later) \<in> set pairs" and ne: "prev \<noteq> []" and a: "a \<in> set later" and b: "b \<in> set prev"
    and times: "\<And>p. p \<in> set prev \<Longrightarrow> tx_timestamp p < tx_timestamp a"
  shows "(tx_hash a, tx_hash b) \<in> (seq_edges pairs)\<^sup>+"
proof -
  obtain n where n: "(n, prev, later) \<in> set (List.enumerate 0 pairs)" using p by (metis enumerate_members in_set_conv_nth)
  have "Max (tx_timestamp ` set prev) < tx_timestamp a" using ne times by simp
  then have "(tx_hash a, dummy_node_id n) \<in> pair_edges (n, prev, later)" using a by (auto simp: pair_edges_def)
  then have "(tx_hash a, dummy_node_id n) \<in> seq_edges pairs" unfolding seq_edges_def by (rule UN_I [OF n])
  moreover have "(dummy_node_id n, tx_hash b) \<in> pair_edges (n, prev, later)" using b by (auto simp: pair_edges_def)
  then have "(dummy_node_id n, tx_hash b) \<in> seq_edges pairs" unfolding seq_edges_def by (rule UN_I [OF n])
  ultimately show ?thesis by (meson trancl.r_into_trancl trancl.trancl_into_trancl)
qed

lemma seqnum_path:
  assumes D: "set (seqnum_pairs D) \<subseteq> set pairs" "distinct (map fst D)" "\<And>q txs. (q, txs) \<in> set D \<Longrightarrow> txs \<noteq> []"
    and times: "\<And>q r xs ys a b. (q, xs) \<in> set D \<Longrightarrow> (r, ys) \<in> set D \<Longrightarrow> q < r \<Longrightarrow> a \<in> set xs \<Longrightarrow> b \<in> set ys \<Longrightarrow> tx_timestamp a < tx_timestamp b"
    and ij: "i < j" "j < length D" and a: "a \<in> set (snd (sort_key fst D ! j))" and b: "b \<in> set (snd (sort_key fst D ! i))"
  shows "(tx_hash a, tx_hash b) \<in> (seq_edges pairs)\<^sup>+"
  using ij a
proof (induction j arbitrary: a)
  case 0
  then show ?case by simp
next
  case (Suc k)
  obtain q xs where k: "sort_key fst D ! k = (q, xs)" by (rule prod.exhaust)
  obtain r ys where sk: "sort_key fst D ! Suc k = (r, ys)" by (rule prod.exhaust)
  have "sort_key fst D ! l \<in> set D" if "l < length D" for l using that nth_mem [of l "sort_key fst D"] by simp
  then have in_D: "(q, xs) \<in> set D" "(r, ys) \<in> set D" using Suc.prems(2) k sk by (metis Suc_lessD)+
  have lt: "q < r" and pr: "(xs, ys) \<in> set pairs" using sorted_groups [OF D(2) Suc.prems(2)] D(1) k sk by auto
  have a: "a \<in> set ys" using Suc.prems(3) sk by simp
  have ne: "xs \<noteq> []" using D(3) in_D(1) by blast
  have down: "(tx_hash a, tx_hash p) \<in> (seq_edges pairs)\<^sup>+" if "p \<in> set xs" for p
    using pair_path [OF pr ne a that] times [OF in_D lt _ a] by blast
  show ?case
  proof (cases "i = k")
    case True
    then show ?thesis using down b k by simp
  next
    case False
    obtain p where p: "p \<in> set xs" using ne by (cases xs) auto
    then have "(tx_hash p, tx_hash b) \<in> (seq_edges pairs)\<^sup>+" using Suc.IH [of p] Suc.prems(1,2) False k by simp
    then show ?thesis using down [OF p] by simp
  qed
qed

definition increasing_times :: "bytes \<Rightarrow> nc_tx list \<Rightarrow> bool" where
  "increasing_times addr calls \<longleftrightarrow>
     (\<forall>s \<in> set calls. \<forall>t \<in> set calls. tx_address s = addr \<longrightarrow> tx_address t = addr \<longrightarrow> tx_seqnum s < tx_seqnum t \<longrightarrow>
        tx_timestamp s < tx_timestamp t)"

lemma seqnum_groupD:
  assumes grp: "seqnum_group addr calls D"
  shows "(q, txs) \<in> set D \<Longrightarrow> set txs = in_group addr calls q \<and> txs \<noteq> []"
    "tx \<in> in_group addr calls q \<Longrightarrow> \<exists>txs. (q, txs) \<in> set D"
proof -
  have c: "case dict_get D q of None \<Rightarrow> in_group addr calls q = {} | Some txs \<Rightarrow> txs \<noteq> [] \<and> set txs = in_group addr calls q" and d: "distinct (map fst D)"
    using grp unfolding seqnum_group_def by blast+
  show "set txs = in_group addr calls q \<and> txs \<noteq> []" if "(q, txs) \<in> set D"
    using c map_of_is_SomeI [OF d that] by simp
  show "\<exists>txs. (q, txs) \<in> set D" if "tx \<in> in_group addr calls q"
  proof (cases "dict_get D q")
    case None
    then show ?thesis using c that by simp
  next
    case (Some txs)
    then show ?thesis by (meson map_of_SomeD)
  qed
qed

lemma sort_key_index:
  assumes "(q, xs) \<in> set D"
  obtains j where "j < length D" "sort_key fst D ! j = (q, xs)"
proof -
  have "(q, xs) \<in> set (sort_key fst D)" using assms by simp
  then obtain j where "j < length (sort_key fst D)" "sort_key fst D ! j = (q, xs)" by (auto simp only: in_set_conv_nth)
  then show ?thesis using that by simp
qed

lemma group_path:
  assumes grp: "seqnum_group addr calls D" and sub: "set (seqnum_pairs D) \<subseteq> set pairs"
    and am: "a \<in> in_group addr calls q" and bm: "b \<in> in_group addr calls r" and lt: "r < q" and times: "increasing_times addr calls"
  shows "(tx_hash a, tx_hash b) \<in> (seq_edges pairs)\<^sup>+"
proof -
  note D = seqnum_groupD [OF grp]
  have d: "distinct (map fst D)" using grp unfolding seqnum_group_def by blast
  let ?L = "sort_key fst D"
  obtain xs j where xs: "(q, xs) \<in> set D" and j: "j < length D" "?L ! j = (q, xs)" using D(2) [OF am] sort_key_index by metis
  obtain ys i where ys: "(r, ys) \<in> set D" and i: "i < length D" "?L ! i = (r, ys)" using D(2) [OF bm] sort_key_index by metis
  have "i < j"
  proof (rule ccontr)
    assume "\<not> i < j"
    then have "map fst ?L ! j \<le> map fst ?L ! i" using i(1) by (intro sorted_nth_mono sorted_sort_key) simp_all
    then show False using i j lt by simp
  qed
  moreover have "a \<in> set (snd (?L ! j))" "b \<in> set (snd (?L ! i))" using D(1) [OF xs] D(1) [OF ys] am bm i j by simp_all
  moreover have "tx_timestamp s < tx_timestamp t" if "(m, vs) \<in> set D" "(n, ws) \<in> set D" "m < n" "s \<in> set vs" "t \<in> set ws" for m n vs ws s t
  proof -
    have "s \<in> in_group addr calls m" "t \<in> in_group addr calls n" using D(1) that by blast+
    then show ?thesis using times \<open>m < n\<close> unfolding increasing_times_def in_group_def by blast
  qed
  ultimately show ?thesis using seqnum_path [OF sub d _ _ _ j(1)] D(1) by blast
qed

lemma address_path:
  assumes a: "a \<in> set calls" and b: "b \<in> set calls" "tx_address b = tx_address a" and lt: "tx_seqnum b < tx_seqnum a"
    and times: "increasing_times (tx_address a) calls"
  shows "(tx_hash a, tx_hash b) \<in> (seq_edges (block_pairs calls))\<^sup>+"
proof -
  let ?G = "foldl add_to_grouped [] (map (\<lambda>tx. (tx, tx_header tx)) calls)"
  obtain D where D: "D = (case dict_get ?G (tx_address a) of None \<Rightarrow> [] | Some D \<Rightarrow> D)" by blast
  have grp: "seqnum_group (tx_address a) calls D" using grouped [of calls] unfolding D grouped_ok_def by blast
  have "set (seqnum_pairs D) \<subseteq> set (block_pairs calls)"
  proof (cases "dict_get ?G (tx_address a)")
    case None
    then have "D = []" unfolding D by (simp only: option.case)
    then show ?thesis by (simp add: seqnum_pairs_def)
  next
    case (Some D')
    then have "D = D'" unfolding D by (simp only: option.case)
    then have "seqnum_pairs D \<in> set (map (\<lambda>(_, d). seqnum_pairs d) ?G)"
      unfolding set_map using imageI [OF map_of_SomeD [OF Some], of "\<lambda>(_, d). seqnum_pairs d"] by (simp only: prod.case)
    then show ?thesis unfolding all_seqnum_pairs_def set_concat by (rule Union_upper [OF imageI])
  qed
  then show ?thesis using a b lt times
    by (intro group_path [OF grp _ _ _ lt]) (simp_all only: in_group_def mem_Collect_eq simp_thms)
qed

lemma tx_by_id:
  "map_of (foldl (\<lambda>d tx. dict_put (tx_hash tx) tx d) [] calls) = map_of (rev (map (\<lambda>tx. (tx_hash tx, tx)) calls))"
  by (induction calls rule: rev_induct) (auto simp: fun_eq_iff)

lemma tx_by_id_get:
  assumes "inj_on tx_hash (set calls)" and "tx \<in> set calls"
  shows "dict_get (foldl (\<lambda>d tx. dict_put (tx_hash tx) tx d) [] calls) (tx_hash tx) = Some tx"
proof -
  let ?m = "rev (map (\<lambda>tx. (tx_hash tx, tx)) calls)"
  have "(tx_hash tx, tx) \<in> set ?m" using assms(2) by simp
  then obtain t where t: "map_of ?m (tx_hash tx) = Some t" using weak_map_of_SomeI by fast
  then have "(tx_hash tx, t) \<in> set ?m" by (rule map_of_SomeD)
  then have "t \<in> set calls" "tx_hash t = tx_hash tx" by auto
  then have "t = tx" using assms by (blast dest: inj_onD)
  then show ?thesis using t unfolding tx_by_id by (simp only:)
qed

lemma tx_by_id_keys: "fst ` set (foldl (\<lambda>d tx. dict_put (tx_hash tx) tx d) [] calls) = tx_hash ` set calls"
  by (induction calls rule: rev_induct) (auto simp: dict_keys_put)

lemma sorter_from_order:
  assumes ok: "block_ok txs calls" and create: "create_from_block txs calls = Inr s"
    and gen: "generate_random_topological_order it chacha20 fuel (sha256 rt block_hash) s = Inr hs" and hs: "set hs = tx_hash ` set calls"
  shows "\<exists>order. random_nc_calls_sorter it rt chacha20 fuel block_hash txs calls = Inr order \<and> map tx_hash order = hs \<and> set order = set calls"
proof -
  let ?d = "foldl (\<lambda>d tx. dict_put (tx_hash tx) tx d) [] calls"
  let ?order = "map (\<lambda>vid. the (dict_get ?d vid)) hs"
  have inj: "inj_on tx_hash (set calls)" using ok unfolding block_ok_def by (blast intro: inj_on_subset)
  have run: "random_nc_calls_sorter it rt chacha20 fuel block_hash txs calls = Inr ?order"
    unfolding random_nc_calls_sorter_def create ebind_simps gen Let_def tx_by_id_keys hs by simp
  have get: "\<exists>tx \<in> set calls. h = tx_hash tx \<and> the (dict_get ?d h) = tx" if "h \<in> set hs" for h
    using that tx_by_id_get [OF inj] unfolding hs by auto
  have "map tx_hash ?order = map (\<lambda>h. h) hs" unfolding map_map comp_def using get by (intro map_cong) force+
  moreover have "set ?order = set calls"
  proof
    show "set ?order \<subseteq> set calls" using get by force
    show "set calls \<subseteq> set ?order"
    proof
      fix tx
      assume tx: "tx \<in> set calls"
      then have "tx_hash tx \<in> set hs" unfolding hs by simp
      moreover have "tx = the (dict_get ?d (tx_hash tx))" using tx_by_id_get [OF inj tx] by simp
      ultimately show "tx \<in> set ?order" unfolding set_map by (rule rev_image_eqI)
    qed
  qed
  ultimately show ?thesis using run by simp
qed

lemma comes_before_unmap:
  assumes "comes_before (map f xs) (f b) (f a)" and "inj_on f (set xs)" and "a \<in> set xs" and "b \<in> set xs"
  shows "comes_before xs b a"
proof -
  obtain us vs where e: "map f xs = us @ vs" "f b \<in> set us" "f a \<in> set vs" using assms(1) by (auto simp: comes_before_def)
  then obtain ys zs where x: "xs = ys @ zs" "us = map f ys" "vs = map f zs" by (auto simp: map_eq_append_conv)
  then have "b \<in> set ys" "a \<in> set zs" using e assms(2-4) by (auto dest: inj_onD)
  then show ?thesis using x(1) by (auto simp: comes_before_def)
qed

section \<open>Sample blocks\<close>

definition call_header :: "int \<Rightarrow> bytes \<Rightarrow> bytes \<Rightarrow> nano_header" where
  "call_header seqnum nc address =
     \<lparr>nh_seqnum = seqnum, nh_id = nc, nh_method = [], nh_args_bytes = [], nh_actions = [], nh_address = address, nh_script = []\<rparr>"

definition call_tx :: "bytes \<Rightarrow> nat \<Rightarrow> bytes list \<Rightarrow> int \<Rightarrow> bytes \<Rightarrow> bytes \<Rightarrow> nc_tx" where
  "call_tx h ts ins seqnum nc address =
     \<lparr>tx_hash = h, tx_timestamp = ts, tx_inputs = map (\<lambda>i. \<lparr>txin_tx_id = i, txin_index = 0\<rparr>) ins, tx_outputs = [], tx_tokens = [],
      tx_nano_header = Some (call_header seqnum nc address), tx_fee_header = None, tx_created = None\<rparr>"

definition sample_block :: "nc_tx list" where
  "sample_block = [call_tx [3] 30 [[1]] 1 [9] [7], call_tx [1] 10 [] 1 [9] [8], call_tx [2] 20 [[1]] 2 [9] [8]]"

definition order_runtime :: runtime where
  "order_runtime = plain_runtime\<lparr>sha256 := \<lambda>_. replicate 32 0\<rparr>"

definition zero_cipher :: stream_cipher where
  "zero_cipher key nonce i = 0"

definition forked_block :: "nc_tx list" where
  "forked_block = [call_tx [1] 10 [] 1 [9] [6], call_tx [2] 20 [[1]] 1 [9] [7], call_tx [3] 30 [[1]] 1 [9] [8]]"

definition circular_block :: "nc_tx list" where
  "circular_block = [call_tx [1] 10 [] 1 [2] [8], call_tx [2] 20 [] 2 [9] [8]]"

lemma iterates_sorted: "iterates sorted_list_of_set" "iterates (\<lambda>S. rev (sorted_list_of_set S))"
  by (simp_all add: iterates_def)

lemma draws_zero: "draws zero_cipher 1 seed m"
proof -
  have z: "from_bytes_little (map (\<lambda>_. 0) xs) = 0" for xs :: "nat list" by (induction xs) simp_all
  have "fst (randbelow zero_cipher 1 n r) = Inr 0" if "1 \<le> n" for n r
  proof -
    let ?k = "bit_length (nat n)"
    have k: "1 \<le> ?k" using that by (intro bit_length_pos) simp
    have "draw zero_cipher ?k r 0 = 0" by (simp add: draw_def zero_cipher_def z)
    then show ?thesis
      using that by (simp add: randbelow_def sm_simps randbits_draw [OF k])
  qed
  then show ?thesis by (simp add: draws_def)
qed

lemma not_dummy: "take 1 v \<noteq> [100] \<Longrightarrow> v \<notin> range dummy_node_id"
  by (auto simp: dummy_node_id_def ustr_def simp del: decimal.simps)

lemma sample_block_ok: "block_ok sample_block sample_block"
  by (auto simp: block_ok_def sample_block_def call_tx_def call_header_def deps_def inj_on_def not_dummy)

section \<open>Orders of blocks\<close>





end
