(* ===== verification/Spec2Isabelle.thy ===== *)
theory Spec2Isabelle
  imports NC_Type_Props Patricia_Props Storage_Props Token_Amounts Token_Names NC_Method Balance_Rules Runner_Props Block_Order
begin

text \<open>
  Verification of the nano contract core of the Hathor full node.
\<close>

end
